(* ===== verification/Prelude.thy ===== *)
theory Prelude
  imports Main "HOL-Library.Word"
begin

text \<open>
  What every component of the development shares.

  \<^item> The machine integers of the program as words; \<open>usize\<close> has 64 bits (the stream headers of
    \<open>src/aux\<close> read a \<open>usize\<close> from exactly eight bytes, so only such targets compile).
  \<^item> \<open>res\<close>: the outcome of a Rust call. \<open>Ok\<close> and \<open>Err\<close> are the two sides of \<open>Result\<close>,
    \<open>Panic\<close> is a panic (index out of range, division by zero, checked overflow) and
    \<open>Diverges\<close> a call that never returns.
  \<^item> Checked and wrapping arithmetic. The flag \<open>chk\<close> tells whether the build has overflow checks:
    true in a debug build, false in the release profile of \<open>Cargo.toml\<close>, which leaves
    them off. Division by zero panics in both.
  \<^item> \<open>act\<close>: a call that sends messages on channels before it gives its outcome; the messages that
    were really sent are kept even where a later send fails.
  \<^item> \<open>run\<close>: a worker thread. The body of the \<open>loop\<close> of its \<open>start\<close> function is a step that takes
    the answer of its blocking call (\<open>recv\<close>, \<open>read\<close>, \<open>accept\<close>) and either continues with a new
    loop state, returns, fails with \<open>?\<close>, panics or hangs. \<open>run\<close> feeds it a list of answers.
\<close>

unbundle bit_operations_syntax

type_synonym u8 = "8 word"
type_synonym u16 = "16 word"
type_synonym u32 = "32 word"
type_synonym u64 = "64 word"
type_synonym u128 = "128 word"
type_synonym usize = "64 word"
type_synonym bytes = "u8 list"

named_theorems act_simps \<open>unfolding of effectful calls\<close>
named_theorems res_simps \<open>unfolding of outcomes and checked arithmetic\<close>

section \<open>Outcomes\<close>

datatype ('e, 'a) res = Ok 'a | Err 'e | Panic | Diverges

primrec and_then :: "('e, 'a) res \<Rightarrow> ('a \<Rightarrow> ('e, 'b) res) \<Rightarrow> ('e, 'b) res" where
  "and_then (Ok a) k = k a"
| "and_then (Err e) k = Err e"
| "and_then Panic k = Panic"
| "and_then Diverges k = Diverges"

primrec map_err :: "('e \<Rightarrow> 'f) \<Rightarrow> ('e, 'a) res \<Rightarrow> ('f, 'a) res" where
  "map_err f (Ok a) = Ok a"
| "map_err f (Err e) = Err (f e)"
| "map_err f Panic = Panic"
| "map_err f Diverges = Diverges"

definition ok_or :: "'e \<Rightarrow> 'a option \<Rightarrow> ('e, 'a) res" where
  "ok_or e x = (case x of None \<Rightarrow> Err e | Some a \<Rightarrow> Ok a)"

lemma ok_or_simps [simp]:
  "ok_or e None = Err e"
  "ok_or e (Some a) = Ok a"
  by (simp_all add: ok_or_def)

lemma and_then_eq_Ok:
  "and_then r k = Ok b \<longleftrightarrow> (\<exists>a. r = Ok a \<and> k a = Ok b)"
  by (cases r) auto

lemma ok_or_eq_Ok: "ok_or e x = Ok a \<longleftrightarrow> x = Some a"
  by (cases x) auto

lemma and_then_assoc: "and_then (and_then r k) l = and_then r (\<lambda>a. and_then (k a) l)"
  by (cases r) auto

section \<open>Arithmetic\<close>

definition add_chk :: "bool \<Rightarrow> 'w::len word \<Rightarrow> 'w word \<Rightarrow> ('e, 'w word) res" where
  "add_chk chk a b = (if chk \<and> unat a + unat b \<ge> 2 ^ LENGTH('w) then Panic else Ok (a + b))"

definition sub_chk :: "bool \<Rightarrow> 'w::len word \<Rightarrow> 'w word \<Rightarrow> ('e, 'w word) res" where
  "sub_chk chk a b = (if chk \<and> a < b then Panic else Ok (a - b))"

definition mul_chk :: "bool \<Rightarrow> 'w::len word \<Rightarrow> 'w word \<Rightarrow> ('e, 'w word) res" where
  "mul_chk chk a b = (if chk \<and> unat a * unat b \<ge> 2 ^ LENGTH('w) then Panic else Ok (a * b))"

definition div_chk :: "'w::len word \<Rightarrow> 'w word \<Rightarrow> ('e, 'w word) res" where
  "div_chk a b = (if b = 0 then Panic else Ok (a div b))"

definition rem_chk :: "'w::len word \<Rightarrow> 'w word \<Rightarrow> ('e, 'w word) res" where
  "rem_chk a b = (if b = 0 then Panic else Ok (a mod b))"

text \<open>\<open>u16::try_from(x: u32)\<close> and its kin: the value if it fits, else the conversion error.\<close>

definition try_from :: "'v::len word \<Rightarrow> 'w::len word option" where
  "try_from x = (if unat x < 2 ^ LENGTH('w) then Some (ucast x) else None)"

lemma sub_chk_exact [res_simps]: "b \<le> a \<Longrightarrow> sub_chk chk a b = Ok (a - b)"
  by (auto simp: sub_chk_def)

lemma add_chk_exact [res_simps]:
  "unat a + unat b < 2 ^ LENGTH('w) \<Longrightarrow> add_chk chk (a :: 'w::len word) b = Ok (a + b)"
  by (simp add: add_chk_def)

lemma mul_chk_exact [res_simps]:
  "unat a * unat b < 2 ^ LENGTH('w) \<Longrightarrow> mul_chk chk (a :: 'w::len word) b = Ok (a * b)"
  by (simp add: mul_chk_def)

lemma div_chk_exact [res_simps]: "b \<noteq> 0 \<Longrightarrow> div_chk a b = Ok (a div b)"
  by (simp add: div_chk_def)

lemma rem_chk_exact [res_simps]: "b \<noteq> 0 \<Longrightarrow> rem_chk a b = Ok (a mod b)"
  by (simp add: rem_chk_def)

lemma try_from_Some:
  "try_from (x :: 'v::len word) = Some (y :: 'w::len word) \<Longrightarrow> unat y = unat x"
  by (auto simp: try_from_def unsigned_ucast_eq take_bit_nat_eq_self_iff split: if_splits)

lemma try_from_fits:
  "unat (x :: 'v::len word) < 2 ^ LENGTH('w::len) \<Longrightarrow> try_from x = Some (ucast x :: 'w word)"
  by (simp add: try_from_def)

lemma try_from_None_iff:
  "(try_from (x :: 'v::len word) :: 'w::len word option) = None \<longleftrightarrow> 2 ^ LENGTH('w) \<le> unat x"
  by (auto simp: try_from_def)

text \<open>Slices and vectors: an index out of range panics.\<close>

definition index :: "'a list \<Rightarrow> nat \<Rightarrow> ('e, 'a) res" where
  "index xs i = (if i < length xs then Ok (xs ! i) else Panic)"

definition store :: "'a list \<Rightarrow> nat \<Rightarrow> 'a \<Rightarrow> ('e, 'a list) res" where
  "store xs i v = (if i < length xs then Ok (xs[i := v]) else Panic)"

definition slice :: "'a list \<Rightarrow> nat \<Rightarrow> nat \<Rightarrow> ('e, 'a list) res" where
  "slice xs i j = (if i \<le> j \<and> j \<le> length xs then Ok (take (j - i) (drop i xs)) else Panic)"

text \<open>\<open>vec![0; n]\<close> and \<open>with_capacity(n)\<close>: more than \<open>isize::MAX\<close> bytes are a capacity overflow.\<close>

definition vec_alloc :: "usize \<Rightarrow> ('e, nat) res" where
  "vec_alloc n = (if unat n < 2 ^ 63 then Ok (unat n) else Panic)"

lemma vec_alloc_ok [res_simps]: "unat n < 2 ^ 63 \<Longrightarrow> vec_alloc n = Ok (unat n)"
  by (simp add: vec_alloc_def)

lemma index_ok [res_simps]: "i < length xs \<Longrightarrow> index xs i = Ok (xs ! i)"
  by (simp add: index_def)

lemma store_ok [res_simps]: "i < length xs \<Longrightarrow> store xs i v = Ok (xs[i := v])"
  by (simp add: store_def)

lemma slice_ok [res_simps]:
  "i \<le> j \<Longrightarrow> j \<le> length xs \<Longrightarrow> slice xs i j = Ok (take (j - i) (drop i xs))"
  by (simp add: slice_def)

lemma unat_ucast_le:
  "LENGTH('v::len) \<le> LENGTH('w::len) \<Longrightarrow> unat (ucast (x :: 'v word) :: 'w word) = unat x"
  by (simp add: unsigned_ucast_eq take_bit_nat_eq_self_iff order.strict_trans2
      [OF unsigned_less power_increasing])

lemma unat_u8_less: "unat (x :: u8) < 256"
  using unsigned_less [of x, where 'a = nat] by simp

lemma unat_u16_less: "unat (x :: u16) < 65536"
  using unsigned_less [of x, where 'a = nat] by simp

lemma unat_u32_less: "unat (x :: u32) < 4294967296"
  using unsigned_less [of x, where 'a = nat] by simp

section \<open>Calls that send\<close>

type_synonym ('o, 'e, 'a) act = "'o list \<times> ('e, 'a) res"

definition ret :: "'a \<Rightarrow> ('o, 'e, 'a) act" where
  "ret a = ([], Ok a)"

definition lift :: "('e, 'a) res \<Rightarrow> ('o, 'e, 'a) act" where
  "lift r = ([], r)"

text \<open>
  \<open>emit up e m\<close> is \<open>send(m)?\<close>: \<open>up m\<close> tells whether the channel accepts the message (it refuses
  when its receiving side is gone), \<open>e\<close> is what the refusal is converted to.
\<close>

definition emit :: "('o \<Rightarrow> bool) \<Rightarrow> 'e \<Rightarrow> 'o \<Rightarrow> ('o, 'e, unit) act" where
  "emit up e m = (if up m then ([m], Ok ()) else ([], Err e))"

definition bind_act :: "('o, 'e, 'a) act \<Rightarrow> ('a \<Rightarrow> ('o, 'e, 'b) act) \<Rightarrow> ('o, 'e, 'b) act" where
  "bind_act m k = (case m of (os, r) \<Rightarrow>
     (case r of
        Ok a \<Rightarrow> (os @ fst (k a), snd (k a))
      | Err e \<Rightarrow> (os, Err e)
      | Panic \<Rightarrow> (os, Panic)
      | Diverges \<Rightarrow> (os, Diverges)))"

lemma bind_act_simps [simp]:
  "bind_act (os, Ok a) k = (os @ fst (k a), snd (k a))"
  "bind_act (os, Err e) k = (os, Err e)"
  "bind_act (os, Panic) k = (os, Panic)"
  "bind_act (os, Diverges) k = (os, Diverges)"
  by (simp_all add: bind_act_def)

lemma ret_bind [simp]: "bind_act (ret a) k = k a"
  by (simp add: ret_def)

lemma lift_simps [act_simps]:
  "bind_act (lift (Ok a)) k = k a"
  "bind_act (lift (Err e)) k = lift (Err e)"
  "bind_act (lift Panic) k = lift Panic"
  by (simp_all add: lift_def)

lemma emit_up [act_simps]: "up m \<Longrightarrow> emit up e m = ([m], Ok ())"
  by (simp add: emit_def)

lemma emit_down [act_simps]: "\<not> up m \<Longrightarrow> emit up e m = ([], Err e)"
  by (simp add: emit_def)

lemma bind_act_assoc: "bind_act (bind_act m k) l = bind_act m (\<lambda>a. bind_act (k a) l)"
  by (cases m; cases "snd m") (auto simp: bind_act_def split: prod.splits res.splits)

lemma bind_act_member:
  "e \<in> set (fst (bind_act m k)) \<longleftrightarrow> e \<in> set (fst m) \<or> (\<exists>a. snd m = Ok a \<and> e \<in> set (fst (k a)))"
  by (cases m; cases "snd m") auto

section \<open>Worker threads\<close>

datatype ('s, 'r) flow = Continue 's | Return 'r

text \<open>What a blocking channel read of \<open>crossbeam_channel\<close> answers.\<close>

datatype 'm recv = Msg 'm | Timeout | Disconnected

fun run :: "('s \<Rightarrow> 'i \<Rightarrow> ('o, 'e, ('s, 'r) flow) act) \<Rightarrow> 's \<Rightarrow> 'i list \<Rightarrow> ('o, 'e, ('s, 'r) flow) act"
where
  "run step s [] = ret (Continue s)"
| "run step s (i # is) =
     bind_act (step s i) (\<lambda>f. case f of Continue s' \<Rightarrow> run step s' is | Return r \<Rightarrow> ret (Return r))"

lemma run_continue:
  "step s i = (os, Ok (Continue s')) \<Longrightarrow>
   run step s (i # is) = (os @ fst (run step s' is), snd (run step s' is))"
  by simp

lemma run_return:
  "step s i = (os, Ok (Return r)) \<Longrightarrow> run step s (i # is) = (os, Ok (Return r))"
  by (simp add: ret_def)

lemma run_append:
  assumes "run step s is = (os, Ok (Continue s'))"
  shows "run step s (is @ js) = (os @ fst (run step s' js), snd (run step s' js))"
  using assms
proof (induction "is" arbitrary: s os)
  case Nil
  then show ?case by (simp add: ret_def)
next
  case (Cons i "is")
  obtain o1 r1 where st: "step s i = (o1, r1)" by (cases "step s i")
  with Cons.prems obtain s1 where r1: "r1 = Ok (Continue s1)"
    by (cases r1) (auto simp: ret_def split: flow.splits)
  obtain o2 r2 where rn: "run step s1 is = (o2, r2)" by (cases "run step s1 is")
  with Cons.prems st r1 have "r2 = Ok (Continue s')" and os: "os = o1 @ o2" by auto
  with rn have "run step s1 (is @ js) = (o2 @ fst (run step s' js), snd (run step s' js))"
    by (intro Cons.IH) simp
  with st r1 os show ?case by simp
qed

text \<open>
  The contract of a worker: an invariant of the loop state that every step keeps, and a property
  of every message it sends. A component interprets this locale on its own step function.
\<close>

locale worker =
  fixes step :: "'s \<Rightarrow> 'i \<Rightarrow> ('o, 'e, ('s, 'r) flow) act"
    and inv :: "'s \<Rightarrow> bool"
    and good :: "'o \<Rightarrow> bool"
  assumes step_good: "inv s \<Longrightarrow> m \<in> set (fst (step s i)) \<Longrightarrow> good m"
    and step_inv: "inv s \<Longrightarrow> snd (step s i) = Ok (Continue s') \<Longrightarrow> inv s'"
begin

lemma run_good: "inv s \<Longrightarrow> m \<in> set (fst (run step s is)) \<Longrightarrow> good m"
proof (induction "is" arbitrary: s)
  case Nil
  then show ?case by (simp add: ret_def)
next
  case (Cons i "is")
  show ?case
    using Cons step_good [OF Cons.prems(1), of m i] step_inv [OF Cons.prems(1), of i]
    by (cases "step s i"; cases "snd (step s i)") (auto simp: ret_def split: flow.splits)
qed

lemma run_inv: "inv s \<Longrightarrow> snd (run step s is) = Ok (Continue s') \<Longrightarrow> inv s'"
proof (induction "is" arbitrary: s)
  case Nil
  then show ?case by (simp add: ret_def)
next
  case (Cons i "is")
  show ?case
    using Cons step_inv [OF Cons.prems(1), of i]
    by (cases "step s i"; cases "snd (step s i)") (auto simp: ret_def split: flow.splits)
qed

end

text \<open>
  A worker that takes and gives back permits of a semaphore: \<open>permits\<close> counts those its events have taken,
  \<open>held\<close> those it holds in a state.
\<close>

locale permit_holder =
  fixes step :: "'s \<Rightarrow> 'i \<Rightarrow> ('o, 'e, ('s, 'r) flow) act"
    and permits :: "'o list \<Rightarrow> int"
    and held :: "'s \<Rightarrow> int"
  assumes permits_Nil: "permits [] = 0"
    and permits_append: "permits (xs @ ys) = permits xs + permits ys"
    and step_permits: "snd (step s i) = Ok (Continue s') \<Longrightarrow> permits (fst (step s i)) = held s' - held s"
begin

lemma run_permits:
  "snd (run step s is) = Ok (Continue s') \<Longrightarrow> permits (fst (run step s is)) = held s' - held s"
proof (induction "is" arbitrary: s)
  case Nil
  then show ?case by (simp add: ret_def permits_Nil)
next
  case (Cons i "is")
  obtain o1 r where st: "step s i = (o1, r)" by (cases "step s i")
  with Cons.prems obtain s1 where r: "r = Ok (Continue s1)"
    by (cases r) (auto simp: ret_def split: flow.splits)
  have "snd (run step s1 is) = Ok (Continue s')" using Cons.prems st r by simp
  from Cons.IH [OF this] show ?case
    using step_permits [of s i s1] st r by (simp add: permits_append)
qed

end

section \<open>Numbers as text\<close>

text \<open>What the formats \<open>{}\<close> and \<open>{:x}\<close> print for an unsigned integer.\<close>

fun decimal :: "nat \<Rightarrow> string" where
  "decimal n = (if n < 10 then [char_of (48 + n)] else decimal (n div 10) @ [char_of (48 + n mod 10)])"

definition hex_digit :: "nat \<Rightarrow> char" where
  "hex_digit d = (if d < 10 then char_of (48 + d) else char_of (87 + d))"

fun lower_hex :: "nat \<Rightarrow> string" where
  "lower_hex n = (if n < 16 then [hex_digit n] else lower_hex (n div 16) @ [hex_digit (n mod 16)])"

declare decimal.simps [simp del] lower_hex.simps [simp del]

end
