(* ===== verification/Bytes.thy ===== *)
theory Bytes
  imports Prelude
begin

text \<open>
  Little-endian integers (\<open>to_le_bytes\<close>, \<open>from_le_bytes\<close> of the standard library) and byte
  streams. A \<open>stream\<close> is what a peer will still deliver: its pending bytes, and whether it then
  ends cleanly or with an I/O error. \<open>read\<close> may return fewer bytes than asked for, as many as the
  kernel has ready; \<open>read_exact\<close> loops until it has them all.

  The locale \<open>codec\<close> is the contract of a serializer: decoding what was encoded gives the value
  back and leaves the rest of the stream alone, and a cut encoding is an error. Its client
  lemmas (injectivity, sequences of values) are proved once for all headers.
\<close>

section \<open>Little-endian integers\<close>

fun to_le :: "nat \<Rightarrow> 'w::len word \<Rightarrow> bytes" where
  "to_le 0 w = []"
| "to_le (Suc n) w = ucast w # to_le n (drop_bit 8 w)"

fun from_le :: "bytes \<Rightarrow> 'w::len word" where
  "from_le [] = 0"
| "from_le (b # bs) = ucast b OR push_bit 8 (from_le bs)"

lemma length_to_le [simp]: "length (to_le n w) = n"
  by (induction n arbitrary: w) auto

lemma nth_to_le: "i < n \<Longrightarrow> to_le n w ! i = ucast (drop_bit (8 * i) w)"
proof (induction n arbitrary: w i)
  case 0
  then show ?case by simp
next
  case (Suc n)
  then show ?case by (cases i) (auto simp: ac_simps)
qed

lemma bit_from_le:
  "bit (from_le bs :: 'w::len word) i \<longleftrightarrow>
     i < LENGTH('w) \<and> i < 8 * length bs \<and> bit (bs ! (i div 8)) (i mod 8)"
proof (induction bs arbitrary: i)
  case Nil
  then show ?case by simp
next
  case (Cons b bs)
  show ?case
  proof (cases "i < 8")
    case True
    then show ?thesis
      by (auto simp: bit_or_iff bit_ucast_iff bit_push_bit_iff)
  next
    case False
    moreover have "\<not> bit b i"
      using False bit_imp_le_length [of b i] by auto
    moreover from False have "i div 8 = Suc ((i - 8) div 8)" "(i - 8) mod 8 = i mod 8"
      by (auto simp: le_div_geq le_mod_geq)
    ultimately show ?thesis
      by (auto simp: bit_or_iff bit_ucast_iff bit_push_bit_iff Cons.IH)
  qed
qed

text \<open>Reading back what was written, and writing back what was read, at the full width.\<close>

lemma from_le_to_le:
  assumes "LENGTH('w::len) = 8 * n"
  shows "from_le (to_le n (w :: 'w word)) = w"
proof (rule bit_word_eqI)
  fix i assume i: "i < LENGTH('w)"
  with assms have "i div 8 < n" by auto
  with i assms show "bit (from_le (to_le n w) :: 'w word) i = bit w i"
    by (simp add: bit_from_le nth_to_le bit_ucast_iff bit_drop_bit_eq)
qed

lemma to_le_from_le:
  assumes "LENGTH('w::len) = 8 * n" and "length bs = n"
  shows "to_le n (from_le bs :: 'w word) = bs"
proof (rule nth_equalityI)
  show "length (to_le n (from_le bs :: 'w word)) = length bs"
    using assms by simp
next
  fix i assume "i < length (to_le n (from_le bs :: 'w word))"
  then have i: "i < n" by simp
  have "bit (to_le n (from_le bs :: 'w word) ! i) j = bit (bs ! i) j" if "j < 8" for j
    using i that assms
    by (auto simp: nth_to_le bit_ucast_iff bit_drop_bit_eq bit_from_le)
  then show "to_le n (from_le bs :: 'w word) ! i = bs ! i"
    by (intro bit_word_eqI) simp
qed

lemma to_le_inject:
  assumes "LENGTH('w::len) = 8 * n"
  shows "to_le n (v :: 'w word) = to_le n w \<longleftrightarrow> v = w"
  using from_le_to_le [OF assms] by metis

text \<open>The widths that occur in the program.\<close>

lemma from_le_to_le_u32 [simp]: "from_le (to_le 4 (w :: u32)) = w"
  by (rule from_le_to_le) simp

lemma from_le_to_le_u64 [simp]: "from_le (to_le 8 (w :: u64)) = w"
  by (rule from_le_to_le) simp

lemma from_le_to_le_u128 [simp]: "from_le (to_le 16 (w :: u128)) = w"
  by (rule from_le_to_le) simp

section \<open>Streams\<close>

datatype io_error = UnexpectedEof | Io_failed

record stream =
  pending :: bytes
  broken :: bool

text \<open>
  \<open>read(buf)\<close> with a buffer of \<open>room\<close> bytes when the kernel has up to \<open>ready\<close> bytes (at least
  one) at hand: 0 bytes mean the end of the stream or an empty buffer.
\<close>

definition read :: "nat \<Rightarrow> nat \<Rightarrow> stream \<Rightarrow> (io_error, bytes \<times> stream) res" where
  "read ready room s =
     (if pending s = [] \<and> broken s \<and> room \<noteq> 0 then Err Io_failed
      else let n = min (max 1 ready) room
           in Ok (take n (pending s), s\<lparr>pending := drop n (pending s)\<rparr>))"

definition read_exact :: "nat \<Rightarrow> stream \<Rightarrow> (io_error, bytes \<times> stream) res" where
  "read_exact n s =
     (if n \<le> length (pending s)
      then Ok (take n (pending s), s\<lparr>pending := drop n (pending s)\<rparr>)
      else Err (if broken s then Io_failed else UnexpectedEof))"

lemma read_exact_append [simp]:
  "pending s = xs @ rest \<Longrightarrow> length xs = n \<Longrightarrow>
   read_exact n s = Ok (xs, s\<lparr>pending := rest\<rparr>)"
  by (auto simp: read_exact_def)

lemma read_exact_short:
  "length (pending s) < n \<Longrightarrow> \<exists>e. read_exact n s = Err e"
  by (auto simp: read_exact_def)

lemma read_length_le: "read k room s = Ok (bs, s') \<Longrightarrow> length bs \<le> room"
  by (auto simp: read_def Let_def split: if_splits)

lemma read_splits:
  "read k room s = Ok (bs, s') \<Longrightarrow> pending s = bs @ pending s' \<and> broken s' = broken s"
  by (auto simp: read_def Let_def split: if_splits)

lemma read_zero:
  "read k room s = Ok ([], s') \<Longrightarrow> 0 < room \<Longrightarrow> pending s = [] \<and> \<not> broken s \<and> s' = s"
  by (auto simp: read_def Let_def max_def split: if_splits)

section \<open>Serializers\<close>

locale codec =
  fixes enc :: "'a \<Rightarrow> bytes"
    and dec :: "stream \<Rightarrow> ('e, 'a \<times> stream) res"
    and valid :: "'a \<Rightarrow> bool"
  assumes dec_enc:
      "valid a \<Longrightarrow> pending s = enc a @ rest \<Longrightarrow> dec s = Ok (a, s\<lparr>pending := rest\<rparr>)"
    and dec_cut:
      "valid a \<Longrightarrow> k < length (enc a) \<Longrightarrow> pending s = take k (enc a) \<Longrightarrow> \<exists>e. dec s = Err e"
begin

text \<open>No encoding is a prefix of another one, so a stream of encodings has one reading.\<close>

lemma enc_inject:
  assumes "valid a" "valid b" "enc a @ xs = enc b @ ys"
  shows "a = b \<and> xs = ys"
proof -
  let ?s = "\<lparr>pending = enc a @ xs, broken = False\<rparr>"
  have "dec ?s = Ok (a, ?s\<lparr>pending := xs\<rparr>)"
    using assms(1) by (rule dec_enc) simp
  moreover have "dec ?s = Ok (b, ?s\<lparr>pending := ys\<rparr>)"
    using assms(2) by (rule dec_enc) (simp add: assms(3))
  ultimately show ?thesis by simp
qed

lemma enc_prefix_free:
  assumes "valid a" "valid b" "enc a = enc b @ ys"
  shows "a = b \<and> ys = []"
  using enc_inject [of a b "[]" ys] assms by simp

end

end
