(* ===== verification/Protocol.thy ===== *)
theory Protocol
  imports Bytes
begin

text \<open>
  \<open>src/protocol.rs\<close>: the \<open>RaptorQ\<close> parameters of a link and the blocks sent over it.

  The crate \<open>raptorq\<close> is third-party code: the record \<open>raptorq_lib\<close> collects its functions as
  parameters of the model, with no assumption about them here. The arithmetic of
  \<open>RaptorQ::new\<close> is kept at the widths of the source (\<open>u16\<close> and \<open>u32\<close>).
  A block is the byte vector of the header comment: client id (4 bytes), type (1 byte),
  data length (4 bytes), data, padding.
\<close>

section \<open>Errors\<close>

datatype protocol_error =
    Io io_error
  | InvalidBlockType "u8 option"
  | Other string

text \<open>The text of \<open>TryFromIntError\<close> of the standard library.\<close>

definition try_from_int_error :: string where
  "try_from_int_error = ''out of range integral type conversion attempted''"

definition other_conversion :: "string \<Rightarrow> protocol_error" where
  "other_conversion what = Other (what @ '': '' @ try_from_int_error)"

section \<open>RaptorQ parameters\<close>

record ('plan, 'cfg, 'pkt) raptorq_lib =
  rq_generate :: "u16 \<Rightarrow> 'plan option" \<comment> \<open>\<open>None\<close> here and below: the call panics\<close>
  rq_with_defaults :: "u64 \<Rightarrow> u16 \<Rightarrow> 'cfg option"
  rq_symbol_size :: "'cfg \<Rightarrow> u16"
  rq_source_packets :: "u8 \<Rightarrow> 'cfg \<Rightarrow> bytes \<Rightarrow> 'plan \<Rightarrow> 'pkt list"
  rq_repair_packets :: "u8 \<Rightarrow> 'cfg \<Rightarrow> bytes \<Rightarrow> 'plan \<Rightarrow> u32 \<Rightarrow> u32 \<Rightarrow> 'pkt list"
  rq_decode :: "u8 \<Rightarrow> 'cfg \<Rightarrow> u64 \<Rightarrow> 'pkt list \<Rightarrow> bytes option"
  rq_serialize :: "'pkt \<Rightarrow> bytes"
  rq_deserialize :: "bytes \<Rightarrow> 'pkt option"
  rq_block_number :: "'pkt \<Rightarrow> u8"

definition may_panic :: "'a option \<Rightarrow> ('e, 'a) res" where
  "may_panic x = (case x of None \<Rightarrow> Panic | Some a \<Rightarrow> Ok a)"

lemma may_panic_simps [simp]:
  "may_panic None = Panic" "may_panic (Some a) = Ok a" "may_panic x = Ok a \<longleftrightarrow> x = Some a"
  by (simp_all add: may_panic_def split: option.splits)

definition PACKET_HEADER_SIZE :: u16 where "PACKET_HEADER_SIZE = 20 + 8"
definition RAPTORQ_ALIGNMENT :: u16 where "RAPTORQ_ALIGNMENT = 8"
definition RAPTORQ_HEADER_SIZE :: u16 where "RAPTORQ_HEADER_SIZE = 4"

record ('plan, 'cfg) raptorq =
  max_packet_size :: u16
  symbol_count :: u16
  transfer_length :: u32
  plan :: 'plan
  config :: 'cfg
  nb_repair_packets :: u16
  min_nb_repair_packets :: u16

text \<open>\<open>((transfer_length / 100) * percentage) / u32::from(max_packet_size)\<close>\<close>

definition repair_count :: "bool \<Rightarrow> u32 \<Rightarrow> u32 \<Rightarrow> u16 \<Rightarrow> (protocol_error, u32) res" where
  "repair_count chk transfer percentage mps =
     and_then (div_chk transfer 100) (\<lambda>hundredth.
     and_then (mul_chk chk hundredth percentage) (\<lambda>n.
     div_chk n (ucast mps)))"

definition raptorq_new ::
  "bool \<Rightarrow> ('plan, 'cfg, 'pkt) raptorq_lib \<Rightarrow> u16 \<Rightarrow> u32 \<Rightarrow> u32 \<Rightarrow> u32 \<Rightarrow>
   (protocol_error, ('plan, 'cfg) raptorq) res"
where
  "raptorq_new chk lib mtu block_size repair_percentage min_repair_percentage =
     and_then (sub_chk chk mtu PACKET_HEADER_SIZE) (\<lambda>m1.
     and_then (sub_chk chk m1 RAPTORQ_HEADER_SIZE) (\<lambda>m2.
     and_then (rem_chk m2 RAPTORQ_ALIGNMENT) (\<lambda>over.
     and_then (sub_chk chk m2 over) (\<lambda>mps.
     and_then (div_chk block_size (ucast mps)) (\<lambda>quot.
     and_then (ok_or (other_conversion ''symbol_count'') (try_from quot)) (\<lambda>count :: u16.
     and_then (mul_chk chk (ucast mps) (ucast count)) (\<lambda>transfer.
     and_then (may_panic (rq_generate lib count)) (\<lambda>plan.
     and_then (may_panic (rq_with_defaults lib (ucast transfer) mps)) (\<lambda>config.
     and_then (repair_count chk transfer repair_percentage mps) (\<lambda>n.
     and_then (ok_or (other_conversion ''nb_repair_packets'') (try_from n)) (\<lambda>nb :: u16.
     and_then (repair_count chk transfer min_repair_percentage mps) (\<lambda>m.
     and_then (ok_or (other_conversion ''min_nb_repair_packets'') (try_from m)) (\<lambda>min_nb :: u16.
       Ok \<lparr>max_packet_size = mps,
           symbol_count = count,
           transfer_length = transfer,
           plan = plan,
           config = config,
           nb_repair_packets = (if nb < min_nb then min_nb else nb),
           min_nb_repair_packets = min_nb\<rparr>)))))))))))))"

definition block_size :: "('plan, 'cfg) raptorq \<Rightarrow> u32" where
  "block_size rq = transfer_length rq"

definition min_nb_packets :: "bool \<Rightarrow> ('plan, 'cfg) raptorq \<Rightarrow> ('e, u16) res" where
  "min_nb_packets chk rq = add_chk chk (symbol_count rq) (min_nb_repair_packets rq)"

definition nb_packets :: "('plan, 'cfg) raptorq \<Rightarrow> u32" where
  "nb_packets rq = ucast (symbol_count rq) + ucast (nb_repair_packets rq)"

definition encode :: "('plan, 'cfg, 'pkt) raptorq_lib \<Rightarrow> ('plan, 'cfg) raptorq \<Rightarrow> u8 \<Rightarrow> bytes \<Rightarrow> 'pkt list"
where
  "encode lib rq block_id data =
     (let packets = rq_source_packets lib block_id (config rq) data (plan rq)
      in if 0 < nb_repair_packets rq
         then packets @ rq_repair_packets lib block_id (config rq) data (plan rq)
                          (ucast (rq_symbol_size lib (config rq)))
                          (ucast (nb_repair_packets rq))
         else packets)"

definition decode ::
  "('plan, 'cfg, 'pkt) raptorq_lib \<Rightarrow> ('plan, 'cfg) raptorq \<Rightarrow> u8 \<Rightarrow> 'pkt list \<Rightarrow> bytes option"
where
  "decode lib rq block_id packets =
     rq_decode lib block_id (config rq) (ucast (transfer_length rq)) packets"

section \<open>Blocks\<close>

datatype block_type = Heartbeat | Start | Data | Abort | End

definition ID_HEARTBEAT :: u8 where "ID_HEARTBEAT = 0x00"
definition ID_START :: u8 where "ID_START = 0x01"
definition ID_DATA :: u8 where "ID_DATA = 0x02"
definition ID_ABORT :: u8 where "ID_ABORT = 0x03"
definition ID_END :: u8 where "ID_END = 0x04"

fun block_type_serialized :: "block_type \<Rightarrow> u8" where
  "block_type_serialized Heartbeat = ID_HEARTBEAT"
| "block_type_serialized Start = ID_START"
| "block_type_serialized Data = ID_DATA"
| "block_type_serialized Abort = ID_ABORT"
| "block_type_serialized End = ID_END"

type_synonym client_id = u32

text \<open>\<open>CLIENT_ID_COUNTER.fetch_add(1)\<close>: the old value, and the counter one further (wrapping).\<close>

definition new_client_id :: "u32 \<Rightarrow> client_id \<times> u32" where
  "new_client_id counter = (counter, counter + 1)"

datatype block = Block (serialized: bytes)

definition SERIALIZE_OVERHEAD :: nat where "SERIALIZE_OVERHEAD = 4 + 1 + 4"

text \<open>
  A \<open>Vec<u8>\<close> with its capacity, as far as \<open>Block::new\<close> looks at it: \<open>with_capacity\<close> reserves
  what was asked for, and an extension past the capacity reallocates by the amortized rule
  of the standard library (at least double, at least what is needed, at least 8).
\<close>

record vec =
  capacity :: nat
  elems :: bytes

definition with_capacity :: "nat \<Rightarrow> vec" where
  "with_capacity n = \<lparr>capacity = n, elems = []\<rparr>"

definition extend :: "bytes \<Rightarrow> vec \<Rightarrow> vec" where
  "extend ys v = (let need = length (elems v) + length ys in
     \<lparr>capacity = (if need \<le> capacity v then capacity v else max 8 (max (2 * capacity v) need)),
      elems = elems v @ ys\<rparr>)"

text \<open>\<open>u32::try_from(data.len())\<close>\<close>

definition len_u32 :: "bytes \<Rightarrow> u32 option" where
  "len_u32 xs = (if length xs < 2 ^ 32 then Some (of_nat (length xs)) else None)"

fun block_new ::
  "block_type \<Rightarrow> ('plan, 'cfg) raptorq \<Rightarrow> client_id \<Rightarrow> bytes option \<Rightarrow> (protocol_error, block) res"
where
  "block_new block rq client_id None =
     and_then (ok_or (other_conversion ''transfer_length'') (try_from (transfer_length rq))) (\<lambda>n :: usize.
     let content = replicate (unat n) 0; bytes = to_le 4 client_id in
     and_then (store content 0 (bytes ! 0)) (\<lambda>content.
     and_then (store content 1 (bytes ! 1)) (\<lambda>content.
     and_then (store content 2 (bytes ! 2)) (\<lambda>content.
     and_then (store content 3 (bytes ! 3)) (\<lambda>content.
     and_then (store content 4 (block_type_serialized block)) (\<lambda>content.
     Ok (Block content)))))))"
| "block_new block rq client_id (Some data) =
     and_then (ok_or (other_conversion ''transfer_length'') (try_from (transfer_length rq))) (\<lambda>n :: usize.
     let content = extend [block_type_serialized block]
                     (extend (to_le 4 client_id) (with_capacity (unat n))) in
     and_then (ok_or (other_conversion ''data.len()'') (len_u32 data)) (\<lambda>len.
     let content = extend data (extend (to_le 4 len) content) in
     Ok (Block (if length (elems content) < capacity content
                then elems content @ replicate (capacity content - length (elems content)) 0
                else elems content))))"

definition block_client_id :: "block \<Rightarrow> ('e, client_id) res" where
  "block_client_id b =
     and_then (index (serialized b) 0) (\<lambda>b0.
     and_then (index (serialized b) 1) (\<lambda>b1.
     and_then (index (serialized b) 2) (\<lambda>b2.
     and_then (index (serialized b) 3) (\<lambda>b3.
     Ok (from_le [b0, b1, b2, b3])))))"

text \<open>The \<open>match\<close> of \<open>block_type\<close>, constant by constant; \<open>get(4)\<close> of a short vector is \<open>None\<close>.\<close>

definition block_block_type :: "block \<Rightarrow> (protocol_error, block_type) res" where
  "block_block_type b =
     (case (if 4 < length (serialized b) then Some (serialized b ! 4) else None) of
        None \<Rightarrow> Err (InvalidBlockType None)
      | Some t \<Rightarrow>
          if t = ID_HEARTBEAT then Ok Heartbeat
          else if t = ID_START then Ok Start
          else if t = ID_DATA then Ok Data
          else if t = ID_ABORT then Ok Abort
          else if t = ID_END then Ok End
          else Err (InvalidBlockType (Some t)))"

definition block_payload_len :: "block \<Rightarrow> ('e, u32) res" where
  "block_payload_len b =
     and_then (index (serialized b) 5) (\<lambda>b0.
     and_then (index (serialized b) 6) (\<lambda>b1.
     and_then (index (serialized b) 7) (\<lambda>b2.
     and_then (index (serialized b) 8) (\<lambda>b3.
     Ok (from_le [b0, b1, b2, b3])))))"

definition block_deserialize :: "bytes \<Rightarrow> block" where
  "block_deserialize data = Block data"

definition max_data_len :: "bool \<Rightarrow> ('plan, 'cfg) raptorq \<Rightarrow> ('e, usize) res" where
  "max_data_len chk rq = sub_chk chk (ucast (transfer_length rq)) (of_nat SERIALIZE_OVERHEAD)"

definition block_payload :: "block \<Rightarrow> ('e, bytes) res" where
  "block_payload b =
     and_then (block_payload_len b) (\<lambda>len.
     slice (serialized b) SERIALIZE_OVERHEAD (SERIALIZE_OVERHEAD + unat len))"

text \<open>
  The \<open>Display\<close> instances, for the log. The texts of I/O errors are a parameter. Printing a block panics where
  \<open>client_id\<close> or \<open>payload_len\<close> does.
\<close>

fun block_type_display :: "block_type \<Rightarrow> string" where
  "block_type_display Heartbeat = ''Heartbeat''"
| "block_type_display Start = ''Start''"
| "block_type_display Data = ''Data''"
| "block_type_display Abort = ''Abort''"
| "block_type_display End = ''End''"

fun protocol_error_display :: "(io_error \<Rightarrow> string) \<Rightarrow> protocol_error \<Rightarrow> string" where
  "protocol_error_display io_text (Io e) = ''I/O error: '' @ io_text e"
| "protocol_error_display io_text (InvalidBlockType b) = ''invalid block type: '' @
     (case b of None \<Rightarrow> ''None'' | Some t \<Rightarrow> ''Some('' @ decimal (unat t) @ '')'')"
| "protocol_error_display io_text (Other e) = e"

definition block_display :: "(io_error \<Rightarrow> string) \<Rightarrow> block \<Rightarrow> ('e, string) res" where
  "block_display io_text b =
     and_then (case block_block_type b of
         Err e \<Rightarrow> Ok (''UNKNOWN '' @ protocol_error_display io_text e)
       | Ok t \<Rightarrow> Ok (block_type_display t)
       | Panic \<Rightarrow> Panic
       | Diverges \<Rightarrow> Diverges) (\<lambda>msg_type.
     and_then (block_client_id b) (\<lambda>client_id.
     and_then (block_payload_len b) (\<lambda>payload_len.
     Ok (''client '' @ lower_hex (unat client_id) @ '' block = '' @ msg_type @ '' data = ''
         @ decimal (unat payload_len) @ '' byte(s)''))))"

text \<open>The closed set of what \<open>block_type\<close> returns.\<close>

lemma block_type_outcome:
  "block_block_type b \<noteq> Panic"
  "block_block_type b \<noteq> Diverges"
  by (simp_all add: block_block_type_def)

text \<open>A block can be printed exactly when its header is complete.\<close>

lemma block_display_outcome:
  "if 9 \<le> length (serialized b) then \<exists>text. (block_display io_text b :: ('e, string) res) = Ok text
   else (block_display io_text b :: ('e, string) res) = Panic"
  using block_type_outcome [of b]
  by (cases "block_block_type b") (simp_all add: block_display_def block_client_id_def block_payload_len_def index_def)

section \<open>The parameters computed by \<open>RaptorQ::new\<close>\<close>

lemmas raptorq_consts = PACKET_HEADER_SIZE_def RAPTORQ_HEADER_SIZE_def RAPTORQ_ALIGNMENT_def

text \<open>The packet size as a number: what is left of the MTU, rounded down to the alignment.\<close>

definition packet_size :: "u16 \<Rightarrow> nat" where
  "packet_size mtu = (unat mtu - 32) div 8 * 8"

lemma aligned_packet_size:
  assumes "32 \<le> mtu"
  shows "unat (mtu - 32 - (mtu - 32) mod 8) = packet_size mtu"
    and "(mtu - 32) mod 8 \<le> mtu - (32 :: u16)"
    and "28 \<le> mtu" and "4 \<le> mtu - 28"
proof -
  have n: "32 \<le> unat mtu" using assms by (simp add: word_le_nat_alt)
  show "28 \<le> mtu" using n by (simp add: word_le_nat_alt)
  then have m1: "unat (mtu - 28) = unat mtu - 28" by (simp add: unat_sub)
  show le: "4 \<le> mtu - 28" using n m1 by (simp add: word_le_nat_alt)
  have m2: "unat (mtu - 32) = unat mtu - 32" using unat_sub [OF assms] by simp
  show over: "(mtu - 32) mod 8 \<le> mtu - (32 :: u16)"
    by (simp only: word_le_nat_alt unat_mod m2) simp
  have "unat ((mtu - 32) mod 8) = (unat mtu - 32) mod 8"
    by (simp only: unat_mod m2) simp
  then show "unat (mtu - 32 - (mtu - 32) mod 8) = packet_size mtu"
    by (simp only: unat_sub [OF over] m2) (simp only: packet_size_def minus_mod_eq_div_mult)
qed

lemma packet_size_bounds:
  assumes "40 \<le> mtu"
  shows "8 \<le> packet_size mtu" "packet_size mtu + 32 \<le> unat mtu" "packet_size mtu < 2 ^ 16"
proof -
  have n: "40 \<le> unat mtu" using assms by (simp add: word_le_nat_alt)
  then have "1 \<le> (unat mtu - 32) div 8" by (simp add: Suc_leI div_greater_zero_iff)
  then show "8 \<le> packet_size mtu" by (simp add: packet_size_def)
  have "(unat mtu - 32) div 8 * 8 \<le> unat mtu - 32" by simp
  then show le: "packet_size mtu + 32 \<le> unat mtu" using n by (simp add: packet_size_def)
  have "unat mtu < 2 ^ 16" using unsigned_less [of mtu] by simp
  then show "packet_size mtu < 2 ^ 16" using le by simp
qed

text \<open>
  The reference for \<open>RaptorQ::new\<close>, in unbounded arithmetic: what it makes of a packet size of \<open>P\<close> bytes. The only
  words in it are the arguments of the crate and the fields of the result.
\<close>

definition repair_ref :: "bool \<Rightarrow> nat \<Rightarrow> nat \<Rightarrow> nat \<Rightarrow> string \<Rightarrow> (protocol_error, nat) res" where
  "repair_ref chk T P percentage what =
     (let n = T div 100 * percentage in
      if chk \<and> 2 ^ 32 \<le> n then Panic
      else if 2 ^ 16 \<le> n mod 2 ^ 32 div P then Err (other_conversion what)
      else Ok (n mod 2 ^ 32 div P))"

definition raptorq_ref ::
  "bool \<Rightarrow> ('plan, 'cfg, 'pkt) raptorq_lib \<Rightarrow> nat \<Rightarrow> nat \<Rightarrow> nat \<Rightarrow> nat \<Rightarrow> (protocol_error, ('plan, 'cfg) raptorq) res"
where
  "raptorq_ref chk lib P block rep min_rep =
     (let Q = block div P; T = P * Q in
      if 2 ^ 16 \<le> Q then Err (other_conversion ''symbol_count'')
      else
        and_then (may_panic (rq_generate lib (of_nat Q))) (\<lambda>plan.
        and_then (may_panic (rq_with_defaults lib (of_nat T) (of_nat P))) (\<lambda>config.
        and_then (repair_ref chk T P rep ''nb_repair_packets'') (\<lambda>nb.
        and_then (repair_ref chk T P min_rep ''min_nb_repair_packets'') (\<lambda>min_nb.
        Ok \<lparr>max_packet_size = of_nat P, symbol_count = of_nat Q, transfer_length = of_nat T, plan = plan,
            config = config, nb_repair_packets = of_nat (max nb min_nb), min_nb_repair_packets = of_nat min_nb\<rparr>)))))"

lemma repair_ref_Ok: "repair_ref chk T P percentage what = Ok n \<Longrightarrow> n < 2 ^ 16 \<and> n = T div 100 * percentage mod 2 ^ 32 div P"
  by (auto simp: repair_ref_def Let_def not_le split: if_splits)

lemma repair_count_ref:
  fixes K :: "u16 \<Rightarrow> (protocol_error, 'a) res"
  assumes "mps \<noteq> 0"
  shows "and_then (repair_count chk transfer percentage mps) (\<lambda>n.
           and_then (ok_or (other_conversion what) (try_from n)) K)
     = and_then (repair_ref chk (unat transfer) (unat mps) (unat percentage) what) (\<lambda>k. K (of_nat k))"
proof -
  have mps: "unat (ucast mps :: u32) = unat mps" by (simp add: unat_ucast_le)
  then have nz: "(ucast mps :: u32) \<noteq> 0" using assms by (metis unat_eq_zero)
  have h: "unat (transfer div 100) = unat transfer div 100" by (simp add: unat_div)
  let ?w = "transfer div 100 * percentage div ucast mps"
  have w: "unat ?w = unat transfer div 100 * unat percentage mod 2 ^ 32 div unat mps"
    by (simp only: unat_div mps unat_word_ariths(2) h) simp
  have u: "(ucast ?w :: u16) = of_nat (unat ?w)" by (simp add: word_unat_eq_iff unsigned_ucast_eq unsigned_of_nat)
  show ?thesis
    using nz by (simp add: repair_count_def repair_ref_def Let_def div_chk_def mul_chk_def h try_from_def w u)
qed

text \<open>The second half of \<open>new\<close>, from a packet size on.\<close>

lemma raptorq_new_ref:
  fixes block :: u32 and mps :: u16
  assumes "mps \<noteq> 0"
  shows "and_then (div_chk block (ucast mps)) (\<lambda>quot.
     and_then (ok_or (other_conversion ''symbol_count'') (try_from quot)) (\<lambda>count :: u16.
     and_then (mul_chk chk (ucast mps) (ucast count)) (\<lambda>transfer.
     and_then (may_panic (rq_generate lib count)) (\<lambda>plan.
     and_then (may_panic (rq_with_defaults lib (ucast transfer) mps)) (\<lambda>config.
     and_then (repair_count chk transfer rep mps) (\<lambda>n.
     and_then (ok_or (other_conversion ''nb_repair_packets'') (try_from n)) (\<lambda>nb :: u16.
     and_then (repair_count chk transfer min_rep mps) (\<lambda>m.
     and_then (ok_or (other_conversion ''min_nb_repair_packets'') (try_from m)) (\<lambda>min_nb :: u16.
       Ok \<lparr>max_packet_size = mps, symbol_count = count, transfer_length = transfer, plan = plan, config = config,
           nb_repair_packets = (if nb < min_nb then min_nb else nb), min_nb_repair_packets = min_nb\<rparr>)))))))))
   = raptorq_ref chk lib (unat mps) (unat block) (unat rep) (unat min_rep)"
proof -
  define P Q where "P = unat mps" and "Q = unat block div P"
  have mps: "unat (ucast mps :: u32) = P" by (simp add: unat_ucast_le P_def)
  then have nz: "(ucast mps :: u32) \<noteq> 0" using assms by (metis P_def unat_eq_zero)
  have q: "unat (block div ucast mps) = Q" by (simp add: unat_div mps Q_def)
  show ?thesis
  proof (cases "2 ^ 16 \<le> Q")
    case True
    then have "(try_from (block div ucast mps) :: u16 option) = None" using q by (simp add: try_from_None_iff)
    then show ?thesis using nz True by (simp add: div_chk_def raptorq_ref_def Let_def flip: P_def Q_def)
  next
    case False
    let ?c = "of_nat Q :: u16" and ?t = "of_nat (P * Q) :: u32"
    have c: "(try_from (block div ucast mps) :: u16 option) = Some ?c"
    proof -
      have "(ucast (block div ucast mps) :: u16) = of_nat (unat (block div ucast mps))"
        by (simp only: word_unat_eq_iff unsigned_ucast_eq unsigned_of_nat) simp
      then show ?thesis using False by (simp add: try_from_def q)
    qed
    have uc: "unat ?c = Q" using False by (simp add: unat_of_nat)
    have "P * Q \<le> unat block" by (simp add: Q_def)
    then have fits: "P * Q < 2 ^ 32" using unat_u32_less [of block] by simp
    have "P < 2 ^ 16" using unsigned_less [of mps] by (simp add: P_def)
    then have "(ucast mps :: u32) = of_nat P" "(ucast ?c :: u32) = of_nat Q"
      using mps uc False by (simp_all add: word_unat_eq_iff unat_of_nat unat_ucast_le)
    moreover have "unat (of_nat P :: u32) = P" "unat (of_nat Q :: u32) = Q"
      using False \<open>P < 2 ^ 16\<close> by (simp_all add: unat_of_nat)
    ultimately have t: "mul_chk chk (ucast mps) (ucast ?c) = (Ok ?t :: (protocol_error, u32) res)"
      using fits by (simp add: mul_chk_exact)
    have ut: "unat ?t = P * Q" using fits by (simp add: unat_of_nat del: of_nat_mult)
    then have ct: "(ucast ?t :: u64) = of_nat (P * Q)"
      using fits by (simp add: word_unat_eq_iff unat_of_nat unat_ucast_le del: of_nat_mult)
    have max: "(if of_nat a < (of_nat b :: u16) then of_nat b else of_nat a) = (of_nat (max a b) :: u16)"
      if "a < 2 ^ 16" "b < 2 ^ 16" for a b
      using that by (auto simp: word_less_nat_alt unat_of_nat max_def)
    have p: "of_nat P = mps" by (simp add: P_def)
    have div: "div_chk block (ucast mps) = (Ok (block div ucast mps) :: (protocol_error, u32) res)"
      using nz by (simp add: div_chk_def)
    show ?thesis
      unfolding div and_then.simps c ok_or_simps t ct repair_count_ref [OF assms] ut P_def [symmetric]
        raptorq_ref_def Q_def [symmetric] Let_def p if_not_P [OF False]
      using max repair_ref_Ok
      by (cases "repair_ref chk (P * Q) P (unat rep) ''nb_repair_packets''";
          cases "repair_ref chk (P * Q) P (unat min_rep) ''min_nb_repair_packets''") simp_all
  qed
qed

text \<open>The packet size that comes out of the subtractions, when they do not panic.\<close>

lemma raptorq_new_packet_size:
  assumes "40 \<le> mtu \<or> \<not> chk \<and> mtu < 32"
  shows "raptorq_new chk lib mtu block rep min_rep
    = raptorq_ref chk lib (if 32 \<le> mtu then packet_size mtu else (unat mtu + 65504) div 8 * 8)
        (unat block) (unat rep) (unat min_rep)"
proof -
  let ?mps = "mtu - 32 - (mtu - 32) mod 8"
  have mps: "unat ?mps = (if 32 \<le> mtu then packet_size mtu else (unat mtu + 65504) div 8 * 8)"
  proof (cases "32 \<le> mtu")
    case True
    then show ?thesis using aligned_packet_size(1) [OF True] by simp
  next
    case False
    then have m: "unat (mtu - 32) = unat mtu + 65504"
      by (simp add: unat_sub_if_size word_size word_le_nat_alt)
    have over: "(mtu - 32) mod 8 \<le> mtu - 32"
      by (simp only: word_le_nat_alt unat_mod) simp
    have "unat ?mps = (unat mtu + 65504) - (unat mtu + 65504) mod 8"
      by (simp only: unat_sub [OF over] unat_mod m) simp
    with False show ?thesis by (simp add: minus_mod_eq_div_mult)
  qed
  have "0 < unat ?mps"
    unfolding mps using assms packet_size_bounds(1) [of mtu] by (auto simp: word_le_nat_alt word_less_nat_alt)
  then have nz: "?mps \<noteq> 0" by (metis less_irrefl unat_0)
  have "sub_chk chk mtu 28 = (Ok (mtu - 28) :: (protocol_error, u16) res)"
      "sub_chk chk (mtu - 28) 4 = (Ok (mtu - 28 - 4) :: (protocol_error, u16) res)"
    using assms aligned_packet_size(3,4) [of mtu] order_trans [of 32 40 mtu] by (auto simp: sub_chk_def)
  moreover have "sub_chk chk (mtu - 32) ((mtu - 32) mod 8) = (Ok ?mps :: (protocol_error, u16) res)"
    by (rule sub_chk_exact) (simp only: word_le_nat_alt unat_mod, simp)
  ultimately show ?thesis
    unfolding mps [symmetric] raptorq_new_ref [OF nz, symmetric] raptorq_new_def raptorq_consts
    by (simp add: rem_chk_def)
qed

lemma raptorq_ref_fields:
  assumes "raptorq_ref chk lib P block rep min_rep = Ok rq" and "P < 2 ^ 16" and "block < 2 ^ 32"
  shows "unat (max_packet_size rq) = P" and "unat (symbol_count rq) = block div P"
    and "unat (transfer_length rq) = P * (block div P)"
    and "rq_generate lib (symbol_count rq) = Some (plan rq)"
    and "rq_with_defaults lib (ucast (transfer_length rq)) (max_packet_size rq) = Some (config rq)"
    and "unat (min_nb_repair_packets rq) = P * (block div P) div 100 * min_rep mod 2 ^ 32 div P"
    and "unat (nb_repair_packets rq) =
      max (P * (block div P) div 100 * rep mod 2 ^ 32 div P) (unat (min_nb_repair_packets rq))"
proof -
  let ?Q = "block div P"
  from assms(1) obtain nb min_nb where Q: "?Q < 2 ^ 16"
    and gen: "rq_generate lib (of_nat ?Q) = Some (plan rq)"
      "rq_with_defaults lib (of_nat (P * ?Q)) (of_nat P) = Some (config rq)"
    and nb: "repair_ref chk (P * ?Q) P rep ''nb_repair_packets'' = Ok nb"
      "repair_ref chk (P * ?Q) P min_rep ''min_nb_repair_packets'' = Ok min_nb"
    and rq: "max_packet_size rq = of_nat P" "symbol_count rq = of_nat ?Q" "transfer_length rq = of_nat (P * ?Q)"
      "nb_repair_packets rq = of_nat (max nb min_nb)" "min_nb_repair_packets rq = of_nat min_nb"
    by (auto simp: raptorq_ref_def Let_def and_then_eq_Ok split: if_splits)
  note n = repair_ref_Ok [OF nb(1)] and m = repair_ref_Ok [OF nb(2)]
  have le: "P * ?Q \<le> block" by simp
  then have T: "P * ?Q < 2 ^ 32" using assms(3) by linarith
  show "unat (max_packet_size rq) = P" "unat (symbol_count rq) = ?Q"
    using assms(2) Q by (simp_all add: rq unat_of_nat)
  show t: "unat (transfer_length rq) = P * ?Q"
    using T unfolding rq(3) by (simp add: unat_of_nat del: of_nat_mult)
  show "rq_generate lib (symbol_count rq) = Some (plan rq)" using gen(1) rq(2) by simp
  have "(ucast (transfer_length rq) :: u64) = of_nat (P * ?Q)"
    using t T by (simp add: word_unat_eq_iff unat_of_nat unat_ucast_le del: of_nat_mult)
  then show "rq_with_defaults lib (ucast (transfer_length rq)) (max_packet_size rq) = Some (config rq)"
    using gen(2) rq(1) by simp
  show mm: "unat (min_nb_repair_packets rq) = P * ?Q div 100 * min_rep mod 2 ^ 32 div P"
    using m by (simp add: rq unat_of_nat)
  show "unat (nb_repair_packets rq) = max (P * ?Q div 100 * rep mod 2 ^ 32 div P) (unat (min_nb_repair_packets rq))"
    using n m unfolding mm by (simp add: rq unat_of_nat)
qed

lemma raptorq_new_fields:
  assumes "raptorq_new chk lib mtu block rep min_rep = Ok rq" and "40 \<le> mtu"
  shows "unat (max_packet_size rq) = packet_size mtu"
    and "unat (symbol_count rq) = unat block div packet_size mtu"
    and "unat (transfer_length rq) = packet_size mtu * (unat block div packet_size mtu)"
    and "min_nb_repair_packets rq \<le> nb_repair_packets rq"
    and "unat (min_nb_repair_packets rq) = unat (transfer_length rq) div 100 * unat min_rep mod 2 ^ 32 div packet_size mtu"
    and "unat (nb_repair_packets rq) = max (unat (transfer_length rq) div 100 * unat rep mod 2 ^ 32 div packet_size mtu)
           (unat (min_nb_repair_packets rq))"
proof -
  have "32 \<le> mtu" using assms(2) by (simp add: word_le_nat_alt)
  then have ref: "raptorq_ref chk lib (packet_size mtu) (unat block) (unat rep) (unat min_rep) = Ok rq"
    using assms by (simp add: raptorq_new_packet_size)
  have "unat block < 2 ^ 32" using unat_u32_less [of block] by simp
  note f = raptorq_ref_fields [OF ref packet_size_bounds(3) [OF assms(2)] this]
  show "unat (max_packet_size rq) = packet_size mtu" by (rule f(1))
  show "unat (symbol_count rq) = unat block div packet_size mtu" by (rule f(2))
  show "unat (transfer_length rq) = packet_size mtu * (unat block div packet_size mtu)" by (rule f(3))
  show "min_nb_repair_packets rq \<le> nb_repair_packets rq" using f(7) by (simp add: word_le_nat_alt)
  show "unat (min_nb_repair_packets rq) = unat (transfer_length rq) div 100 * unat min_rep mod 2 ^ 32 div packet_size mtu"
    using f(6) by (simp only: f(3))
  show "unat (nb_repair_packets rq) = max (unat (transfer_length rq) div 100 * unat rep mod 2 ^ 32 div packet_size mtu)
           (unat (min_nb_repair_packets rq))"
    using f(7) by (simp only: f(3))
qed

text \<open>Percentages up to 100 never overflow \<open>u32\<close>, and give at most one repair packet per symbol.\<close>

lemma repair_ref_small:
  fixes P Q percentage :: nat
  assumes "percentage \<le> 100" and "P * Q < 2 ^ 32" and "0 < P"
  shows "P * Q div 100 * percentage mod 2 ^ 32 div P \<le> Q" and "P * Q div 100 * percentage < 2 ^ 32"
proof -
  have "P * Q div 100 * percentage \<le> P * Q div 100 * 100" using assms(1) by simp
  also have "\<dots> \<le> P * Q" by simp
  finally have le: "P * Q div 100 * percentage \<le> P * Q" .
  then show "P * Q div 100 * percentage < 2 ^ 32" using assms(2) by linarith
  have "P * Q div 100 * percentage mod 2 ^ 32 \<le> P * Q" using le by (meson le_trans mod_less_eq_dividend)
  from div_le_mono [OF this, of P] show "P * Q div 100 * percentage mod 2 ^ 32 div P \<le> Q" using assms(3) by simp
qed

lemma raptorq_new_succeeds:
  assumes "40 \<le> mtu" and "unat block div packet_size mtu < 2 ^ 16"
    and "rep \<le> 100" and "min_rep \<le> 100"
    and "\<And>n. rq_generate lib n \<noteq> None" and "\<And>t n. rq_with_defaults lib t n \<noteq> None"
  shows "\<exists>rq. raptorq_new chk lib mtu block rep min_rep = Ok rq"
proof -
  let ?P = "packet_size mtu" and ?Q = "unat block div packet_size mtu"
  have "?P * ?Q \<le> unat block" by simp
  then have T: "?P * ?Q < 2 ^ 32" by (rule le_less_trans) (use unat_u32_less [of block] in simp)
  have P: "0 < ?P" using packet_size_bounds(1) [OF assms(1)] by simp
  have fits: "repair_ref chk (?P * ?Q) ?P (unat p) what = Ok (?P * ?Q div 100 * unat p mod 2 ^ 32 div ?P)"
    if "p \<le> 100" for p :: u32 and what
    using repair_ref_small [of "unat p", OF _ T P] that assms(2)
    by (simp add: repair_ref_def Let_def word_le_nat_alt)
  obtain plan where plan: "rq_generate lib (of_nat ?Q) = Some plan" using assms(5) by blast
  obtain config where config: "rq_with_defaults lib (of_nat (?P * ?Q)) (of_nat ?P) = Some config" using assms(6) by blast
  have "32 \<le> mtu" using assms(1) by (simp add: word_le_nat_alt)
  then show ?thesis
    using assms(1,2) plan config fits [OF assms(3)] fits [OF assms(4)]
    by (simp add: raptorq_new_packet_size raptorq_ref_def Let_def)
qed

lemma min_repair_le_count:
  assumes "raptorq_new chk lib mtu block rep min_rep = Ok rq" and "40 \<le> mtu" and "min_rep \<le> 100"
  shows "unat (min_nb_repair_packets rq) \<le> unat (symbol_count rq)"
proof -
  let ?P = "packet_size mtu" and ?Q = "unat block div packet_size mtu"
  have "?P * ?Q \<le> unat block" by simp
  then have "?P * ?Q < 2 ^ 32" by (rule le_less_trans) (use unat_u32_less [of block] in simp)
  moreover have "0 < ?P" using packet_size_bounds(1) [OF assms(2)] by simp
  moreover have "unat min_rep \<le> 100" using assms(3) by (simp add: word_le_nat_alt)
  ultimately show ?thesis
    using repair_ref_small(1) [of "unat min_rep" ?P ?Q] raptorq_new_fields(2,3,5) [OF assms(1,2)] by simp
qed

lemma raptorq_new_panics:
  assumes "mtu < 40" and "chk \<or> 32 \<le> mtu"
  shows "raptorq_new chk lib mtu block rep min_rep = Panic"
proof (cases "32 \<le> mtu")
  case True
  note al = aligned_packet_size [OF True]
  have "unat mtu < 40" using assms(1) by (simp add: word_less_nat_alt)
  then have "packet_size mtu = 0" by (simp add: packet_size_def)
  then have "mtu - 32 - (mtu - 32) mod 8 = 0"
    using al(1) by (metis unat_eq_zero)
  then show ?thesis
    unfolding raptorq_new_def raptorq_consts
    by (simp add: sub_chk_exact [OF al(3)] sub_chk_exact [OF al(4)] sub_chk_def
        rem_chk_def div_chk_def)
next
  case False
  then have chk: "chk" and lt: "unat mtu < 32" using assms(2) by (auto simp: word_le_nat_alt)
  show ?thesis
  proof (cases "mtu < 28")
    case True
    then show ?thesis using chk by (simp add: raptorq_new_def raptorq_consts sub_chk_def)
  next
    case False
    then have "28 \<le> mtu" by simp
    then have "unat (mtu - 28) < 4" using lt by (simp add: unat_sub)
    then have "mtu - 28 < 4" by (simp add: word_less_nat_alt)
    then show ?thesis using chk False by (simp add: raptorq_new_def raptorq_consts sub_chk_def)
  qed
qed

section \<open>The layout of a block\<close>

text \<open>What a block of \<open>n\<close> bytes looks like when it is large enough for its data.\<close>

definition block_layout :: "nat \<Rightarrow> block_type \<Rightarrow> client_id \<Rightarrow> bytes \<Rightarrow> block" where
  "block_layout n t cid data =
     Block (to_le 4 cid @ block_type_serialized t # to_le 4 (of_nat (length data) :: u32)
            @ data @ replicate (n - 9 - length data) 0)"

lemma to_le_4: "to_le 4 w = [to_le 4 w ! 0, to_le 4 w ! 1, to_le 4 w ! 2, to_le 4 w ! 3]"
  by (intro nth_equalityI) (auto simp: less_Suc_eq numeral_eq_Suc)

lemma to_le_4_zero: "to_le 4 (0 :: u32) = replicate 4 0"
  by (simp add: numeral_eq_Suc)

lemma block_new_None:
  assumes "9 \<le> unat (transfer_length rq)"
  shows "block_new t rq cid None = Ok (block_layout (unat (transfer_length rq)) t cid [])"
proof -
  let ?n = "unat (transfer_length rq)"
  have fits: "(try_from (transfer_length rq) :: usize option) = Some (ucast (transfer_length rq))"
    using unat_u32_less [of "transfer_length rq"] by (intro try_from_fits) simp
  have n: "unat (ucast (transfer_length rq) :: usize) = ?n" by (simp add: unat_ucast_le)
  obtain k where "?n = 5 + k" using assms le_Suc_ex [of 5 ?n] by auto
  then have zeros: "replicate ?n (0 :: u8) = 0 # 0 # 0 # 0 # 0 # replicate (?n - 5) 0"
    by (simp add: numeral_eq_Suc)
  have rest: "replicate (?n - 5) (0 :: u8) = replicate 4 0 @ replicate (?n - 9) 0"
    using assms by (simp flip: replicate_add)
  have pos: "0 < ?n" using assms by simp
  have "block_new t rq cid None
      = Ok (Block ([to_le 4 cid ! 0, to_le 4 cid ! 1, to_le 4 cid ! 2, to_le 4 cid ! 3]
                   @ block_type_serialized t # replicate (?n - 5) 0))"
    by (simp add: fits n zeros pos store_def Let_def numeral_eq_Suc del: to_le.simps)
  then show ?thesis
    by (simp only: to_le_4 [symmetric]) (simp add: block_layout_def to_le_4_zero rest)
qed

lemma block_new_Some:
  assumes "length data + 9 \<le> unat (transfer_length rq)"
  shows "block_new t rq cid (Some data) = Ok (block_layout (unat (transfer_length rq)) t cid data)"
proof -
  let ?n = "unat (transfer_length rq)"
  have "(try_from (transfer_length rq) :: usize option) = Some (ucast (transfer_length rq))"
    using unat_u32_less [of "transfer_length rq"] by (intro try_from_fits) simp
  moreover have "unat (ucast (transfer_length rq) :: usize) = ?n" by (simp add: unat_ucast_le)
  moreover have "len_u32 data = Some (of_nat (length data))"
    using assms unat_u32_less [of "transfer_length rq"] by (simp add: len_u32_def)
  ultimately show ?thesis
    using assms by (auto simp: block_layout_def Let_def extend_def with_capacity_def)
qed

declare block_new.simps [simp del]

lemma block_client_id_layout [simp]: "block_client_id (block_layout n t cid data) = Ok cid"
proof -
  let ?b = "serialized (block_layout n t cid data)"
  have "?b ! i = to_le 4 cid ! i" "i < length ?b" if "i < 4" for i
    using that by (auto simp: block_layout_def nth_append)
  from this [of 0] this [of 1] this [of 2] this [of 3]
  have "block_client_id (block_layout n t cid data)
      = Ok (from_le [to_le 4 cid ! 0, to_le 4 cid ! 1, to_le 4 cid ! 2, to_le 4 cid ! 3])"
    by (simp add: block_client_id_def index_def del: from_le.simps)
  also have "\<dots> = Ok cid" by (simp only: to_le_4 [symmetric] from_le_to_le_u32)
  finally show ?thesis .
qed

lemma block_block_type_layout [simp]: "block_block_type (block_layout n t cid data) = Ok t"
  by (cases t) (auto simp: block_block_type_def block_layout_def nth_append ID_HEARTBEAT_def
      ID_START_def ID_DATA_def ID_ABORT_def ID_END_def)

lemma block_payload_len_layout:
  "block_payload_len (block_layout n t cid data) = Ok (of_nat (length data))"
proof -
  let ?b = "serialized (block_layout n t cid data)" and ?l = "of_nat (length data) :: u32"
  have "?b ! (5 + i) = to_le 4 ?l ! i" "5 + i < length ?b" if "i < 4" for i
    using that by (auto simp: block_layout_def nth_append)
  from this [of 0] this [of 1] this [of 2] this [of 3]
  have "block_payload_len (block_layout n t cid data)
      = Ok (from_le [to_le 4 ?l ! 0, to_le 4 ?l ! 1, to_le 4 ?l ! 2, to_le 4 ?l ! 3])"
    by (simp add: block_payload_len_def index_def del: from_le.simps)
  also have "\<dots> = Ok ?l" by (simp only: to_le_4 [symmetric] from_le_to_le_u32)
  finally show ?thesis .
qed

lemma block_payload_layout [simp]:
  assumes "length data < 2 ^ 32"
  shows "block_payload (block_layout n t cid data) = Ok data"
proof -
  have "unat (of_nat (length data) :: u32) = length data"
    using assms by (simp add: unat_of_nat)
  then show ?thesis
    by (simp add: block_payload_def block_payload_len_layout slice_def SERIALIZE_OVERHEAD_def)
      (simp add: block_layout_def)
qed

lemma block_display_layout:
  "length data < 2 ^ 32 \<Longrightarrow> block_display io_text (block_layout n t cid data) =
    Ok (''client '' @ lower_hex (unat cid) @ '' block = '' @ block_type_display t @ '' data = ''
        @ decimal (length data) @ '' byte(s)'')"
  by (simp add: block_display_def block_payload_len_layout unat_of_nat)

lemma max_data_len_exact:
  assumes "9 \<le> unat (transfer_length rq)"
  shows "\<exists>n. max_data_len chk rq = Ok n \<and> unat n = unat (transfer_length rq) - 9"
proof -
  have u: "unat (ucast (transfer_length rq) :: usize) = unat (transfer_length rq)"
    by (simp add: unat_ucast_le)
  have le: "(9 :: usize) \<le> ucast (transfer_length rq)"
    using assms by (simp add: word_le_nat_alt u)
  then have "max_data_len chk rq = Ok (ucast (transfer_length rq) - 9)"
    by (simp add: max_data_len_def SERIALIZE_OVERHEAD_def sub_chk_exact)
  moreover have "unat (ucast (transfer_length rq) - 9 :: usize) = unat (transfer_length rq) - 9"
    using unat_sub [OF le] u by simp
  ultimately show ?thesis by blast
qed

lemma length_block_layout:
  "length data + 9 \<le> n \<Longrightarrow> length (serialized (block_layout n t cid data)) = n"
  by (simp add: block_layout_def)

section \<open>A concrete code for the witnesses\<close>

text \<open>
  A code that meets what the program relies on, to instantiate the parameter \<open>raptorq_lib\<close> in
  the witnesses: every packet carries its block number, its symbol number and the whole block.
  \<open>default_rq\<close> are the parameters of the default command line (MTU 1500, block 734928, repair 2,
  minimal repair 1), \<open>small_rq\<close> those of a link with blocks of two packets of 16 bytes.
\<close>

type_synonym sample_packet = "u8 \<times> u32 \<times> bytes"

definition sample_lib :: "(unit, u64 \<times> u16, sample_packet) raptorq_lib" where
  "sample_lib = \<lparr>
     rq_generate = (\<lambda>_. Some ()),
     rq_with_defaults = (\<lambda>len size. Some (len, size)),
     rq_symbol_size = snd,
     rq_source_packets = (\<lambda>id cfg data _.
       map (\<lambda>i. (id, of_nat i, data)) [0..<unat (fst cfg) div unat (snd cfg)]),
     rq_repair_packets = (\<lambda>id cfg data _ start n.
       map (\<lambda>i. (id, of_nat (unat (fst cfg) div unat (snd cfg)) + start + of_nat i, data)) [0..<unat n]),
     rq_decode = (\<lambda>_ _ _ packets. case packets of [] \<Rightarrow> None | (_, _, data) # _ \<Rightarrow> Some data),
     rq_serialize = (\<lambda>(id, i, data). id # to_le 4 i @ data),
     rq_deserialize = (\<lambda>bs. if length bs < 5 then None
       else Some (hd bs, from_le (take 4 (tl bs)), drop 5 bs)),
     rq_block_number = fst\<rparr>"

definition default_rq :: "(unit, u64 \<times> u16) raptorq" where
  "default_rq = \<lparr>max_packet_size = 1464, symbol_count = 502, transfer_length = 734928,
     plan = (), config = (734928, 1464), nb_repair_packets = 10, min_nb_repair_packets = 5\<rparr>"

definition small_rq :: "(unit, u64 \<times> u16) raptorq" where
  "small_rq = \<lparr>max_packet_size = 16, symbol_count = 2, transfer_length = 32,
     plan = (), config = (32, 16), nb_repair_packets = 0, min_nb_repair_packets = 0\<rparr>"

lemma default_rq: "raptorq_new chk sample_lib 1500 734928 2 1 = Ok default_rq"
  by (simp add: raptorq_new_def raptorq_consts sub_chk_def rem_chk_def div_chk_def mul_chk_def
      try_from_def repair_count_def default_rq_def sample_lib_def)

lemma small_rq: "raptorq_new chk sample_lib 48 32 2 0 = Ok small_rq"
  by (simp add: raptorq_new_def raptorq_consts sub_chk_def rem_chk_def div_chk_def mul_chk_def
      try_from_def repair_count_def small_rq_def sample_lib_def)

section \<open>Properties\<close>

text \<open>Property C14. When \<open>RaptorQ::new\<close> accepts an MTU of at least 40, a packet is the largest multiple of
  the RaptorQ alignment that fits the MTU with its headers, the block is a whole number of packets, it is the largest such
  block not above the requested size, the minimal number of repair packets is the given percentage of the block in
  packets (computed in 32 bits, hundredths first), and the number of repair packets that are sent is the percentage given
  for them, or the minimum when that is larger.\<close>

theorem raptorq_new_geometry:
  assumes "raptorq_new chk lib mtu block rep min_rep = Ok rq" and "40 \<le> mtu"
  shows "8 dvd unat (max_packet_size rq) \<and> 0 < unat (max_packet_size rq)
    \<and> unat (max_packet_size rq) + 32 \<le> unat mtu \<and> unat mtu < unat (max_packet_size rq) + 40
    \<and> unat (transfer_length rq) = unat (max_packet_size rq) * unat (symbol_count rq)
    \<and> unat (transfer_length rq) \<le> unat block
    \<and> unat block < unat (transfer_length rq) + unat (max_packet_size rq)
    \<and> unat (min_nb_repair_packets rq)
        = unat (transfer_length rq) div 100 * unat min_rep mod 2 ^ 32 div unat (max_packet_size rq)
    \<and> unat (nb_repair_packets rq)
        = max (unat (transfer_length rq) div 100 * unat rep mod 2 ^ 32 div unat (max_packet_size rq))
            (unat (min_nb_repair_packets rq))"
proof -
  note f = raptorq_new_fields [OF assms]
  note b = packet_size_bounds [OF assms(2)]
  have "8 dvd packet_size mtu" by (simp add: packet_size_def)
  moreover have "unat mtu < packet_size mtu + 40" unfolding packet_size_def by linarith
  moreover have "unat block < packet_size mtu * (unat block div packet_size mtu) + packet_size mtu"
    using b(1) mod_less_divisor [of "packet_size mtu" "unat block"]
      mult_div_mod_eq [of "packet_size mtu" "unat block"] by linarith
  moreover have "packet_size mtu * (unat block div packet_size mtu) \<le> unat block" by simp
  ultimately show ?thesis
    unfolding f(6) unfolding f(5) f(1,2,3) using b(1,2) by simp
qed

theorem raptorq_new_geometry_witness:
  "8 dvd unat (max_packet_size default_rq) \<and> unat (transfer_length default_rq) \<le> 734928
   \<and> unat (min_nb_repair_packets default_rq) = 734928 div 100 * 1 div 1464
   \<and> unat (nb_repair_packets default_rq) = 734928 div 100 * 2 div 1464"
  using raptorq_new_geometry [OF default_rq [of True]] by (simp add: default_rq_def)

text \<open>Property C15. For an MTU of at least 40 and any other parameters, \<open>RaptorQ::new\<close> does exactly what the reference
  does in unbounded arithmetic. It reports an error when the packets of a block do not fit 16 bits; it panics when the crate
  does for the number or the size of the packets; without the panics of overflow checks the 32-bit products wrap around;
  and it reports an error when a number of repair packets does not fit 16 bits. Otherwise it gives the record of the
  reference. Nothing else happens.\<close>

theorem raptorq_new_outcome:
  assumes "40 \<le> mtu"
  shows "raptorq_new chk lib mtu block rep min_rep
    = raptorq_ref chk lib ((unat mtu - 32) div 8 * 8) (unat block) (unat rep) (unat min_rep)"
proof -
  have "32 \<le> mtu" using assms by (simp add: word_le_nat_alt)
  then show ?thesis using assms by (simp add: raptorq_new_packet_size packet_size_def)
qed

theorem raptorq_new_outcome_witness:
  "raptorq_new False sample_lib 1500 734928 2 585000
      = Ok (default_rq\<lparr>nb_repair_packets := 2867, min_nb_repair_packets := 2867\<rparr>)
   \<and> raptorq_new True sample_lib 1500 734928 2 585000 = Panic"
  using raptorq_new_outcome [of 1500 False sample_lib 734928 2 585000]
    raptorq_new_outcome [of 1500 True sample_lib 734928 2 585000]
  by (simp add: raptorq_ref_def repair_ref_def default_rq_def sample_lib_def)

text \<open>Property C16. \<open>RaptorQ::new\<close> does not check that the MTU is large enough. With overflow checks every MTU below 40 panics,
  on a subtraction or on the division by a packet size of 0; without them those from 32 on still panic, and a smaller one
  wraps around: the parameters are then computed for packets of more than 65,000 bytes, which may be accepted or
  fail with an error about the number of packets, but never with one about the MTU.\<close>

theorem raptorq_new_small_mtu:
  assumes "mtu < 40"
  shows "raptorq_new chk lib mtu block rep min_rep
    = (if chk \<or> 32 \<le> mtu then Panic
       else raptorq_ref False lib ((unat mtu + 65504) div 8 * 8) (unat block) (unat rep) (unat min_rep))"
  using raptorq_new_panics [OF assms, of chk lib block rep min_rep]
    raptorq_new_packet_size [of mtu chk lib block rep min_rep]
  by (auto simp: not_le)

theorem raptorq_new_small_mtu_witness:
  "raptorq_new True sample_lib 36 734928 2 1 = Panic
   \<and> (\<exists>rq. raptorq_new False sample_lib 0 734928 2 1 = Ok rq \<and> unat (max_packet_size rq) = 65504)
   \<and> raptorq_new False sample_lib 0 4293000000 2 1 = Err (other_conversion ''symbol_count'')"
  using raptorq_new_small_mtu [of 36 True sample_lib 734928 2 1] raptorq_new_small_mtu [of 0 False sample_lib 734928 2 1]
    raptorq_new_small_mtu [of 0 False sample_lib 4293000000 2 1]
  by (simp add: raptorq_ref_def repair_ref_def sample_lib_def)

text \<open>With fewer than 32768 packets per block and percentages up to 100, the number
  of packets the receiver waits for is exactly the source packets plus the minimal repair
  packets, in both builds, and the sender produces at least that many.\<close>

theorem min_nb_packets_bounds:
  assumes "raptorq_new chk lib mtu block rep min_rep = Ok rq"
    and "40 \<le> mtu" and "min_rep \<le> 100" and "symbol_count rq < 32768"
  shows "\<exists>m. (min_nb_packets chk rq :: (protocol_error, u16) res) = Ok m
           \<and> unat m = unat (symbol_count rq) + unat (min_nb_repair_packets rq)
           \<and> unat (symbol_count rq) \<le> unat m \<and> unat m \<le> unat (nb_packets rq)"
proof -
  let ?c = "symbol_count rq" and ?m = "min_nb_repair_packets rq" and ?n = "nb_repair_packets rq"
  have c: "unat ?c < 32768" using assms(4) by (simp add: word_less_nat_alt)
  have m: "unat ?m \<le> unat ?c" by (rule min_repair_le_count [OF assms(1-3)])
  have mn: "unat ?m \<le> unat ?n"
    using raptorq_new_fields(4) [OF assms(1,2)] by (simp add: word_le_nat_alt)
  have add: "unat (?c + ?m) = unat ?c + unat ?m"
    using c m by (simp add: unat_word_ariths)
  have n: "unat (nb_packets rq) = unat ?c + unat ?n"
    using unat_u16_less [of ?c] unat_u16_less [of ?n]
    by (simp add: nb_packets_def unat_word_ariths unat_ucast_le)
  have "(min_nb_packets chk rq :: (protocol_error, u16) res) = Ok (?c + ?m)"
    using c m by (simp add: min_nb_packets_def add_chk_exact)
  then show ?thesis using add n mn by auto
qed

theorem min_nb_packets_bounds_witness:
  "\<exists>m. (min_nb_packets True default_rq :: (protocol_error, u16) res) = Ok m \<and> unat m = 507"
  using min_nb_packets_bounds [OF default_rq [of True]] by (auto simp: default_rq_def)

text \<open>Beyond that bound the \<open>u16\<close> addition of \<open>min_nb_packets\<close> overflows: with an
  accepted configuration of 65535 packets per block and 1 percent of minimal repair data, the release build
  waits for 654 packets only, while a debug build panics.\<close>

theorem min_nb_packets_overflow:
  "\<exists>rq. raptorq_new False sample_lib 1500 95943240 2 1 = Ok rq
      \<and> symbol_count rq = 65535 \<and> nb_packets rq = 66845
      \<and> (min_nb_packets False rq :: (protocol_error, u16) res) = Ok 654
      \<and> (min_nb_packets True rq :: (protocol_error, u16) res) = Panic"
  by (simp add: raptorq_new_def raptorq_consts sub_chk_def rem_chk_def div_chk_def mul_chk_def
      try_from_def repair_count_def min_nb_packets_def nb_packets_def add_chk_def sample_lib_def)

text \<open>Property C11. A block built around data that fits is exactly one RaptorQ block long, and
  reading it back gives the client, the type and the data it was built with.\<close>

theorem block_roundtrip:
  assumes "length data + SERIALIZE_OVERHEAD \<le> unat (transfer_length rq)"
  shows "\<exists>b. block_new t rq cid (Some data) = Ok b
           \<and> length (serialized b) = unat (transfer_length rq)
           \<and> (block_client_id b :: (protocol_error, client_id) res) = Ok cid
           \<and> block_block_type b = Ok t
           \<and> (block_payload b :: (protocol_error, bytes) res) = Ok data"
proof -
  have le: "length data + 9 \<le> unat (transfer_length rq)"
    using assms by (simp add: SERIALIZE_OVERHEAD_def)
  then have "length data < 2 ^ 32" using unat_u32_less [of "transfer_length rq"] by simp
  then show ?thesis
    using block_new_Some [OF le] by (simp add: length_block_layout [OF le])
qed

theorem block_roundtrip_witness:
  "\<exists>b. block_new Data small_rq 7 (Some [1, 2, 3]) = Ok b
     \<and> (block_payload b :: (protocol_error, bytes) res) = Ok [1, 2, 3]"
  using block_roundtrip [of "[1, 2, 3]" small_rq Data 7]
  by (auto simp: small_rq_def SERIALIZE_OVERHEAD_def)

text \<open>A block built without data is one RaptorQ block long too and reads back with
  its client, its type and an empty payload.\<close>

theorem block_roundtrip_no_data:
  assumes "SERIALIZE_OVERHEAD \<le> unat (transfer_length rq)"
  shows "\<exists>b. block_new t rq cid None = Ok b
           \<and> length (serialized b) = unat (transfer_length rq)
           \<and> (block_client_id b :: (protocol_error, client_id) res) = Ok cid
           \<and> block_block_type b = Ok t
           \<and> (block_payload b :: (protocol_error, bytes) res) = Ok []"
proof -
  have le: "length [] + 9 \<le> unat (transfer_length rq)"
    using assms by (simp add: SERIALIZE_OVERHEAD_def)
  then show ?thesis
    using block_new_None [of rq t cid] by (simp add: length_block_layout [OF le])
qed

theorem block_roundtrip_no_data_witness:
  "\<exists>b. block_new Start small_rq 7 None = Ok b \<and> length (serialized b) = 32"
  using block_roundtrip_no_data [of small_rq Start 7]
  by (auto simp: small_rq_def SERIALIZE_OVERHEAD_def)

lemma take_4:
  "4 \<le> length xs \<Longrightarrow> take 4 xs = [xs ! 0, xs ! 1, xs ! 2, xs ! 3]"
  "9 \<le> length xs \<Longrightarrow> take 4 (drop 5 xs) = [xs ! 5, xs ! 6, xs ! 7, xs ! 8]"
  by (intro nth_equalityI; auto simp: less_Suc_eq numeral_eq_Suc)+

text \<open>Property C17. What the four accessors of a block do on an arbitrary byte vector, as decoded from the network. The
  client id is the little-endian number of the first 4 bytes; the type is the code at offset 4, if it is one of the five, and
  otherwise the error that carries it, or nothing when it is missing; the length of the payload is the number at offset
  5; the payload is that many bytes from offset 9 on. The numbers panic exactly when a byte of them is missing, the
  payload when the header is incomplete or the declared length runs past the vector, and the type never.\<close>

theorem block_accessors_untrusted:
  "(block_client_id b :: (protocol_error, client_id) res) =
       (if 4 \<le> length (serialized b) then Ok (from_le (take 4 (serialized b))) else Panic)
   \<and> block_block_type b =
       (if 4 < length (serialized b) then
          (case find (\<lambda>t. block_type_serialized t = serialized b ! 4) [Heartbeat, Start, Data, Abort, End] of
             Some t \<Rightarrow> Ok t
           | None \<Rightarrow> Err (InvalidBlockType (Some (serialized b ! 4))))
        else Err (InvalidBlockType None))
   \<and> (block_payload_len b :: (protocol_error, u32) res) =
       (if 9 \<le> length (serialized b) then Ok (from_le (take 4 (drop 5 (serialized b)))) else Panic)
   \<and> (block_payload b :: (protocol_error, bytes) res) =
       (let s = serialized b; n = unat (from_le (take 4 (drop 5 s)) :: u32)
        in if 9 \<le> length s \<and> 9 + n \<le> length s then Ok (take n (drop 9 s)) else Panic)"
proof (intro conjI)
  show "(block_client_id b :: (protocol_error, client_id) res) =
       (if 4 \<le> length (serialized b) then Ok (from_le (take 4 (serialized b))) else Panic)"
    by (auto simp: block_client_id_def index_def take_4 simp del: from_le.simps)
  show "block_block_type b =
       (if 4 < length (serialized b) then
          (case find (\<lambda>t. block_type_serialized t = serialized b ! 4) [Heartbeat, Start, Data, Abort, End] of
             Some t \<Rightarrow> Ok t
           | None \<Rightarrow> Err (InvalidBlockType (Some (serialized b ! 4))))
        else Err (InvalidBlockType None))"
    by (auto simp: block_block_type_def ID_HEARTBEAT_def ID_START_def ID_DATA_def ID_ABORT_def ID_END_def)
  show len: "(block_payload_len b :: (protocol_error, u32) res) =
       (if 9 \<le> length (serialized b) then Ok (from_le (take 4 (drop 5 (serialized b)))) else Panic)"
    by (auto simp: block_payload_len_def index_def take_4 simp del: from_le.simps)
  show "(block_payload b :: (protocol_error, bytes) res) =
       (let s = serialized b; n = unat (from_le (take 4 (drop 5 s)) :: u32)
        in if 9 \<le> length s \<and> 9 + n \<le> length s then Ok (take n (drop 9 s)) else Panic)"
    unfolding block_payload_def len by (simp add: slice_def SERIALIZE_OVERHEAD_def Let_def del: from_le.simps)
qed

end
