(* ===== verification/Udp.thy ===== *)
theory Udp
  imports Protocol
begin

text \<open>
  \<open>src/udp.rs\<close> and \<open>src/sock_utils.rs\<close>: datagrams through \<open>recvmsg\<close>, \<open>recvmmsg\<close>, \<open>sendmsg\<close> and \<open>sendmmsg\<close>.

  The kernel is a parameter. For a receive call it is what the call left behind: its return
  value, the buffers and the message lengths. For a send call it is the return value of
  the call, \<open>ans i\<close> for the \<open>i\<close>-th call of one \<open>send\<close>; the output of the call is the
  datagrams that left the machine (for \<open>sendmmsg\<close> as many as it says, from the front).
  The locale \<open>packet_sink\<close> is the contract of both ways to send, on which the
  UDP worker of the sender rests.
\<close>

datatype datagrams = Single bytes | Multiple "bytes list"

fun datagram_list :: "datagrams \<Rightarrow> bytes list" where
  "datagram_list (Single d) = [d]"
| "datagram_list (Multiple ds) = ds"

section \<open>Receiving\<close>

record receive_msg =
  rm_packet_size :: u16
  rm_buffer :: bytes

record receive_mmsg =
  rmm_batch_size :: u32
  rmm_buffers :: "bytes list"

datatype udp_receive = ReceiveMsg receive_msg | ReceiveMmsg receive_mmsg

definition receive_msg_new :: "u16 \<Rightarrow> receive_msg" where
  "receive_msg_new width = \<lparr>rm_packet_size = width, rm_buffer = replicate (unat width) 0\<rparr>"

definition receive_mmsg_new :: "u16 \<Rightarrow> u32 \<Rightarrow> receive_mmsg" where
  "receive_mmsg_new width batch =
     \<lparr>rmm_batch_size = batch, rmm_buffers = replicate (unat batch) (replicate (unat width) 0)\<rparr>"

definition udp_receive_new :: "u16 \<Rightarrow> u32 option \<Rightarrow> udp_receive" where
  "udp_receive_new width batch =
     (case batch of
        None \<Rightarrow> ReceiveMsg (receive_msg_new width)
      | Some n \<Rightarrow> if n = 1 then ReceiveMsg (receive_msg_new width)
                  else ReceiveMmsg (receive_mmsg_new width n))"

text \<open>What the kernel leaves behind: return value, buffers, and for \<open>recvmmsg\<close> the lengths.\<close>

record recv_answer =
  ra_ret :: int
  ra_buffers :: "bytes list"
  ra_lens :: "u32 list"

definition recv_msg :: "recv_answer \<Rightarrow> (io_error, datagrams) res" where
  "recv_msg ans =
     (if ra_ret ans < 0 then Err Io_failed
      else and_then (index (ra_buffers ans) 0) (\<lambda>buffer.
           and_then (slice buffer 0 (nat (ra_ret ans))) (\<lambda>d. Ok (Single d))))"

text \<open>The fold of \<open>recvmmsg\<close>'s buffers: buffer \<open>i\<close> up to its length.\<close>

fun collect_msgs :: "recv_answer \<Rightarrow> nat \<Rightarrow> nat \<Rightarrow> (io_error, bytes list) res" where
  "collect_msgs ans i 0 = Ok []"
| "collect_msgs ans i (Suc n) =
     and_then (index (ra_lens ans) i) (\<lambda>len.
     and_then (index (ra_buffers ans) i) (\<lambda>buffer.
     and_then (slice buffer 0 (unat len)) (\<lambda>d.
     and_then (collect_msgs ans (Suc i) n) (\<lambda>ds. Ok (d # ds)))))"

definition recv_mmsg :: "recv_answer \<Rightarrow> (io_error, datagrams) res" where
  "recv_mmsg ans =
     (if ra_ret ans = -1 then Err Io_failed
      else if ra_ret ans < 0 then Err Io_failed
      else and_then (slice (ra_buffers ans) 0 (nat (ra_ret ans))) (\<lambda>_.
           and_then (collect_msgs ans 0 (nat (ra_ret ans))) (\<lambda>ds. Ok (Multiple ds))))"

fun udp_recv :: "udp_receive \<Rightarrow> recv_answer \<Rightarrow> (io_error, datagrams) res" where
  "udp_recv (ReceiveMsg _) ans = recv_msg ans"
| "udp_recv (ReceiveMmsg _) ans = recv_mmsg ans"

text \<open>
  The documented behaviour of the two calls when the datagrams \<open>ds\<close> wait (at least one): they are
  copied to the front of the buffers in order, each one cut to the size of its buffer.
\<close>

definition cut_to :: "bytes \<Rightarrow> bytes \<Rightarrow> bytes" where
  "cut_to d buffer = take (length buffer) d @ drop (length d) buffer"

definition kernel_recv :: "bytes list \<Rightarrow> bytes list \<Rightarrow> recv_answer" where
  "kernel_recv buffers ds =
     (let n = min (length buffers) (length ds) in
      \<lparr>ra_ret = int n,
       ra_buffers = map2 cut_to (take n ds) (take n buffers) @ drop n buffers,
       ra_lens = map2 (\<lambda>d b. of_nat (min (length d) (length b))) (take n ds) (take n buffers)
                 @ replicate (length buffers - n) 0\<rparr>)"

fun udp_kernel :: "udp_receive \<Rightarrow> bytes list \<Rightarrow> recv_answer" where
  "udp_kernel (ReceiveMsg r) ds =
     \<lparr>ra_ret = int (min (length (hd ds)) (length (rm_buffer r))),
      ra_buffers = [cut_to (hd ds) (rm_buffer r)], ra_lens = []\<rparr>"
| "udp_kernel (ReceiveMmsg r) ds = kernel_recv (rmm_buffers r) ds"

definition receive_batch :: "u32 option \<Rightarrow> nat" where
  "receive_batch batch = (case batch of None \<Rightarrow> 1 | Some n \<Rightarrow> unat n)"

lemma take_cut_to: "n = min (length d) (length b) \<Longrightarrow> take n (cut_to d b) = take (length b) d"
  by (cases "length b \<le> length d") (auto simp: cut_to_def min_def)

lemma collect_msgs_exact:
  assumes "length (ra_lens ans) \<ge> i + n" and "length (ra_buffers ans) \<ge> i + n"
    and "\<forall>k. i \<le> k \<and> k < i + n \<longrightarrow> unat (ra_lens ans ! k) \<le> length (ra_buffers ans ! k)"
  shows "collect_msgs ans i n =
    Ok (map (\<lambda>k. take (unat (ra_lens ans ! k)) (ra_buffers ans ! k)) [i..<i + n])"
  using assms
proof (induction n arbitrary: i)
  case 0
  then show ?case by simp
next
  case (Suc n)
  have "collect_msgs ans (Suc i) n =
      Ok (map (\<lambda>k. take (unat (ra_lens ans ! k)) (ra_buffers ans ! k)) [Suc i..<Suc i + n])"
    using Suc.prems by (intro Suc.IH) auto
  moreover have "[i..<i + Suc n] = i # [Suc i..<Suc i + n]" by (simp add: upt_rec)
  ultimately show ?case
    using Suc.prems by (simp add: res_simps del: upt_Suc)
qed

lemma recv_mmsg_kernel:
  assumes "\<forall>b \<in> set buffers. length b = width" and "width < 2 ^ 32"
  shows "recv_mmsg (kernel_recv buffers ds) =
    Ok (Multiple (map (take width) (take (length buffers) ds)))"
proof -
  define n where "n = min (length buffers) (length ds)"
  define ans where "ans = kernel_recv buffers ds"
  have b: "length (buffers ! k) = width" if "k < n" for k
    using assms(1) that by (simp add: n_def)
  have ret: "ra_ret ans = int n" by (simp add: ans_def kernel_recv_def n_def Let_def)
  have lens: "length (ra_buffers ans) = length buffers" "length (ra_lens ans) = length buffers"
    by (auto simp: ans_def kernel_recv_def Let_def min_def)
  have nth: "ra_buffers ans ! k = cut_to (ds ! k) (buffers ! k)"
      "unat (ra_lens ans ! k) = min (length (ds ! k)) width" if "k < n" for k
  proof -
    have k: "k < min (length buffers) (length ds)" using that by (simp add: n_def)
    then show "ra_buffers ans ! k = cut_to (ds ! k) (buffers ! k)"
      by (simp add: ans_def kernel_recv_def Let_def nth_append)
    have "min (length (ds ! k)) width < 2 ^ 32" using assms(2) by simp
    then have "unat (of_nat (min (length (ds ! k)) width) :: u32) = min (length (ds ! k)) width"
      by (simp add: unat_of_nat del: of_nat_min)
    then show "unat (ra_lens ans ! k) = min (length (ds ! k)) width"
      using k b [OF that] by (simp add: ans_def kernel_recv_def Let_def nth_append del: of_nat_min)
  qed
  have len_cut: "length (cut_to (ds ! k) (buffers ! k)) = width" if "k < n" for k
    using b [OF that] by (simp add: cut_to_def)
  have "collect_msgs ans 0 n =
      Ok (map (\<lambda>k. take (unat (ra_lens ans ! k)) (ra_buffers ans ! k)) [0..<0 + n])"
    using lens nth len_cut by (intro collect_msgs_exact) (auto simp: n_def)
  also have "map (\<lambda>k. take (unat (ra_lens ans ! k)) (ra_buffers ans ! k)) [0..<0 + n]
      = map (\<lambda>k. take width (ds ! k)) [0..<n]"
  proof (rule map_cong)
    fix k assume "k \<in> set [0..<n]"
    then have k: "k < n" by simp
    show "take (unat (ra_lens ans ! k)) (ra_buffers ans ! k) = take width (ds ! k)"
      using take_cut_to [of "min (length (ds ! k)) width" "ds ! k" "buffers ! k"] nth [OF k] b [OF k]
      by simp
  qed simp
  also have "\<dots> = map (take width) (take (length buffers) ds)"
    by (intro nth_equalityI) (auto simp: n_def)
  finally show ?thesis
    using ret lens unfolding ans_def [symmetric] recv_mmsg_def by (simp add: n_def res_simps)
qed

lemma recv_msg_kernel:
  "recv_msg \<lparr>ra_ret = int (min (length d) (length b)), ra_buffers = [cut_to d b], ra_lens = []\<rparr>
    = Ok (Single (take (length b) d))"
proof -
  have "min (length d) (length b) \<le> length (cut_to d b)" by (simp add: cut_to_def)
  then show ?thesis
    by (simp add: recv_msg_def slice_def index_def take_cut_to del: of_nat_min)
qed

section \<open>Addresses and socket buffers\<close>

datatype socket_addr =
    V4 "u8 \<times> u8 \<times> u8 \<times> u8" u16
  | V6 bytes u16 u32 u32  \<comment> \<open>octets, port, flow information, scope\<close>

text \<open>
  The C structures that \<open>Send::new\<close> fills, and their image in the memory of a
  little-endian machine (the source itself reads \<open>s_addr\<close> as little-endian).
\<close>

record sockaddr_in =
  sin_family :: u16
  sin_port :: u16
  s_addr :: u32
  sin_zero :: bytes

record sockaddr_in6 =
  sin6_family :: u16
  sin6_port :: u16
  sin6_flowinfo :: u32
  s6_addr :: bytes
  sin6_scope_id :: u32

definition AF_INET :: u16 where "AF_INET = 2"
definition AF_INET6 :: u16 where "AF_INET6 = 10"

definition to_be :: "u16 \<Rightarrow> u16" where
  "to_be w = from_le (rev (to_le 2 w))"

definition sockaddr_in_bytes :: "sockaddr_in \<Rightarrow> bytes" where
  "sockaddr_in_bytes a = to_le 2 (sin_family a) @ to_le 2 (sin_port a) @ to_le 4 (s_addr a) @ sin_zero a"

definition sockaddr_in6_bytes :: "sockaddr_in6 \<Rightarrow> bytes" where
  "sockaddr_in6_bytes a = to_le 2 (sin6_family a) @ to_le 2 (sin6_port a)
     @ to_le 4 (sin6_flowinfo a) @ s6_addr a @ to_le 4 (sin6_scope_id a)"

fun sockaddr :: "socket_addr \<Rightarrow> bytes" where
  "sockaddr (V4 (a, b, c, d) port) =
     sockaddr_in_bytes \<lparr>sin_family = AF_INET, sin_port = to_be port,
       s_addr = from_le [a, b, c, d], sin_zero = replicate 8 0\<rparr>"
| "sockaddr (V6 octets port flowinfo scope) =
     sockaddr_in6_bytes \<lparr>sin6_family = AF_INET6, sin6_port = to_be port,
       sin6_flowinfo = flowinfo, s6_addr = octets, sin6_scope_id = scope\<rparr>"

lemma to_le_to_be: "to_le 2 (to_be w) = rev (to_le 2 w)"
  unfolding to_be_def by (rule to_le_from_le) simp_all

lemma af_bytes: "to_le 2 AF_INET = [2, 0]" "to_le 2 AF_INET6 = [10, 0]"
  unfolding AF_INET_def AF_INET6_def numeral_2_eq_2 by simp_all

lemma sockaddr_v4_image:
  "sockaddr (V4 (a, b, c, d) port) =
     [2, 0] @ rev (to_le 2 port) @ [a, b, c, d] @ replicate 8 0"
proof -
  have "to_le 4 (from_le [a, b, c, d] :: u32) = [a, b, c, d]"
    by (rule to_le_from_le) simp_all
  then show ?thesis
    by (simp only: sockaddr.simps sockaddr_in_bytes_def sockaddr_in.simps to_le_to_be af_bytes
        append_assoc)
qed

lemma sockaddr_v6_image:
  "sockaddr (V6 octets port flowinfo scope) =
     [10, 0] @ rev (to_le 2 port) @ to_le 4 flowinfo @ octets @ to_le 4 scope"
  by (simp only: sockaddr.simps sockaddr_in6_bytes_def sockaddr_in6.simps to_le_to_be af_bytes
      append_assoc)

text \<open>\<open>setsockopt\<close> and \<open>getsockopt\<close>, by the kernel's return value.\<close>

definition setsockopt_buffer_size :: "int \<Rightarrow> (io_error, unit) res" where
  "setsockopt_buffer_size r = (if r = 0 then Ok () else Err Io_failed)"

definition getsockopt_buffer_size :: "int \<Rightarrow> 32 word \<Rightarrow> (io_error, 32 word) res" where
  "getsockopt_buffer_size r sz = (if r = 0 then Ok sz else Err Io_failed)"

text \<open>Signed 32-bit conversion and product, as used for the buffer sizes.\<close>

definition i32_try_from :: "u32 \<Rightarrow> 32 word option" where
  "i32_try_from x = (if unat x < 2 ^ 31 then Some x else None)"

definition smul_chk :: "bool \<Rightarrow> 32 word \<Rightarrow> 32 word \<Rightarrow> ('e, 32 word) res" where
  "smul_chk chk a b =
     (if chk \<and> (sint a * sint b < - (2 ^ 31) \<or> 2 ^ 31 \<le> sint a * sint b) then Panic else Ok (a * b))"

section \<open>Sending\<close>

datatype send_m = SendMsg | SendMmsg nat

definition send_m_new :: "u32 option \<Rightarrow> send_m" where
  "send_m_new batch =
     (case batch of
        None \<Rightarrow> SendMsg
      | Some n \<Rightarrow> if n = 1 then SendMsg else SendMmsg (unat n))"

record udp_sender =
  us_dest :: bytes
  us_sendm :: send_m

definition udp_send_new :: "socket_addr \<Rightarrow> u32 option \<Rightarrow> udp_sender" where
  "udp_send_new dest batch = \<lparr>us_dest = sockaddr dest, us_sendm = send_m_new batch\<rparr>"

fun send_msg :: "(nat \<Rightarrow> int) \<Rightarrow> bytes list \<Rightarrow> (bytes, io_error, unit) act" where
  "send_msg ans [] = ret ()"
| "send_msg ans (d # ds) =
     (if ans 0 = int (length d) then bind_act ([d], Ok ()) (\<lambda>_. send_msg (\<lambda>i. ans (Suc i)) ds)
      else (if ans 0 < 0 then [] else [d], Err Io_failed))"

text \<open>\<open>chunks_mut(n)\<close>, for \<open>n\<close> other than 0.\<close>

fun chunks_mut :: "nat \<Rightarrow> 'a list \<Rightarrow> 'a list list" where
  "chunks_mut n xs = (if n = 0 \<or> xs = [] then [] else take n xs # chunks_mut n (drop n xs))"

declare chunks_mut.simps [simp del]

definition send_chunk :: "int \<Rightarrow> bytes list \<Rightarrow> (bytes, io_error, unit) act" where
  "send_chunk sent ds =
     (if list_all (\<lambda>d. len_u32 d \<noteq> None) ds \<and> length ds < 2 ^ 32
      then (take (nat sent) ds, if sent = int (length ds) then Ok () else Err Io_failed)
      else ([], Err Io_failed))"

fun send_chunks :: "(nat \<Rightarrow> int) \<Rightarrow> bytes list list \<Rightarrow> (bytes, io_error, unit) act" where
  "send_chunks ans [] = ret ()"
| "send_chunks ans (c # cs) =
     bind_act (send_chunk (ans 0) c) (\<lambda>_. send_chunks (\<lambda>i. ans (Suc i)) cs)"

fun send_datagrams :: "send_m \<Rightarrow> (nat \<Rightarrow> int) \<Rightarrow> bytes list \<Rightarrow> (bytes, io_error, unit) act" where
  "send_datagrams SendMsg ans ds = send_msg ans ds"
| "send_datagrams (SendMmsg n) ans ds =
     (if n = 0 then lift Panic else send_chunks ans (chunks_mut n ds))"

definition udp_send ::
  "('plan, 'cfg, 'pkt) raptorq_lib \<Rightarrow> udp_sender \<Rightarrow> (nat \<Rightarrow> int) \<Rightarrow> 'pkt list \<Rightarrow> (bytes, io_error, unit) act"
where
  "udp_send lib u ans packets = send_datagrams (us_sendm u) ans (map (rq_serialize lib) packets)"

text \<open>
  The contract: what leaves the machine is a beginning of what was handed over, all of it when
  the call succeeds.
\<close>

locale packet_sink =
  fixes send :: "(nat \<Rightarrow> int) \<Rightarrow> bytes list \<Rightarrow> (bytes, io_error, unit) act"
  assumes sent_prefix: "\<exists>k. fst (send ans ds) = take k ds"
    and sent_all: "snd (send ans ds) = Ok () \<Longrightarrow> fst (send ans ds) = ds"
begin

fun send_groups :: "(nat \<Rightarrow> nat \<Rightarrow> int) \<Rightarrow> bytes list list \<Rightarrow> (bytes, io_error, unit) act" where
  "send_groups ans [] = ret ()"
| "send_groups ans (g # gs) = bind_act (send (ans 0) g) (\<lambda>_. send_groups (\<lambda>i. ans (Suc i)) gs)"

lemma groups_prefix: "\<exists>k. fst (send_groups ans gs) = take k (concat gs)"
proof (induction gs arbitrary: ans)
  case Nil
  then show ?case by (simp add: ret_def)
next
  case (Cons g gs)
  obtain os r where s: "send (ans 0) g = (os, r)" by (cases "send (ans 0) g")
  show ?case
  proof (cases "r = Ok ()")
    case True
    obtain k where "fst (send_groups (\<lambda>i. ans (Suc i)) gs) = take k (concat gs)"
      using Cons.IH by blast
    with s True sent_all [of "ans 0" g] show ?thesis
      by (intro exI [of _ "length g + k"]) simp
  next
    case False
    obtain k where "os = take k g" using sent_prefix [of "ans 0" g] s by auto
    then have "os = take (min k (length g)) (concat (g # gs))"
      by (cases "k \<le> length g") (simp_all add: min_def)
    moreover from False s have "fst (send_groups ans (g # gs)) = os"
      by (cases r) simp_all
    ultimately show ?thesis by blast
  qed
qed

lemma groups_all: "snd (send_groups ans gs) = Ok () \<Longrightarrow> fst (send_groups ans gs) = concat gs"
proof (induction gs arbitrary: ans)
  case Nil
  then show ?case by (simp add: ret_def)
next
  case (Cons g gs)
  obtain os r where "send (ans 0) g = (os, r)" by (cases "send (ans 0) g")
  with Cons sent_all [of "ans 0" g] show ?case by (cases r) auto
qed

end

lemma send_msg_prefix: "\<exists>k. fst (send_msg ans ds) = take k ds"
proof (induction ds arbitrary: ans)
  case Nil
  then show ?case by (simp add: ret_def)
next
  case (Cons d ds)
  obtain k where "fst (send_msg (\<lambda>i. ans (Suc i)) ds) = take k ds" using Cons.IH by blast
  then show ?case
    by (cases "ans 0 = int (length d)"; cases "ans 0 < 0")
      (auto intro: exI [of _ "Suc k"] exI [of _ "0 :: nat"] exI [of _ "1 :: nat"])
qed

lemma send_msg_all: "snd (send_msg ans ds) = Ok () \<Longrightarrow> fst (send_msg ans ds) = ds"
  by (induction ans ds rule: send_msg.induct) (auto simp: ret_def split: if_splits)

interpretation chunk: packet_sink "\<lambda>ans. send_chunk (ans 0)"
proof
  fix ans :: "nat \<Rightarrow> int" and ds
  show "\<exists>k. fst (send_chunk (ans 0) ds) = take k ds"
    by (auto simp: send_chunk_def intro: exI [of _ "0 :: nat"])
  show "snd (send_chunk (ans 0) ds) = Ok () \<Longrightarrow> fst (send_chunk (ans 0) ds) = ds"
    by (auto simp: send_chunk_def split: if_splits)
qed

lemma send_chunks_groups: "send_chunks ans cs = chunk.send_groups (\<lambda>i _. ans i) cs"
  by (induction cs arbitrary: ans) simp_all

lemma concat_chunks_mut [simp]: "0 < n \<Longrightarrow> concat (chunks_mut n xs) = xs"
proof (induction n xs rule: chunks_mut.induct)
  case (1 n xs)
  then show ?case by (subst chunks_mut.simps) auto
qed

interpretation sink: packet_sink "send_datagrams m" for m
proof
  fix ans ds
  show "\<exists>k. fst (send_datagrams m ans ds) = take k ds"
  proof (cases m)
    case SendMsg
    then show ?thesis using send_msg_prefix by simp
  next
    case (SendMmsg n)
    then show ?thesis
      using chunk.groups_prefix [of "\<lambda>i _. ans i" "chunks_mut n ds"]
      by (cases "n = 0") (auto simp: send_chunks_groups lift_def)
  qed
  show "snd (send_datagrams m ans ds) = Ok () \<Longrightarrow> fst (send_datagrams m ans ds) = ds"
  proof (cases m)
    case SendMsg
    then show "snd (send_datagrams m ans ds) = Ok () \<Longrightarrow> ?thesis" using send_msg_all by simp
  next
    case (SendMmsg n)
    then show "snd (send_datagrams m ans ds) = Ok () \<Longrightarrow> ?thesis"
      using chunk.groups_all [of "\<lambda>i _. ans i" "chunks_mut n ds"]
      by (cases "n = 0") (auto simp: send_chunks_groups lift_def)
  qed
qed


text \<open>The answers of a kernel that takes everything it is given.\<close>

fun full_answers :: "send_m \<Rightarrow> bytes list \<Rightarrow> nat \<Rightarrow> int" where
  "full_answers SendMsg ds i = int (length (ds ! i))"
| "full_answers (SendMmsg n) ds i = int (length (chunks_mut n ds ! i))"

lemma send_msg_full:
  "\<forall>i < length ds. ans i = int (length (ds ! i)) \<Longrightarrow> send_msg ans ds = (ds, Ok ())"
proof (induction ds arbitrary: ans)
  case Nil
  then show ?case by (simp add: ret_def)
next
  case (Cons d ds)
  then have "ans 0 = int (length d)" "send_msg (\<lambda>i. ans (Suc i)) ds = (ds, Ok ())" by auto
  then show ?case by simp
qed

lemma send_chunks_full:
  assumes "\<forall>i < length cs. ans i = int (length (cs ! i))"
    and "\<forall>c \<in> set cs. length c < 2 ^ 32 \<and> (\<forall>d \<in> set c. length d < 2 ^ 32)"
  shows "send_chunks ans cs = (concat cs, Ok ())"
  using assms
proof (induction cs arbitrary: ans)
  case Nil
  then show ?case by (simp add: ret_def)
next
  case (Cons c cs)
  then have "ans 0 = int (length c)" "send_chunks (\<lambda>i. ans (Suc i)) cs = (concat cs, Ok ())" by auto
  moreover have "send_chunk (int (length c)) c = (c, Ok ())"
    using Cons.prems(2) by (simp add: send_chunk_def len_u32_def list_all_iff)
  ultimately show ?case by simp
qed

lemma chunks_mut_bounds:
  "c \<in> set (chunks_mut n xs) \<Longrightarrow> length c \<le> n \<and> set c \<subseteq> set xs"
proof (induction n xs rule: chunks_mut.induct)
  case (1 n xs)
  then show ?case
    by (subst (asm) (2) chunks_mut.simps)
      (auto split: if_splits dest: in_set_takeD in_set_dropD)
qed

lemma udp_send_full:
  fixes dest :: socket_addr and batch :: "u32 option"
  assumes "\<forall>p \<in> set packets. length (rq_serialize lib p) < 2 ^ 32" and "batch \<noteq> Some 0"
  defines "u \<equiv> udp_send_new dest batch" and "ds \<equiv> map (rq_serialize lib) packets"
  shows "udp_send lib u (full_answers (us_sendm u) ds) packets = (ds, Ok ())"
proof (cases "batch = None \<or> batch = Some 1")
  case True
  then have "us_sendm u = SendMsg" by (auto simp: u_def udp_send_new_def send_m_new_def)
  with send_msg_full [of ds "full_answers SendMsg ds"] show ?thesis
    by (auto simp: udp_send_def ds_def)
next
  case False
  then obtain n where n: "batch = Some n" "n \<noteq> 1" by (cases batch) auto
  then have u: "us_sendm u = SendMmsg (unat n)"
    by (simp add: u_def udp_send_new_def send_m_new_def)
  have pos: "0 < unat n" using n assms(2) by (simp add: unat_gt_0)
  have "\<forall>c \<in> set (chunks_mut (unat n) ds). length c < 2 ^ 32 \<and> (\<forall>d \<in> set c. length d < 2 ^ 32)"
    using chunks_mut_bounds [of _ "unat n" ds] unat_u32_less [of n] assms(1)
    by (fastforce simp: ds_def)
  then have "send_chunks (full_answers (SendMmsg (unat n)) ds) (chunks_mut (unat n) ds) = (ds, Ok ())"
    using send_chunks_full [of "chunks_mut (unat n) ds" "full_answers (SendMmsg (unat n)) ds"] pos
    by simp
  then show ?thesis using u pos by (simp add: udp_send_def ds_def)
qed

lemma udp_send_batch_0:
  "udp_send lib (udp_send_new dest (Some 0)) ans packets = ([], Panic)"
  by (simp add: udp_send_def udp_send_new_def send_m_new_def lift_def)

text \<open>One call of \<open>recv\<close> while the datagrams \<open>ds\<close> wait.\<close>

lemma udp_recv_kernel:
  assumes "ds \<noteq> []"
  shows "\<exists>m. udp_recv (udp_receive_new mtu batch) (udp_kernel (udp_receive_new mtu batch) ds) = Ok m
    \<and> datagram_list m = map (take (unat mtu)) (take (receive_batch batch) ds)"
proof (cases "batch = None \<or> batch = Some 1")
  case True
  then show ?thesis
    using assms recv_msg_kernel [of "hd ds" "replicate (unat mtu) 0"]
    by (cases ds) (auto simp: udp_receive_new_def receive_msg_new_def receive_batch_def)
next
  case False
  then obtain n where n: "batch = Some n" "n \<noteq> 1" by (cases batch) auto
  have "unat mtu < 2 ^ 32" using unat_u16_less [of mtu] by simp
  then show ?thesis
    using n recv_mmsg_kernel [of "replicate (unat n) (replicate (unat mtu) 0)" "unat mtu" ds]
    by (auto simp: udp_receive_new_def receive_mmsg_new_def receive_batch_def)
qed

section \<open>Properties\<close>

text \<open>Property C19. One call of \<open>recv\<close> on a fresh receiver returns the waiting datagrams in
  order, at most as many as the batch, each cut to the MTU: batches change how many datagrams
  come per call but not which. With a batch of 0 it returns none.\<close>

theorem udp_recv_datagrams:
  assumes "ds \<noteq> []"
  shows "\<exists>m. udp_recv (udp_receive_new mtu batch) (udp_kernel (udp_receive_new mtu batch) ds) = Ok m
    \<and> datagram_list m = map (take (unat mtu)) (take (receive_batch batch) ds)"
  using assms by (rule udp_recv_kernel)

theorem udp_recv_datagrams_witness:
  "\<exists>m. udp_recv (udp_receive_new 2 (Some 3)) (udp_kernel (udp_receive_new 2 (Some 3)) [[1], [2, 3, 4]]) = Ok m
    \<and> datagram_list m = [[1], [2, 3]]"
  using udp_recv_datagrams [of "[[1], [2, 3, 4]]" 2 "Some 3"] by (simp add: receive_batch_def)

text \<open>Property C20. Whatever the kernel answers, what leaves the machine is a beginning of the packets in
  order, and all of them when \<open>send\<close> reports success; and when the kernel takes everything,
  \<open>send\<close> succeeds with every batch size but 0, which panics.\<close>

theorem udp_send_in_order:
  fixes dest :: socket_addr and batch :: "u32 option"
  assumes "\<forall>p \<in> set packets. length (rq_serialize lib p) < 2 ^ 32"
  defines "u \<equiv> udp_send_new dest batch" and "ds \<equiv> map (rq_serialize lib) packets"
  shows "(\<exists>k. fst (udp_send lib u ans packets) = take k ds)
    \<and> (snd (udp_send lib u ans packets) = Ok () \<longrightarrow> fst (udp_send lib u ans packets) = ds)
    \<and> udp_send lib u (full_answers (us_sendm u) ds) packets =
        (if batch = Some 0 then ([], Panic) else (ds, Ok ()))"
proof (intro conjI impI)
  show "\<exists>k. fst (udp_send lib u ans packets) = take k ds"
    unfolding udp_send_def ds_def by (rule sink.sent_prefix)
  show "snd (udp_send lib u ans packets) = Ok () \<Longrightarrow> fst (udp_send lib u ans packets) = ds"
    unfolding udp_send_def ds_def by (rule sink.sent_all)
  show "udp_send lib u (full_answers (us_sendm u) ds) packets =
        (if batch = Some 0 then ([], Panic) else (ds, Ok ()))"
    using udp_send_full [OF assms(1), of batch dest] udp_send_batch_0 [of lib dest _ packets]
    by (auto simp: u_def ds_def)
qed

theorem udp_send_in_order_witness:
  "udp_send sample_lib (udp_send_new (V4 (127, 0, 0, 1) 6000) (Some 2))
      (full_answers (SendMmsg 2) (map (rq_serialize sample_lib) [(5, 0, [1]), (5, 1, [2]), (5, 2, [3])]))
      [(5, 0, [1]), (5, 1, [2]), (5, 2, [3])]
    = (map (rq_serialize sample_lib) [(5, 0, [1]), (5, 1, [2]), (5, 2, [3])], Ok ())"
proof -
  have "\<forall>p \<in> set [(5, 0, [1]), (5, 1, [2]), (5, 2, [3])]. length (rq_serialize sample_lib p) < 2 ^ 32"
    by (simp add: sample_lib_def)
  from udp_send_in_order [OF this, of "V4 (127, 0, 0, 1) 6000" "Some 2" "\<lambda>_. 0"]
  show ?thesis
    by (simp only: udp_send_new_def udp_sender.simps send_m_new_def option.case option.inject) simp
qed

end
