(* ===== verification/Send_Client.thy ===== *)
theory Send_Client
  imports Udp
begin

text \<open>
  \<open>src/send/client.rs\<close>, \<open>src/send/server.rs\<close> and \<open>src/send/heartbeat.rs\<close>: the workers that put
  blocks on the channel \<open>to_ordering\<close>.

  A server thread waits for an accepted client, takes the multiplex semaphore, and turns the
  bytes it reads from the client into a \<open>Start\<close> block, \<open>Data\<close> blocks and an \<open>End\<close> block. If the
  transfer fails it sends an \<open>Abort\<close> block instead. What a thread does that others can see (its
  sends, the semaphore, the closing log line with byte count and hash) are its events.
  The inputs of a step are the answers of the blocking calls, together with the predicate \<open>up\<close> that says
  which sends the channel accepts.
\<close>

section \<open>Configuration, errors, events\<close>

text \<open>The \<open>fasthash\<close> crate: a parameter.\<close>

record 'h hasher_lib =
  h_default :: 'h
  h_write :: "'h \<Rightarrow> bytes \<Rightarrow> 'h"
  h_write_usize :: "'h \<Rightarrow> usize \<Rightarrow> 'h"
  h_finish_ext :: "'h \<Rightarrow> u128"

record send_config =
  s_max_clients :: u32
  s_flush :: bool
  s_nb_encode_threads :: u8
  s_heartbeat_interval :: "nat option" \<comment> \<open>durations are counted in nanoseconds\<close>
  s_to :: socket_addr
  s_to_bind :: socket_addr
  s_to_mtu :: u16
  s_batch_send :: "u32 option"
  s_cpu_affinity :: bool
  s_hash :: bool

datatype send_error =
    S_Io io_error
  | S_SendBlock
  | S_SendUdp
  | S_Receive
  | S_Protocol protocol_error
  | S_Diode string
  | S_Other string

datatype send_event =
    Ordered "block option"                 \<comment> \<open>\<open>to_ordering.send\<close>\<close>
  | Acquire                                \<comment> \<open>\<open>multiplex_control.wait()\<close>\<close>
  | Release                                \<comment> \<open>\<open>multiplex_control.signal()\<close>\<close>
  | Logged client_id nat "u128 option"     \<comment> \<open>the closing log line of a transfer\<close>

text \<open>An effect that cannot fail, and a send whose failure is only logged.\<close>

definition say :: "'o \<Rightarrow> ('o, 'e, unit) act" where
  "say m = ([m], Ok ())"

definition try_emit :: "('o \<Rightarrow> bool) \<Rightarrow> 'o \<Rightarrow> ('o, 'e, unit) act" where
  "try_emit up m = (if up m then ([m], Ok ()) else ([], Ok ()))"

section \<open>The client worker\<close>

record 'h client_state =
  conn :: stream
  buf :: bytes               \<comment> \<open>\<open>buffer[..cursor]\<close>\<close>
  transmitted :: nat
  hasher :: "'h option"

fun client_step ::
  "send_config \<Rightarrow> 'h hasher_lib \<Rightarrow> ('plan, 'cfg) raptorq \<Rightarrow> client_id \<Rightarrow> nat \<Rightarrow> 'h client_state \<Rightarrow>
   (send_event \<Rightarrow> bool) \<times> nat \<Rightarrow> (send_event, send_error, ('h client_state, unit) flow) act"
where
  "client_step cfg hl rq client_id buffer_len s (up, ready) =
     bind_act (lift (map_err S_Io (read ready (buffer_len - length (buf s)) (conn s)))) (\<lambda>(data, conn').
     let buf' = buf s @ data in
     if 0 < length data \<and> \<not> (s_flush cfg \<or> buffer_len \<le> length buf')
     then ret (Continue (s\<lparr>conn := conn', buf := buf'\<rparr>))
     else
       let block_type = (if length data = 0 then End else Data);
           hasher' = map_option (\<lambda>h. h_write hl h buf') (hasher s);
           transmitted' = transmitted s + length buf' in
       bind_act (lift (map_err S_Protocol (block_new block_type rq client_id (Some buf')))) (\<lambda>block.
       bind_act (emit up S_SendBlock (Ordered (Some block))) (\<lambda>_.
       if length data = 0
       then bind_act (say (Logged client_id transmitted' (map_option (h_finish_ext hl) hasher')))
              (\<lambda>_. ret (Return ()))
       else ret (Continue \<lparr>conn = conn', buf = [], transmitted = transmitted', hasher = hasher'\<rparr>))))"

declare client_step.simps [simp del]

definition initial_hasher :: "send_config \<Rightarrow> 'h hasher_lib \<Rightarrow> 'h option" where
  "initial_hasher cfg hl = (if s_hash cfg then Some (h_default hl) else None)"

text \<open>What comes before the loop: the \<open>Start\<close> block and the buffer.\<close>

definition client_init ::
  "bool \<Rightarrow> send_config \<Rightarrow> 'h hasher_lib \<Rightarrow> ('plan, 'cfg) raptorq \<Rightarrow> client_id \<Rightarrow> stream \<Rightarrow>
   (send_event \<Rightarrow> bool) \<Rightarrow> (send_event, send_error, nat \<times> 'h client_state) act"
where
  "client_init chk cfg hl rq client_id client up =
     bind_act (lift (map_err S_Protocol (block_new Start rq client_id None))) (\<lambda>block.
     bind_act (emit up S_SendBlock (Ordered (Some block))) (\<lambda>_.
     bind_act (lift (and_then (max_data_len chk rq) vec_alloc)) (\<lambda>buffer_len.
     ret (buffer_len, \<lparr>conn = client, buf = [], transmitted = 0,
                       hasher = initial_hasher cfg hl\<rparr>))))"

definition client_start ::
  "bool \<Rightarrow> send_config \<Rightarrow> 'h hasher_lib \<Rightarrow> ('plan, 'cfg) raptorq \<Rightarrow> client_id \<Rightarrow> stream \<Rightarrow>
   (send_event \<Rightarrow> bool) \<Rightarrow> ((send_event \<Rightarrow> bool) \<times> nat) list \<Rightarrow>
   (send_event, send_error, ('h client_state, unit) flow) act"
where
  "client_start chk cfg hl rq client_id client up inputs =
     bind_act (client_init chk cfg hl rq client_id client up) (\<lambda>(buffer_len, s).
     run (client_step cfg hl rq client_id buffer_len) s inputs)"

section \<open>The server worker\<close>

text \<open>
  Its loop state: waiting in \<open>for_server.recv()\<close>, or inside \<open>client::start\<close>. The counter is the static
  \<open>CLIENT_ID_COUNTER\<close>. An input is the answer of the channel (\<open>Some\<close> client, or the stop
  message \<open>None\<close>) or, while serving, the readiness of the client's socket.
\<close>

datatype 'h server_pc = Waiting | Serving client_id nat "'h client_state"

datatype server_input = Accept "stream option recv" | Ready nat

definition abort_client ::
  "('plan, 'cfg) raptorq \<Rightarrow> client_id \<Rightarrow> (send_event \<Rightarrow> bool) \<Rightarrow> (send_event, send_error, unit) act"
where
  "abort_client rq client_id up =
     bind_act (lift (map_err S_Protocol (block_new Abort rq client_id None))) (\<lambda>block.
     try_emit up (Ordered (Some block)))"

text \<open>After \<open>client::start\<close>: release the semaphore, and on an error send the \<open>Abort\<close> block.\<close>

definition client_done ::
  "('plan, 'cfg) raptorq \<Rightarrow> client_id \<Rightarrow> (send_event \<Rightarrow> bool) \<Rightarrow>
   (send_event, send_error, 'a) act \<Rightarrow> ('a \<Rightarrow> (send_event, send_error, 'b) act) \<Rightarrow>
   (send_event, send_error, 'b) act \<Rightarrow> (send_event, send_error, 'b) act"
where
  "client_done rq client_id up m cont next =
     (case m of (os, r) \<Rightarrow>
       (case r of
          Ok a \<Rightarrow> bind_act (os, Ok ()) (\<lambda>_. cont a)
        | Err e \<Rightarrow> bind_act (os @ [Release], Ok ()) (\<lambda>_. bind_act (abort_client rq client_id up) (\<lambda>_. next))
        | Panic \<Rightarrow> (os, Panic)
        | Diverges \<Rightarrow> (os, Diverges)))"

fun emit_all :: "('o \<Rightarrow> bool) \<Rightarrow> 'e \<Rightarrow> 'o list \<Rightarrow> ('o, 'e, unit) act" where
  "emit_all up e [] = ret ()"
| "emit_all up e (m # ms) = bind_act (emit up e m) (\<lambda>_. emit_all up e ms)"

fun server_step ::
  "bool \<Rightarrow> send_config \<Rightarrow> 'h hasher_lib \<Rightarrow> ('plan, 'cfg) raptorq \<Rightarrow>
   'h server_pc \<times> u32 \<Rightarrow> (send_event \<Rightarrow> bool) \<times> server_input \<Rightarrow>
   (send_event, send_error, ('h server_pc \<times> u32, unit) flow) act"
where
  "server_step chk cfg hl rq (Waiting, counter) (up, Accept (Msg (Some client))) =
     (let (client_id, counter') = new_client_id counter in
      bind_act (say Acquire) (\<lambda>_.
      client_done rq client_id up (client_init chk cfg hl rq client_id client up)
        (\<lambda>(n, s). ret (Continue (Serving client_id n s, counter')))
        (ret (Continue (Waiting, counter')))))"
| "server_step chk cfg hl rq (Waiting, counter) (up, Accept (Msg None)) =
     bind_act (emit_all up S_SendBlock (replicate (unat (s_nb_encode_threads cfg)) (Ordered None)))
       (\<lambda>_. ret (Return ()))"
| "server_step chk cfg hl rq (Waiting, counter) (up, Accept Disconnected) = lift (Err S_Receive)"
| "server_step chk cfg hl rq (Serving client_id n s, counter) (up, Ready k) =
     client_done rq client_id up (client_step cfg hl rq client_id n s (up, k))
       (\<lambda>f. case f of
          Continue s' \<Rightarrow> ret (Continue (Serving client_id n s', counter))
        | Return _ \<Rightarrow> bind_act (say Release) (\<lambda>_. ret (Continue (Waiting, counter))))
       (ret (Continue (Waiting, counter)))"
| "server_step chk cfg hl rq st input = ret (Continue st)" \<comment> \<open>no such answer in this state\<close>

section \<open>The heartbeat worker\<close>

text \<open>One turn of the loop per elapsed \<open>sleep\<close>.\<close>

definition heartbeat_step ::
  "('plan, 'cfg) raptorq \<Rightarrow> unit \<Rightarrow> (send_event \<Rightarrow> bool) \<Rightarrow>
   (send_event, send_error, (unit, unit) flow) act"
where
  "heartbeat_step rq s up =
     bind_act (lift (map_err S_Protocol (block_new Heartbeat rq 0 None))) (\<lambda>block.
     bind_act (emit up S_SendBlock (Ordered (Some block))) (\<lambda>_.
     ret (Continue ())))"

definition heartbeat_start ::
  "send_config \<Rightarrow> ('plan, 'cfg) raptorq \<Rightarrow> (send_event \<Rightarrow> bool) list \<Rightarrow>
   (send_event, send_error, (unit, unit) flow) act"
where
  "heartbeat_start cfg rq sleeps =
     (case s_heartbeat_interval cfg of
        None \<Rightarrow> lift (Err (S_Other ''no heartbeat duration but heartbeat enabled''))
      | Some duration \<Rightarrow> run (heartbeat_step rq) () sleeps)"

section \<open>What a transfer sends\<close>

text \<open>The blocks of a transfer whose data were cut into \<open>chunks\<close> and a last piece \<open>rest\<close>.\<close>

definition rq_block :: "('plan, 'cfg) raptorq \<Rightarrow> block_type \<Rightarrow> client_id \<Rightarrow> bytes \<Rightarrow> block" where
  "rq_block rq t cid data = block_layout (unat (transfer_length rq)) t cid data"

definition body_events ::
  "('plan, 'cfg) raptorq \<Rightarrow> client_id \<Rightarrow> bytes list \<Rightarrow> bytes \<Rightarrow> send_event list"
where
  "body_events rq cid chunks rest =
     map (\<lambda>c. Ordered (Some (rq_block rq Data cid c))) chunks @ [Ordered (Some (rq_block rq End cid rest))]"

text \<open>How the loop ends: at the end of the stream, or with the error of a broken connection.\<close>

definition transfer_outcome ::
  "('plan, 'cfg) raptorq \<Rightarrow> client_id \<Rightarrow> bool \<Rightarrow> bytes list \<Rightarrow> bytes \<Rightarrow> nat \<Rightarrow> u128 option \<Rightarrow>
   (send_event, send_error, ('s, unit) flow) act"
where
  "transfer_outcome rq cid failed chunks rest sent hash =
     (if failed
      then (map (\<lambda>c. Ordered (Some (rq_block rq Data cid c))) chunks, Err (S_Io Io_failed))
      else (body_events rq cid chunks rest @ [Logged cid sent hash], Ok (Return ())))"

lemma transfer_outcome_Cons:
  "transfer_outcome rq cid failed (c # chunks) rest sent hash =
     (let t = transfer_outcome rq cid failed chunks rest sent hash
      in (Ordered (Some (rq_block rq Data cid c)) # fst t, snd t))"
  by (simp add: transfer_outcome_def body_events_def)

definition absorbed :: "'h hasher_lib \<Rightarrow> bytes list \<Rightarrow> 'h option \<Rightarrow> u128 option" where
  "absorbed hl pieces h = map_option (\<lambda>h. h_finish_ext hl (foldl (h_write hl) h pieces)) h"

text \<open>How \<open>flush\<close> and the buffer size cut the data.\<close>

definition cut_ok :: "bool \<Rightarrow> nat \<Rightarrow> bytes list \<Rightarrow> bytes \<Rightarrow> bool" where
  "cut_ok flush n chunks rest \<longleftrightarrow>
     (\<forall>c \<in> set chunks. c \<noteq> [] \<and> length c \<le> n \<and> (\<not> flush \<longrightarrow> length c = n)) \<and>
     length rest < n \<and> (flush \<longrightarrow> rest = [])"

lemma rq_block_new:
  "length data + 9 \<le> unat (transfer_length rq) \<Longrightarrow> block_new t rq cid (Some data) = Ok (rq_block rq t cid data)"
  by (simp add: rq_block_def block_new_Some)

lemma rq_block_new_None:
  "9 \<le> unat (transfer_length rq) \<Longrightarrow> block_new t rq cid None = Ok (rq_block rq t cid [])"
  by (simp add: rq_block_def block_new_None)

text \<open>One turn of the loop, by what \<open>read\<close> returned.\<close>

lemma client_step_eof:
  assumes "n + 9 \<le> unat (transfer_length rq)" and "length (buf s) < n"
    and "pending (conn s) = []" and "\<not> broken (conn s)"
  shows "client_step cfg hl rq cid n s (\<lambda>_. True, k) =
     ([Ordered (Some (rq_block rq End cid (buf s))),
       Logged cid (transmitted s + length (buf s)) (absorbed hl [buf s] (hasher s))], Ok (Return ()))"
proof -
  have "read k (n - length (buf s)) (conn s) = Ok ([], conn s)"
    using assms(3,4) by (simp add: read_def Let_def)
  then show ?thesis
    using assms by (simp add: client_step.simps rq_block_new absorbed_def act_simps say_def
        Let_def ret_def option.map_comp comp_def)
qed

lemma client_step_broken:
  assumes "length (buf s) < n" and "pending (conn s) = []" and "broken (conn s)"
  shows "client_step cfg hl rq cid n s (up, k) = ([], Err (S_Io Io_failed))"
  using assms by (simp add: client_step.simps read_def act_simps lift_def)

lemma client_step_data:
  fixes k :: nat
  assumes "n + 9 \<le> unat (transfer_length rq)" and "length (buf s) < n"
    and "pending (conn s) \<noteq> []"
  defines "m \<equiv> min (max 1 k) (n - length (buf s))"
  defines "data \<equiv> take m (pending (conn s))"
    and "conn' \<equiv> (conn s)\<lparr>pending := drop m (pending (conn s))\<rparr>"
  shows "data \<noteq> []" and "length (buf s @ data) \<le> n"
    and "client_step cfg hl rq cid n s (\<lambda>_. True, k) =
      (if s_flush cfg \<or> n \<le> length (buf s @ data)
       then ([Ordered (Some (rq_block rq Data cid (buf s @ data)))],
             Ok (Continue \<lparr>conn = conn', buf = [], transmitted = transmitted s + length (buf s @ data),
                 hasher = map_option (\<lambda>h. h_write hl h (buf s @ data)) (hasher s)\<rparr>))
       else ([], Ok (Continue (s\<lparr>conn := conn', buf := buf s @ data\<rparr>))))"
proof -
  show ne: "data \<noteq> []" using assms(2,3) by (simp add: data_def m_def)
  show le: "length (buf s @ data) \<le> n" using assms(2) by (simp add: data_def m_def)
  have rd: "read k (n - length (buf s)) (conn s) = Ok (data, conn')"
    using assms(3) by (simp add: read_def Let_def data_def conn'_def m_def)
  have "length (buf s @ data) + 9 \<le> unat (transfer_length rq)" using le assms(1) by linarith
  note nb = rq_block_new [OF this]
  show "client_step cfg hl rq cid n s (\<lambda>_. True, k) =
      (if s_flush cfg \<or> n \<le> length (buf s @ data)
       then ([Ordered (Some (rq_block rq Data cid (buf s @ data)))],
             Ok (Continue \<lparr>conn = conn', buf = [], transmitted = transmitted s + length (buf s @ data),
                 hasher = map_option (\<lambda>h. h_write hl h (buf s @ data)) (hasher s)\<rparr>))
       else ([], Ok (Continue (s\<lparr>conn := conn', buf := buf s @ data\<rparr>))))"
    using ne by (simp add: client_step.simps rd nb act_simps ret_def Let_def)
qed

text \<open>
  The whole loop: with more read events than bytes left it reaches the end of the stream. What
  is sent is the buffered and the remaining data, cut into pieces.
\<close>

lemma client_run:
  assumes "n + 9 \<le> unat (transfer_length rq)" and "length (buf s) < n" and "s_flush cfg \<longrightarrow> buf s = []"
    and "length (pending (conn s)) < length ks"
  shows "\<exists>chunks rest. concat chunks @ rest = buf s @ pending (conn s)
      \<and> cut_ok (s_flush cfg) n chunks rest
      \<and> run (client_step cfg hl rq cid n) s (map (Pair (\<lambda>_. True)) ks) =
         transfer_outcome rq cid (broken (conn s)) chunks rest
           (transmitted s + length (buf s) + length (pending (conn s)))
           (absorbed hl (chunks @ [rest]) (hasher s))"
  using assms(2-4)
proof (induction ks arbitrary: s)
  case Nil
  then show ?case by simp
next
  case (Cons k ks)
  show ?case
  proof (cases "pending (conn s) = []")
    case True
    have "run (client_step cfg hl rq cid n) s (map (Pair (\<lambda>_. True)) (k # ks)) =
        transfer_outcome rq cid (broken (conn s)) [] (buf s)
          (transmitted s + length (buf s) + length (pending (conn s)))
          (absorbed hl ([] @ [buf s]) (hasher s))"
      using True client_step_eof [OF assms(1) Cons.prems(1) True, where cfg = cfg and hl = hl]
        client_step_broken [OF Cons.prems(1) True, where cfg = cfg and hl = hl and rq = rq]
      by (cases "broken (conn s)") (simp_all add: transfer_outcome_def body_events_def ret_def)
    then show ?thesis
      using True Cons.prems(1,2)
      by (intro exI [of _ "[]"] exI [of _ "buf s"]) (auto simp: cut_ok_def)
  next
    case False
    define m where "m = min (max 1 k) (n - length (buf s))"
    define data where "data = take m (pending (conn s))"
    define conn' where "conn' = (conn s)\<lparr>pending := drop m (pending (conn s))\<rparr>"
    note st = client_step_data [OF assms(1) Cons.prems(1) False, where k = k,
        folded m_def, folded data_def conn'_def]
    have m: "0 < m" using Cons.prems(1) by (simp add: m_def)
    have split: "pending (conn s) = data @ pending conn'" and br: "broken conn' = broken (conn s)"
      by (simp_all add: data_def conn'_def)
    have short: "length (pending conn') < length ks"
      using m False Cons.prems(3) by (cases "pending (conn s)") (auto simp: conn'_def)
    show ?thesis
    proof (cases "s_flush cfg \<or> n \<le> length (buf s @ data)")
      case True
      define s' where "s' = \<lparr>conn = conn', buf = [], transmitted = transmitted s + length (buf s @ data),
                 hasher = map_option (\<lambda>h. h_write hl h (buf s @ data)) (hasher s)\<rparr>"
      have "\<exists>chunks rest. concat chunks @ rest = buf s' @ pending (conn s')
          \<and> cut_ok (s_flush cfg) n chunks rest
          \<and> run (client_step cfg hl rq cid n) s' (map (Pair (\<lambda>_. True)) ks) =
             transfer_outcome rq cid (broken (conn s')) chunks rest
           (transmitted s' + length (buf s') + length (pending (conn s')))
           (absorbed hl (chunks @ [rest]) (hasher s'))"
        using Cons.prems(1) short by (intro Cons.IH) (auto simp: s'_def)
      then obtain chunks rest where
          c: "concat chunks @ rest = pending conn'"
          and ok: "cut_ok (s_flush cfg) n chunks rest"
          and rn: "run (client_step cfg hl rq cid n) s' (map (Pair (\<lambda>_. True)) ks) =
             transfer_outcome rq cid (broken (conn s')) chunks rest
           (transmitted s' + length (buf s') + length (pending (conn s')))
           (absorbed hl (chunks @ [rest]) (hasher s'))"
        by (auto simp: s'_def)
      have br': "broken (conn s') = broken (conn s)" by (simp add: s'_def br)
      have "concat ((buf s @ data) # chunks) @ rest = buf s @ pending (conn s)"
        using c split by simp
      moreover have "cut_ok (s_flush cfg) n ((buf s @ data) # chunks) rest"
        using ok True st(1,2) by (auto simp: cut_ok_def)
      moreover have "client_step cfg hl rq cid n s (\<lambda>_. True, k)
          = ([Ordered (Some (rq_block rq Data cid (buf s @ data)))], Ok (Continue s'))"
        using True by (simp only: st(3) s'_def if_True)
      then have "run (client_step cfg hl rq cid n) s (map (Pair (\<lambda>_. True)) (k # ks)) =
         transfer_outcome rq cid (broken (conn s)) ((buf s @ data) # chunks) rest
           (transmitted s' + length (buf s') + length (pending (conn s')))
           (absorbed hl (chunks @ [rest]) (hasher s'))"
        by (simp add: rn transfer_outcome_Cons br' Let_def)
      moreover have "absorbed hl (chunks @ [rest]) (hasher s')
          = absorbed hl (((buf s @ data) # chunks) @ [rest]) (hasher s)"
        by (simp add: s'_def absorbed_def option.map_comp comp_def)
      moreover have "transmitted s' + length (buf s') + length (pending (conn s'))
          = transmitted s + length (buf s) + length (pending (conn s))"
        by (simp add: s'_def split)
      ultimately show ?thesis by metis
    next
      case False
      define s' where "s' = s\<lparr>conn := conn', buf := buf s @ data\<rparr>"
      have "client_step cfg hl rq cid n s (\<lambda>_. True, k) = ([], Ok (Continue s'))"
        using False by (simp only: st(3) s'_def if_False)
      then have "run (client_step cfg hl rq cid n) s (map (Pair (\<lambda>_. True)) (k # ks))
          = run (client_step cfg hl rq cid n) s' (map (Pair (\<lambda>_. True)) ks)"
        by simp
      moreover have "\<exists>chunks rest. concat chunks @ rest = buf s' @ pending (conn s')
          \<and> cut_ok (s_flush cfg) n chunks rest
          \<and> run (client_step cfg hl rq cid n) s' (map (Pair (\<lambda>_. True)) ks) =
             transfer_outcome rq cid (broken (conn s')) chunks rest
           (transmitted s' + length (buf s') + length (pending (conn s')))
           (absorbed hl (chunks @ [rest]) (hasher s'))"
        using False short by (intro Cons.IH) (auto simp: s'_def)
      ultimately show ?thesis
        by (simp add: s'_def split br add.assoc)
    qed
  qed
qed

text \<open>Without \<open>flush\<close> there is one way to cut: full buffers and what is left.\<close>

fun pieces :: "nat \<Rightarrow> bytes \<Rightarrow> bytes list \<times> bytes" where
  "pieces n data =
     (if 0 < n \<and> n \<le> length data
      then (take n data # fst (pieces n (drop n data)), snd (pieces n (drop n data)))
      else ([], data))"

declare pieces.simps [simp del]

lemma pieces_short: "length data < n \<Longrightarrow> pieces n data = ([], data)"
  by (subst pieces.simps) simp

lemma pieces_append:
  "0 < n \<Longrightarrow> length c = n \<Longrightarrow> pieces n (c @ data) = (c # fst (pieces n data), snd (pieces n data))"
  by (subst pieces.simps) simp

lemma cut_unique:
  "cut_ok False n chunks rest \<Longrightarrow> pieces n (concat chunks @ rest) = (chunks, rest)"
proof (induction chunks)
  case Nil
  then show ?case by (simp add: cut_ok_def pieces_short)
next
  case (Cons c chunks)
  then have "pieces n (concat chunks @ rest) = (chunks, rest)" "length c = n" "0 < n"
    by (auto simp: cut_ok_def)
  then show ?case by (simp add: pieces_append)
qed

lemma client_init_ok:
  assumes "9 \<le> unat (transfer_length rq)"
  shows "client_init chk cfg hl rq cid client (\<lambda>_. True) =
     ([Ordered (Some (rq_block rq Start cid []))],
      Ok (unat (transfer_length rq) - 9,
          \<lparr>conn = client, buf = [], transmitted = 0, hasher = initial_hasher cfg hl\<rparr>))"
proof -
  obtain n where "max_data_len chk rq = (Ok n :: (send_error, usize) res)"
      "unat n = unat (transfer_length rq) - 9"
    using max_data_len_exact [OF assms, of chk] by blast
  moreover have "unat (transfer_length rq) - 9 < 2 ^ 63"
    using unat_u32_less [of "transfer_length rq"] by simp
  ultimately show ?thesis
    by (simp add: client_init_def rq_block_new_None [OF assms] act_simps ret_def vec_alloc_def)
qed

lemma client_start_run:
  assumes "10 \<le> unat (transfer_length rq)" and "length (pending client) < length ks"
  defines "n \<equiv> unat (transfer_length rq) - 9"
  shows "\<exists>chunks rest. concat chunks @ rest = pending client \<and> cut_ok (s_flush cfg) n chunks rest
      \<and> run (client_step cfg hl rq cid n)
          \<lparr>conn = client, buf = [], transmitted = 0, hasher = initial_hasher cfg hl\<rparr>
          (map (Pair (\<lambda>_. True)) ks)
        = transfer_outcome rq cid (broken client) chunks rest (length (pending client))
            (absorbed hl (chunks @ [rest]) (initial_hasher cfg hl))"
  using client_run [of n rq "\<lparr>conn = client, buf = [], transmitted = 0, hasher = initial_hasher cfg hl\<rparr>"
      cfg ks hl cid] assms
  by simp

section \<open>The server around a transfer\<close>

lemma server_waiting_ready:
  "run (server_step chk cfg hl rq) (Waiting, c) (map (\<lambda>k. (\<lambda>_. True, Ready k)) ks)
     = ([], Ok (Continue (Waiting, c)))"
  by (induction ks) (auto simp: server_step.simps ret_def)

text \<open>What the server makes of the outcome of a client that is being served.\<close>

definition served ::
  "('plan, 'cfg) raptorq \<Rightarrow> client_id \<Rightarrow> nat \<Rightarrow> u32 \<Rightarrow>
   (send_event, send_error, ('h client_state, unit) flow) act \<Rightarrow>
   (send_event, send_error, ('h server_pc \<times> u32, unit) flow) act"
where
  "served rq cid n c m = (case m of (os, r) \<Rightarrow> (case r of
       Ok (Continue s) \<Rightarrow> (os, Ok (Continue (Serving cid n s, c)))
     | Ok (Return _) \<Rightarrow> (os @ [Release], Ok (Continue (Waiting, c)))
     | Err e \<Rightarrow> (os @ [Release, Ordered (Some (rq_block rq Abort cid []))], Ok (Continue (Waiting, c)))
     | Panic \<Rightarrow> (os, Panic)
     | Diverges \<Rightarrow> (os, Diverges)))"

lemma server_serving:
  assumes "9 \<le> unat (transfer_length rq)"
  shows "run (server_step chk cfg hl rq) (Serving cid n s, c) (map (\<lambda>k. (\<lambda>_. True, Ready k)) ks)
     = served rq cid n c (run (client_step cfg hl rq cid n) s (map (Pair (\<lambda>_. True)) ks))"
proof (induction ks arbitrary: s)
  case Nil
  then show ?case by (simp add: served_def ret_def)
next
  case (Cons k ks)
  obtain os r where st: "client_step cfg hl rq cid n s (\<lambda>_. True, k) = (os, r)"
    by (cases "client_step cfg hl rq cid n s (\<lambda>_. True, k)")
  note ab = rq_block_new_None [OF assms, of Abort cid]
  show ?case
  proof (cases r)
    case (Ok f)
    then show ?thesis
    proof (cases f)
      case (Continue s')
      with Ok st show ?thesis
        by (cases "run (client_step cfg hl rq cid n) s' (map (Pair (\<lambda>_. True)) ks)")
          (simp add: server_step.simps client_done_def Cons.IH served_def ret_def
            split: res.splits flow.splits)
    next
      case (Return u)
      with Ok st show ?thesis
        by (simp add: server_step.simps client_done_def say_def ret_def served_def
            server_waiting_ready)
    qed
  next
    case (Err e)
    with st show ?thesis
      by (simp add: server_step.simps client_done_def abort_client_def ab try_emit_def act_simps
          ret_def served_def server_waiting_ready)
  qed (use st in \<open>simp_all add: server_step.simps client_done_def served_def\<close>)
qed

text \<open>The semaphore in the events of a client: never touched.\<close>

definition permits :: "send_event list \<Rightarrow> int" where
  "permits os = int (count_list os Acquire) - int (count_list os Release)"

lemma permits_simps [simp]:
  "permits [] = 0"
  "permits (Acquire # os) = permits os + 1"
  "permits (Release # os) = permits os - 1"
  "permits (Ordered b # os) = permits os"
  "permits (Logged c n h # os) = permits os"
  "permits (os @ os') = permits os + permits os'"
  by (simp_all add: permits_def)

fun held :: "'h server_pc \<times> u32 \<Rightarrow> int" where
  "held (Waiting, c) = 0"
| "held (Serving cid n s, c) = 1"

lemma emit_all_permits: "permits (fst (emit_all up e (replicate n (Ordered m)))) = 0"
  by (induction n) (auto simp: ret_def emit_def)

lemma client_step_permits: "permits (fst (client_step cfg hl rq cid n s (up, k))) = 0"
  by (cases "read k (n - length (buf s)) (conn s)")
    (auto simp: client_step.simps lift_def emit_def say_def ret_def bind_act_def Let_def
      split: res.splits)

lemma client_init_permits: "permits (fst (client_init chk cfg hl rq cid client up)) = 0"
  by (auto simp: client_init_def lift_def emit_def ret_def bind_act_def split: res.splits)

lemma client_done_permits:
  assumes "permits (fst m) = 0"
    and "\<And>a. snd m = Ok a \<Longrightarrow> snd (cont a) = Ok (Continue st) \<Longrightarrow> permits (fst (cont a)) = held st - 1"
    and "snd next = Ok (Continue st) \<Longrightarrow> permits (fst next) = held st"
    and "snd (client_done rq cid up m cont next) = Ok (Continue st)"
  shows "permits (fst (client_done rq cid up m cont next)) = held st - 1"
  using assms
  by (cases m; cases "snd m")
    (auto simp: client_done_def abort_client_def try_emit_def lift_def bind_act_def
      split: res.splits prod.splits)

lemma server_step_permits:
  assumes "snd (server_step chk cfg hl rq st i) = Ok (Continue st')"
  shows "permits (fst (server_step chk cfg hl rq st i)) = held st' - held st"
  using assms
proof (induction chk cfg hl rq st i rule: server_step.induct)
  case (1 chk cfg hl rq c up client)
  then have d: "snd (client_done rq c up (client_init chk cfg hl rq c client up)
      (\<lambda>(n, s). ret (Continue (Serving c n s, c + 1))) (ret (Continue (Waiting, c + 1))))
      = (Ok (Continue st') :: (_, (_, unit) flow) res)"
    by (simp add: new_client_id_def say_def)
  have "permits (fst (client_done rq c up (client_init chk cfg hl rq c client up)
      (\<lambda>(n, s). ret (Continue (Serving c n s, c + 1)))
      (ret (Continue (Waiting, c + 1)) :: (_, _, (_, unit) flow) act))) = held st' - 1"
    by (rule client_done_permits [OF client_init_permits _ _ d]) (auto simp: ret_def)
  then show ?case by (simp add: new_client_id_def say_def)
next
  case (4 chk cfg hl rq cid n s c up k)
  show ?case
    unfolding server_step.simps
    by (subst client_done_permits [OF client_step_permits _ _ 4 [unfolded server_step.simps]])
      (auto simp: say_def ret_def split: flow.splits)
qed (auto simp: ret_def lift_def bind_act_def split: res.splits prod.splits)

interpretation server_permits: permit_holder "server_step chk cfg hl rq" permits held for chk cfg hl rq
  by unfold_locales (auto simp: server_step_permits simp del: server_step.simps)

text \<open>A concrete hasher and configuration for the witnesses.\<close>

definition sample_hasher :: "u128 hasher_lib" where
  "sample_hasher = \<lparr>h_default = 0,
     h_write = foldl (\<lambda>h b. 31 * h + ucast b),
     h_write_usize = (\<lambda>h n. 31 * h + ucast n),
     h_finish_ext = id\<rparr>"

definition sample_send_config :: send_config where
  "sample_send_config = \<lparr>s_max_clients = 2, s_flush = False, s_nb_encode_threads = 1,
     s_heartbeat_interval = Some 5000000000, s_to = V4 (127, 0, 0, 1) 6000, s_to_bind = V4 (0, 0, 0, 0) 0,
     s_to_mtu = 48, s_batch_send = None, s_cpu_affinity = False, s_hash = True\<rparr>"

lemma client_start_blocks:
  assumes "10 \<le> unat (transfer_length rq)"
    and "\<not> broken client" and "length (pending client) < length ks"
  shows "\<exists>chunks rest.
      concat chunks @ rest = pending client
    \<and> cut_ok (s_flush cfg) (unat (transfer_length rq) - 9) chunks rest
    \<and> client_start chk cfg hl rq cid client (\<lambda>_. True) (map (Pair (\<lambda>_. True)) ks) =
        (Ordered (Some (rq_block rq Start cid []))
           # map (\<lambda>c. Ordered (Some (rq_block rq Data cid c))) chunks
           @ [Ordered (Some (rq_block rq End cid rest)),
              Logged cid (length (pending client))
                (absorbed hl (chunks @ [rest]) (initial_hasher cfg hl))],
         Ok (Return ()))"
proof -
  have n: "9 \<le> unat (transfer_length rq)" using assms(1) by simp
  from client_start_run [OF assms(1,3), of cfg hl cid] assms(2) obtain chunks rest where
      c: "concat chunks @ rest = pending client"
         "cut_ok (s_flush cfg) (unat (transfer_length rq) - 9) chunks rest"
      and rn: "run (client_step cfg hl rq cid (unat (transfer_length rq) - 9))
          \<lparr>conn = client, buf = [], transmitted = 0, hasher = initial_hasher cfg hl\<rparr>
          (map (Pair (\<lambda>_. True)) ks)
        = transfer_outcome rq cid False chunks rest (length (pending client))
            (absorbed hl (chunks @ [rest]) (initial_hasher cfg hl))"
    by auto
  show ?thesis
    by (intro exI [of _ chunks] exI [of _ rest] conjI c)
      (simp add: client_start_def client_init_ok [OF n] rn transfer_outcome_def body_events_def)
qed

section \<open>Properties\<close>

text \<open>Property C10. A client whose data arrive in any pieces is sent as one \<open>Start\<close> block, \<open>Data\<close>
  blocks that are never empty and never longer than a block allows, and one \<open>End\<close> block, in
  that order; together they carry exactly the client's bytes, and the closing log line reports
  their number and the hash of what was sent. It takes one read event more than there are bytes
  at the most.\<close>

theorem client_start_transfers:
  assumes "10 \<le> unat (transfer_length rq)"
    and "\<not> broken client" and "length (pending client) < length ks"
  shows "\<exists>chunks rest.
      concat chunks @ rest = pending client
    \<and> cut_ok (s_flush cfg) (unat (transfer_length rq) - 9) chunks rest
    \<and> client_start chk cfg hl rq cid client (\<lambda>_. True) (map (Pair (\<lambda>_. True)) ks) =
        (Ordered (Some (rq_block rq Start cid []))
           # map (\<lambda>c. Ordered (Some (rq_block rq Data cid c))) chunks
           @ [Ordered (Some (rq_block rq End cid rest)),
              Logged cid (length (pending client))
                (absorbed hl (chunks @ [rest]) (initial_hasher cfg hl))],
         Ok (Return ()))"
  using assms by (rule client_start_blocks)

theorem client_start_transfers_witness:
  "\<exists>chunks rest. concat chunks @ rest = ([1, 2, 3] :: bytes)
    \<and> snd (client_start True sample_send_config sample_hasher small_rq 7
        \<lparr>pending = [1, 2, 3], broken = False\<rparr> (\<lambda>_. True) (map (Pair (\<lambda>_. True)) [1, 1, 1, 1]))
      = Ok (Return ())"
  using client_start_transfers [of small_rq "\<lparr>pending = [1, 2, 3], broken = False\<rparr>" "[1, 1, 1, 1]"
      sample_send_config True sample_hasher 7]
  by (auto simp: small_rq_def)

text \<open>Property C40. Without \<open>flush\<close> the blocks do not depend on how the data arrive: they carry the
  full buffers of the data one by one, and the \<open>End\<close> block the remainder.\<close>

theorem client_start_unflushed:
  assumes "10 \<le> unat (transfer_length rq)" and "\<not> s_flush cfg"
    and "\<not> broken client" and "length (pending client) < length ks"
  shows "let (chunks, rest) = pieces (unat (transfer_length rq) - 9) (pending client)
    in client_start chk cfg hl rq cid client (\<lambda>_. True) (map (Pair (\<lambda>_. True)) ks) =
        (Ordered (Some (rq_block rq Start cid []))
           # map (\<lambda>c. Ordered (Some (rq_block rq Data cid c))) chunks
           @ [Ordered (Some (rq_block rq End cid rest)),
              Logged cid (length (pending client))
                (absorbed hl (chunks @ [rest]) (initial_hasher cfg hl))],
         Ok (Return ()))"
proof -
  let ?n = "unat (transfer_length rq) - 9"
  have n: "9 \<le> unat (transfer_length rq)" using assms(1) by simp
  from client_start_run [OF assms(1,4), of cfg hl cid]
  obtain chunks rest where
      c: "concat chunks @ rest = pending client" "cut_ok (s_flush cfg) ?n chunks rest"
      and rn: "run (client_step cfg hl rq cid ?n)
          \<lparr>conn = client, buf = [], transmitted = 0, hasher = initial_hasher cfg hl\<rparr>
          (map (Pair (\<lambda>_. True)) ks)
        = transfer_outcome rq cid (broken client) chunks rest (length (pending client))
            (absorbed hl (chunks @ [rest]) (initial_hasher cfg hl))"
    by blast
  have "pieces ?n (pending client) = (chunks, rest)"
    using cut_unique [of ?n chunks rest] c assms(2) by simp
  then show ?thesis
    using rn assms(3)
    by (simp add: client_start_def client_init_ok [OF n] transfer_outcome_def body_events_def)
qed

theorem client_start_unflushed_witness:
  "fst (client_start True sample_send_config sample_hasher small_rq 7
      \<lparr>pending = [1, 2, 3], broken = False\<rparr> (\<lambda>_. True) (map (Pair (\<lambda>_. True)) [2, 1, 1, 1]))
    = [Ordered (Some (rq_block small_rq Start 7 [])),
       Ordered (Some (rq_block small_rq End 7 [1, 2, 3])),
       Logged 7 3 (Some (h_write sample_hasher 0 [1, 2, 3]))]"
  using client_start_unflushed [of small_rq sample_send_config
      "\<lparr>pending = [1, 2, 3], broken = False\<rparr>" "[2, 1, 1, 1]" True sample_hasher 7]
  by (simp add: small_rq_def sample_send_config_def pieces_short absorbed_def initial_hasher_def
      sample_hasher_def)

lemma server_serves_client:
  assumes "10 \<le> unat (transfer_length rq)" and "length (pending client) < length ks"
  shows "\<exists>chunks rest. concat chunks @ rest = pending client
    \<and> cut_ok (s_flush cfg) (unat (transfer_length rq) - 9) chunks rest
    \<and> run (server_step chk cfg hl rq) (Waiting, c)
        ((\<lambda>_. True, Accept (Msg (Some client))) # map (\<lambda>k. (\<lambda>_. True, Ready k)) ks)
      = (let out = (served rq c (unat (transfer_length rq) - 9) (c + 1)
             (transfer_outcome rq c (broken client) chunks rest (length (pending client))
               (absorbed hl (chunks @ [rest]) (initial_hasher cfg hl)))
             :: (send_event, send_error, (_ server_pc \<times> u32, unit) flow) act)
         in ([Acquire, Ordered (Some (rq_block rq Start c []))] @ fst out, snd out))"
proof -
  have n: "9 \<le> unat (transfer_length rq)" using assms(1) by simp
  let ?s = "\<lparr>conn = client, buf = [], transmitted = 0, hasher = initial_hasher cfg hl\<rparr>"
  have st: "server_step chk cfg hl rq (Waiting, c) (\<lambda>_. True, Accept (Msg (Some client)))
      = ([Acquire, Ordered (Some (rq_block rq Start c []))],
         Ok (Continue (Serving c (unat (transfer_length rq) - 9) ?s, c + 1)))"
    by (simp add: new_client_id_def say_def client_done_def client_init_ok [OF n] ret_def)
  from client_start_run [OF assms, of cfg hl c] obtain chunks rest where
      c: "concat chunks @ rest = pending client"
         "cut_ok (s_flush cfg) (unat (transfer_length rq) - 9) chunks rest"
      and rn: "run (client_step cfg hl rq c (unat (transfer_length rq) - 9)) ?s (map (Pair (\<lambda>_. True)) ks)
        = transfer_outcome rq c (broken client) chunks rest (length (pending client))
            (absorbed hl (chunks @ [rest]) (initial_hasher cfg hl))"
    by blast
  show ?thesis
    by (intro exI [of _ chunks] exI [of _ rest] conjI c)
      (simp add: st server_serving [OF n] rn Let_def del: server_step.simps)
qed

lemma server_aborts_client:
  assumes "10 \<le> unat (transfer_length rq)" and "broken client" and "length (pending client) < length ks"
  shows "\<exists>chunks lost. concat chunks @ lost = pending client
    \<and> cut_ok (s_flush cfg) (unat (transfer_length rq) - 9) chunks lost
    \<and> run (server_step chk cfg hl rq) (Waiting, c)
        ((\<lambda>_. True, Accept (Msg (Some client))) # map (\<lambda>k. (\<lambda>_. True, Ready k)) ks)
      = ([Acquire, Ordered (Some (rq_block rq Start c []))]
           @ map (\<lambda>d. Ordered (Some (rq_block rq Data c d))) chunks
           @ [Release, Ordered (Some (rq_block rq Abort c []))],
         Ok (Continue (Waiting, c + 1)))"
  using server_serves_client [OF assms(1,3), of cfg chk hl c] assms(2)
  by (auto simp: transfer_outcome_def served_def Let_def simp del: run.simps)

text \<open>A server thread that accepts a client holds the semaphore exactly for the
  transfer, sends the client's blocks under a fresh client id, and is ready for the next client.\<close>

theorem server_completes_transfer:
  assumes "10 \<le> unat (transfer_length rq)"
    and "\<not> broken client" and "length (pending client) < length ks"
  shows "\<exists>chunks rest hash. concat chunks @ rest = pending client
    \<and> run (server_step chk cfg hl rq) (Waiting, c)
        ((\<lambda>_. True, Accept (Msg (Some client))) # map (\<lambda>k. (\<lambda>_. True, Ready k)) ks)
      = ([Acquire, Ordered (Some (rq_block rq Start c []))]
           @ map (\<lambda>d. Ordered (Some (rq_block rq Data c d))) chunks
           @ [Ordered (Some (rq_block rq End c rest)), Logged c (length (pending client)) hash, Release],
         Ok (Continue (Waiting, c + 1)))"
  using server_serves_client [OF assms(1,3), of cfg chk hl c] assms(2)
  by (auto simp: transfer_outcome_def served_def body_events_def Let_def)

theorem server_completes_transfer_witness:
  "snd (run (server_step True sample_send_config sample_hasher small_rq) (Waiting, 7)
      ((\<lambda>_. True, Accept (Msg (Some \<lparr>pending = [1], broken = False\<rparr>)))
         # map (\<lambda>k. (\<lambda>_. True, Ready k)) [1, 1]))
    = Ok (Continue (Waiting, 8))"
  using server_completes_transfer [of small_rq "\<lparr>pending = [1], broken = False\<rparr>" "[1, 1]"
      True sample_send_config sample_hasher 7]
  by (auto simp: small_rq_def)

text \<open>When the client's connection breaks, the thread sends the full blocks it had
  read, releases the semaphore and sends an \<open>Abort\<close> block for that client: no \<open>End\<close> block is ever
  sent for an incomplete transfer, and the server goes on with the next client.\<close>

theorem server_aborts_broken_transfer:
  assumes "10 \<le> unat (transfer_length rq)"
    and "broken client" and "length (pending client) < length ks"
  shows "\<exists>chunks lost. concat chunks @ lost = pending client
    \<and> length lost < unat (transfer_length rq) - 9
    \<and> run (server_step chk cfg hl rq) (Waiting, c)
        ((\<lambda>_. True, Accept (Msg (Some client))) # map (\<lambda>k. (\<lambda>_. True, Ready k)) ks)
      = ([Acquire, Ordered (Some (rq_block rq Start c []))]
           @ map (\<lambda>d. Ordered (Some (rq_block rq Data c d))) chunks
           @ [Release, Ordered (Some (rq_block rq Abort c []))],
         Ok (Continue (Waiting, c + 1)))"
  using server_aborts_client [OF assms, of cfg chk hl c] by (auto simp: cut_ok_def simp del: run.simps)

theorem server_aborts_broken_transfer_witness:
  "last (fst (run (server_step True sample_send_config sample_hasher small_rq) (Waiting, 7)
      ((\<lambda>_. True, Accept (Msg (Some \<lparr>pending = [1], broken = True\<rparr>)))
         # map (\<lambda>k. (\<lambda>_. True, Ready k)) [1, 1])))
    = Ordered (Some (rq_block small_rq Abort 7 []))"
  using server_aborts_broken_transfer [of small_rq "\<lparr>pending = [1], broken = True\<rparr>" "[1, 1]"
      True sample_send_config sample_hasher 7]
  by (auto simp: small_rq_def)

text \<open>Property C18. Whatever the clients, the channel and the socket do, a server thread that is
  waiting for a client holds no permit of the semaphore, and one that serves a client holds exactly one.\<close>

theorem server_semaphore_balanced:
  assumes "run (server_step chk cfg hl rq) st inputs = (os, Ok (Continue st'))"
    and "st = (Waiting, c)"
  shows "int (count_list os Acquire) - int (count_list os Release)
    = (case fst st' of Waiting \<Rightarrow> 0 | Serving _ _ _ \<Rightarrow> 1)"
  using server_permits.run_permits [of chk cfg hl rq st inputs st'] assms
  by (cases st') (auto simp: permits_def split: server_pc.splits)

theorem server_semaphore_balanced_witness:
  "\<exists>os. run (server_step True sample_send_config sample_hasher small_rq) (Waiting, 7)
      [(\<lambda>_. False, Accept (Msg (Some \<lparr>pending = [1], broken = False\<rparr>)))]
      = (os, Ok (Continue (Waiting, 8)))
    \<and> int (count_list os Acquire) - int (count_list os Release) = 0"
proof -
  have "run (server_step True sample_send_config sample_hasher small_rq) (Waiting, 7)
      [(\<lambda>_. False, Accept (Msg (Some \<lparr>pending = [1], broken = False\<rparr>)))]
      = ([Acquire, Release], Ok (Continue (Waiting, 8)))"
    using rq_block_new_None [of small_rq Start 7] rq_block_new_None [of small_rq Abort 7]
    by (simp add: new_client_id_def say_def client_done_def client_init_def emit_def ret_def
        lift_def abort_client_def try_emit_def small_rq_def)
  from server_semaphore_balanced [OF this refl] this show ?thesis by auto
qed

end
