(* ===== verification/Turnstile.thy ===== *)
theory Turnstile
  imports Prelude "HOL-Library.Multiset"
begin

text \<open>
  The interface between a pool of worker threads and the numbered turnstile they pass.

  Both directions of the diode use one: encoding threads (\<open>src/send/encoding.rs\<close>) and decoding threads
  (\<open>src/receive/decode.rs\<close>) take numbered jobs from a shared channel, work on them in parallel, and
  hand their results on only when a shared 8-bit counter equals the number of their job; then
  they advance the counter. The locale says what a step of such a pool may do, and its lemmas
  that the results then come out in the order of the jobs although the numbers wrap around at
  256: the pool has at most 255 threads, so the jobs in hand always differ modulo 256.
\<close>

section \<open>What a list of threads holds\<close>

text \<open>\<open>hold\<close> tells what one thread has in hand.\<close>

definition carried :: "('t \<Rightarrow> 'j multiset) \<Rightarrow> 't list \<Rightarrow> 'j multiset" where
  "carried hold ts = sum_list (map hold ts)"

lemma carried_update:
  "i < length ts \<Longrightarrow> carried hold (ts[i := t]) + hold (ts ! i) = carried hold ts + hold t"
  unfolding carried_def by (induction ts arbitrary: i) (auto simp: ac_simps split: nat.splits)

lemma carried_add:
  "i < length ts \<Longrightarrow> hold (ts ! i) = {#} \<Longrightarrow> hold t = {#j#} \<Longrightarrow>
   carried hold (ts[i := t]) = add_mset j (carried hold ts)"
  using carried_update [of i ts hold t] by simp

lemma carried_remove:
  "i < length ts \<Longrightarrow> hold (ts ! i) = {#j#} \<Longrightarrow> hold t = {#} \<Longrightarrow>
   j \<in># carried hold ts \<and> carried hold (ts[i := t]) = carried hold ts - {#j#}"
proof -
  assume "i < length ts" "hold (ts ! i) = {#j#}" "hold t = {#}"
  then have "carried hold ts = add_mset j (carried hold (ts[i := t]))"
    using carried_update [of i ts hold t] by simp
  then show ?thesis by simp
qed

lemma carried_same:
  "i < length ts \<Longrightarrow> hold (ts ! i) = {#} \<Longrightarrow> hold t = {#} \<Longrightarrow> carried hold (ts[i := t]) = carried hold ts"
  using carried_update [of i ts hold t] by simp

lemma carried_member: "j \<in># carried hold ts \<Longrightarrow> \<exists>i < length ts. j \<in># hold (ts ! i)"
  unfolding carried_def by (induction ts) force+

lemma carried_empty: "carried hold ts = {#} \<Longrightarrow> t \<in> set ts \<Longrightarrow> hold t = {#}"
  unfolding carried_def by (induction ts) auto

lemma carried_replicate: "hold t = {#} \<Longrightarrow> carried hold (replicate n t) = {#}"
  unfolding carried_def by (induction n) auto

lemma size_carried:
  assumes "\<And>t. size (hold t) \<le> 1"
  shows "size (carried hold ts) \<le> length ts"
proof (induction ts)
  case (Cons t ts)
  then show ?case using assms [of t] by (simp add: carried_def)
qed (simp add: carried_def)

section \<open>The turnstile\<close>

lemma of_nat_u8_window:
  assumes "(of_nat k :: u8) = of_nat e" and "e \<le> k" and "k < e + 256"
  shows "k = e"
proof -
  have "k mod 256 = e mod 256"
    using arg_cong [OF assms(1), of unat] by (simp add: unat_of_nat)
  then have "(k - e) mod 256 = 0"
    using mod_eq_dvd_iff_nat [OF assms(2), of 256] by (simp add: dvd_eq_mod_eq_0)
  then show ?thesis using assms(2,3) by simp
qed

locale turnstile =
  fixes step :: "'s \<Rightarrow> 's \<Rightarrow> bool"
    and queue :: "'s \<Rightarrow> (u8 \<times> 'o) list"      \<comment> \<open>jobs not yet taken, with the result they will give\<close>
    and held :: "'s \<Rightarrow> (u8 \<times> 'o) multiset"   \<comment> \<open>jobs in the hands of a thread\<close>
    and turn :: "'s \<Rightarrow> u8"
    and out :: "'s \<Rightarrow> 'o list"
    and ok :: "'s \<Rightarrow> bool"
  assumes step_cases: "ok s \<Longrightarrow> step s s' \<Longrightarrow>
      (\<exists>j. queue s = j # queue s' \<and> held s' = add_mset j (held s) \<and> turn s' = turn s \<and> out s' = out s)
    \<or> (\<exists>r. (turn s, r) \<in># held s \<and> held s' = held s - {#(turn s, r)#} \<and> queue s' = queue s
           \<and> turn s' = turn s + 1 \<and> out s' = out s @ [r])
    \<or> (queue s' = queue s \<and> held s' = held s \<and> turn s' = turn s \<and> out s' = out s)"
    and step_ok: "ok s \<Longrightarrow> step s s' \<Longrightarrow> ok s'"
    and few: "ok s \<Longrightarrow> size (held s) \<le> 255"
begin

text \<open>
  The invariant, for jobs \<open>J\<close> numbered from \<open>b\<close> on: the first \<open>e\<close> are out, the next ones up to \<open>t\<close>
  are in hand, the rest is queued.
\<close>

definition ordered :: "'o list \<Rightarrow> u8 \<Rightarrow> (u8 \<times> 'o) list \<Rightarrow> nat \<Rightarrow> nat \<Rightarrow> 's \<Rightarrow> bool" where
  "ordered o0 b J e t s \<longleftrightarrow> e \<le> t \<and> t \<le> length J
     \<and> (\<forall>k < length J. fst (J ! k) = b + of_nat k)
     \<and> queue s = drop t J
     \<and> held s = mset (map ((!) J) [e..<t])
     \<and> turn s = b + of_nat e
     \<and> out s = o0 @ map snd (take e J)"

lemma ordered_turn:
  assumes "ordered o0 b J e t s" and "ok s" and "(turn s, r) \<in># held s"
  shows "e < t \<and> J ! e = (turn s, r)"
proof -
  from assms(1,3) obtain k where k: "e \<le> k" "k < t" "J ! k = (turn s, r)"
    by (auto simp: ordered_def)
  have "size (held s) = t - e" using assms(1) by (simp add: ordered_def)
  then have "t - e \<le> 255" using few [OF assms(2)] by simp
  moreover have "k < length J" using k(2) assms(1) by (simp add: ordered_def)
  then have "fst (J ! k) = b + of_nat k" "turn s = b + of_nat e"
    using assms(1) by (simp_all add: ordered_def)
  then have "(of_nat k :: u8) = of_nat e" using k(3) by simp
  ultimately have "k = e" using k by (intro of_nat_u8_window) auto
  then show ?thesis using k by simp
qed

lemma ordered_step:
  assumes "ordered o0 b J e t s" and "ok s" and "step s s'"
  shows "\<exists>e' t'. ordered o0 b J e' t' s' \<and> e \<le> e' \<and> t \<le> t'"
proof -
  from step_cases [OF assms(2,3)] consider
    (take) j where "queue s = j # queue s'" "held s' = add_mset j (held s)" "turn s' = turn s" "out s' = out s"
  | (send) r where "(turn s, r) \<in># held s" "held s' = held s - {#(turn s, r)#}" "queue s' = queue s"
      "turn s' = turn s + 1" "out s' = out s @ [r]"
  | (idle) "queue s' = queue s" "held s' = held s" "turn s' = turn s" "out s' = out s"
    by blast
  then show ?thesis
  proof cases
    case take
    have d: "drop t J = j # queue s'" using assms(1) take by (simp add: ordered_def)
    then have t: "t < length J" by (metis drop_all list.distinct(1) not_le)
    with d have "J ! t = j" "queue s' = drop (Suc t) J"
      by (metis Cons_nth_drop_Suc list.inject)+
    then have "ordered o0 b J e (Suc t) s'"
      using assms(1) take t by (auto simp: ordered_def)
    then show ?thesis by (intro exI [of _ e] exI [of _ "Suc t"]) simp
  next
    case send
    from ordered_turn [OF assms(1,2) send(1)] have et: "e < t" and Je: "J ! e = (turn s, r)"
      by simp_all
    have "held s = add_mset (J ! e) (mset (map ((!) J) [Suc e..<t]))"
      using assms(1) et by (simp add: ordered_def upt_conv_Cons)
    moreover have "e < length J" using et assms(1) by (simp add: ordered_def)
    ultimately have "ordered o0 b J (Suc e) t s'"
      using assms(1) send et Je by (auto simp: ordered_def take_Suc_conv_app_nth ac_simps)
    then show ?thesis by (intro exI [of _ "Suc e"] exI [of _ t]) simp
  next
    case idle
    then have "ordered o0 b J e t s'" using assms(1) by (simp add: ordered_def)
    then show ?thesis by blast
  qed
qed

lemma ordered_run:
  assumes "step\<^sup>*\<^sup>* s s'" and "ok s" and "ordered o0 b J e t s"
  shows "ok s' \<and> (\<exists>e' t'. ordered o0 b J e' t' s')"
  using assms
proof (induction rule: rtranclp_induct)
  case base
  then show ?case by blast
next
  case (step y z)
  then show ?case using ordered_step step_ok by blast
qed

lemma run_ok: "step\<^sup>*\<^sup>* s s' \<Longrightarrow> ok s \<Longrightarrow> ok s'"
  by (induction rule: rtranclp_induct) (use step_ok in blast)+

lemma ordered_init:
  assumes "held s = {#}" and "\<forall>k < length (queue s). fst (queue s ! k) = turn s + of_nat k"
  shows "ordered (out s) (turn s) (queue s) 0 0 s"
  using assms by (simp add: ordered_def)

text \<open>Whatever the schedule: the results so far are those of the first jobs, in order.\<close>

lemma run_in_order:
  assumes "step\<^sup>*\<^sup>* s s'" and "ok s" and "held s = {#}"
    and "\<forall>k < length (queue s). fst (queue s ! k) = turn s + of_nat k"
  shows "\<exists>e \<le> length (queue s). out s' = out s @ map snd (take e (queue s))
     \<and> turn s' = turn s + of_nat e
     \<and> length (queue s) = e + size (held s') + length (queue s')"
proof -
  from ordered_run [OF assms(1,2) ordered_init [OF assms(3,4)]]
  obtain e t where o: "ordered (out s) (turn s) (queue s) e t s'" by blast
  then show ?thesis
    by (intro exI [of _ e]) (auto simp: ordered_def)
qed

text \<open>No deadlock at the turnstile: some thread always holds the job whose turn it is.\<close>

lemma turn_is_held:
  assumes "step\<^sup>*\<^sup>* s s'" and "ok s" and "held s = {#}"
    and "\<forall>k < length (queue s). fst (queue s ! k) = turn s + of_nat k"
    and "held s' \<noteq> {#}"
  shows "\<exists>r. (turn s', r) \<in># held s'"
proof -
  from ordered_run [OF assms(1,2) ordered_init [OF assms(3,4)]]
  obtain e t where o: "ordered (out s) (turn s) (queue s) e t s'" by blast
  have "size (held s') = t - e" using o by (simp add: ordered_def)
  with assms(5) have "e < t" by (metis nonempty_has_size zero_less_diff)
  then have "queue s ! e \<in># held s'" "e < length (queue s)" using o by (auto simp: ordered_def)
  moreover from this(2) have "fst (queue s ! e) = turn s'" using o by (simp add: ordered_def)
  ultimately show ?thesis by (metis prod.collapse)
qed

end

text \<open>
  A pool that cannot get stuck: whoever holds the job whose turn it is can pass, a pool with empty
  hands can take a job, and every step uses up work. Then every maximal schedule delivers all jobs.
\<close>

locale live_turnstile = turnstile step queue held turn out ok
  for step :: "'s \<Rightarrow> 's \<Rightarrow> bool"
    and queue :: "'s \<Rightarrow> (u8 \<times> 'o) list"
    and held :: "'s \<Rightarrow> (u8 \<times> 'o) multiset"
    and turn :: "'s \<Rightarrow> u8"
    and out :: "'s \<Rightarrow> 'o list"
    and ok :: "'s \<Rightarrow> bool" +
  fixes work :: "'s \<Rightarrow> nat"
  assumes can_pass: "ok s \<Longrightarrow> (turn s, r) \<in># held s \<Longrightarrow> \<exists>s'. step s s'"
    and can_take: "ok s \<Longrightarrow> held s = {#} \<Longrightarrow> queue s \<noteq> [] \<Longrightarrow> \<exists>s'. step s s'"
    and step_work: "ok s \<Longrightarrow> step s s' \<Longrightarrow> work s' < work s"
begin

lemma stuck_done:
  assumes "step\<^sup>*\<^sup>* s s'" and "ok s" and "held s = {#}"
    and "\<forall>k < length (queue s). fst (queue s ! k) = turn s + of_nat k"
    and stuck: "\<not> (\<exists>t. step s' t)"
  shows "queue s' = [] \<and> held s' = {#} \<and> out s' = out s @ map snd (queue s)
    \<and> turn s' = turn s + of_nat (length (queue s))"
proof -
  have ok: "ok s'" using run_ok assms(1,2) by blast
  have empty: "held s' = {#}"
    using turn_is_held [OF assms(1-4)] can_pass [OF ok] stuck by blast
  moreover from this have "queue s' = []" using can_take [OF ok] stuck by blast
  ultimately show ?thesis using run_in_order [OF assms(1-4)] by auto
qed

lemma run_bounded: "(step ^^ k) s s' \<Longrightarrow> ok s \<Longrightarrow> k + work s' \<le> work s"
proof (induction k arbitrary: s')
  case 0
  then show ?case by simp
next
  case (Suc k)
  then obtain y where y: "(step ^^ k) s y" "step y s'" by auto
  from run_ok [OF relpowp_imp_rtranclp [OF y(1)] Suc.prems(2)] have "ok y" .
  then show ?case using Suc.IH [OF y(1) Suc.prems(2)] step_work [OF _ y(2)] by simp
qed

lemma completes: "ok s \<Longrightarrow> \<exists>s'. step\<^sup>*\<^sup>* s s' \<and> \<not> (\<exists>t. step s' t)"
proof (induction "work s" arbitrary: s rule: less_induct)
  case less
  show ?case
  proof (cases "\<exists>t. step s t")
    case True
    then obtain t where t: "step s t" ..
    have "ok t" using run_ok [OF r_into_rtranclp [of step, OF t] less.prems] .
    from less.hyps [OF step_work [OF less.prems t] this] t show ?thesis
      by (meson converse_rtranclp_into_rtranclp)
  next
    case False
    then show ?thesis by blast
  qed
qed

end

end
