(* ===== verification/Send_Pipeline.thy ===== *)
theory Send_Pipeline
  imports Send_Client Turnstile
begin

text \<open>
  \<open>src/send/ordering.rs\<close>, \<open>src/send/encoding.rs\<close>, \<open>src/send/udp.rs\<close> and \<open>src/send/mod.rs\<close>: from the
  channel of blocks to the wire.

  The ordering worker numbers the blocks modulo 256. The encoding threads are a pool: a step of the
  pool is what one thread does without releasing the mutex of \<open>block_to_send\<close> (take a job and
  encode it; wait for its turn, send the packets and advance the counter; stop). Any interleaving
  of the threads is a sequence of such steps. The pool is an instance of the turnstile. The UDP worker
  puts the packets on the wire, and after the stop message \<open>None\<close> waits for one more of them per
  further encoding thread.
\<close>

section \<open>The ordering worker\<close>

datatype 'pkt pipe_event =
    ToEncoding "(u8 \<times> block) option"
  | ToSend "'pkt list option"

fun ordering_step ::
  "u8 \<Rightarrow> ('pkt pipe_event \<Rightarrow> bool) \<times> block option recv \<Rightarrow> ('pkt pipe_event, send_error, (u8, unit) flow) act"
where
  "ordering_step bid (up, Msg (Some block)) =
     bind_act (emit up S_SendBlock (ToEncoding (Some (bid, block)))) (\<lambda>_. ret (Continue (bid + 1)))"
| "ordering_step bid (up, Msg None) =
     bind_act (emit up S_SendUdp (ToSend None)) (\<lambda>_. ret (Return ()))"
| "ordering_step bid (up, Disconnected) = lift (Err S_Receive)"
| "ordering_step bid (up, Timeout) = ret (Continue bid)" \<comment> \<open>\<open>recv\<close> has no timeout\<close>

definition ordering_start ::
  "(('pkt pipe_event \<Rightarrow> bool) \<times> block option recv) list \<Rightarrow> ('pkt pipe_event, send_error, (u8, unit) flow) act"
where
  "ordering_start inputs = run ordering_step 0 inputs"

text \<open>The numbered jobs made of a list of blocks (or of anything else).\<close>

fun numbered :: "u8 \<Rightarrow> 'a list \<Rightarrow> (u8 \<times> 'a) list" where
  "numbered bid [] = []"
| "numbered bid (b # bs) = (bid, b) # numbered (bid + 1) bs"

lemma length_numbered [simp]: "length (numbered bid bs) = length bs"
  by (induction bs arbitrary: bid) auto

lemma nth_numbered: "k < length bs \<Longrightarrow> numbered bid bs ! k = (bid + of_nat k, bs ! k)"
  by (induction bs arbitrary: bid k) (auto simp: nth_Cons ac_simps split: nat.splits)

lemma ordering_run:
  "run ordering_step bid (map (\<lambda>b. (\<lambda>_. True, Msg (Some b))) bs)
    = (map (\<lambda>j. ToEncoding (Some j)) (numbered bid bs), Ok (Continue (bid + of_nat (length bs))))"
  by (induction bs arbitrary: bid) (simp_all add: ret_def emit_def ac_simps)

section \<open>The encoding threads\<close>

datatype 'pkt enc_thread =
    Idle                        \<comment> \<open>in \<open>for_encoding.recv()\<close>\<close>
  | Holding u8 "'pkt list"      \<comment> \<open>has encoded, waits for its turn\<close>
  | Stopping                    \<comment> \<open>has received \<open>None\<close>, about to send it on\<close>
  | Stopped                     \<comment> \<open>returned \<open>Ok\<close>\<close>
  | Failed send_error
  | Crashed

record 'pkt enc_pool =
  enc_in :: "(u8 \<times> block) option list"
  threads :: "'pkt enc_thread list"
  block_to_send :: u8
  to_send :: "'pkt list option list"

text \<open>
  The next step of thread \<open>i\<close>, \<open>None\<close> while it has to wait; \<open>up\<close> tells whether the channel
  \<open>to_send\<close> is open.
\<close>

definition enc_thread_step ::
  "('plan, 'cfg, 'pkt) raptorq_lib \<Rightarrow> ('plan, 'cfg) raptorq \<Rightarrow> bool \<Rightarrow> nat \<Rightarrow> 'pkt enc_pool \<Rightarrow>
   'pkt enc_pool option"
where
  "enc_thread_step lib rq up i s =
     (if i < length (threads s) then
        (case threads s ! i of
           Idle \<Rightarrow>
             (case enc_in s of
                [] \<Rightarrow> None
              | None # rest \<Rightarrow> Some (s\<lparr>enc_in := rest, threads := (threads s)[i := Stopping]\<rparr>)
              | Some (bid, block) # rest \<Rightarrow> Some (s\<lparr>enc_in := rest,
                  threads := (threads s)[i :=
                    case (block_client_id block :: (send_error, client_id) res) of
                      Ok _ \<Rightarrow> Holding bid (encode lib rq bid (serialized block))
                    | _ \<Rightarrow> Crashed]\<rparr>))
         | Holding bid packets \<Rightarrow>
             (if bid \<noteq> block_to_send s then None
              else if up then Some (s\<lparr>to_send := to_send s @ [Some packets],
                     block_to_send := block_to_send s + 1, threads := (threads s)[i := Idle]\<rparr>)
              else Some (s\<lparr>threads := (threads s)[i := Failed S_SendUdp]\<rparr>))
         | Stopping \<Rightarrow>
             (if up then Some (s\<lparr>to_send := to_send s @ [None], threads := (threads s)[i := Stopped]\<rparr>)
              else Some (s\<lparr>threads := (threads s)[i := Failed S_SendUdp]\<rparr>))
         | _ \<Rightarrow> None)
      else None)"

inductive pool_step ::
  "('plan, 'cfg, 'pkt) raptorq_lib \<Rightarrow> ('plan, 'cfg) raptorq \<Rightarrow> bool \<Rightarrow> 'pkt enc_pool \<Rightarrow> 'pkt enc_pool \<Rightarrow> bool"
  for lib rq up
where
  thread: "enc_thread_step lib rq up i s = Some s' \<Longrightarrow> pool_step lib rq up s s'"

inductive_simps pool_step_iff: "pool_step lib rq up s s'"

definition pool_start :: "u8 \<Rightarrow> (u8 \<times> block) option list \<Rightarrow> 'pkt enc_pool" where
  "pool_start nb_threads jobs =
     \<lparr>enc_in = jobs, threads = replicate (unat nb_threads) Idle, block_to_send = 0, to_send = []\<rparr>"

text \<open>What the turnstile sees of the pool.\<close>

definition job_result ::
  "('plan, 'cfg, 'pkt) raptorq_lib \<Rightarrow> ('plan, 'cfg) raptorq \<Rightarrow> u8 \<times> block \<Rightarrow> u8 \<times> 'pkt list"
where
  "job_result lib rq = (\<lambda>(bid, block). (bid, encode lib rq bid (serialized block)))"

fun somes :: "'a option list \<Rightarrow> 'a list" where
  "somes [] = []"
| "somes (None # xs) = somes xs"
| "somes (Some x # xs) = x # somes xs"

fun hold :: "'pkt enc_thread \<Rightarrow> (u8 \<times> 'pkt list) multiset" where
  "hold (Holding bid packets) = {#(bid, packets)#}"
| "hold _ = {#}"

definition in_hand :: "'pkt enc_pool \<Rightarrow> (u8 \<times> 'pkt list) multiset" where
  "in_hand s = carried hold (threads s)"

definition pool_ok :: "'pkt enc_pool \<Rightarrow> bool" where
  "pool_ok s \<longleftrightarrow> length (threads s) \<le> 255 \<and> (\<forall>(bid, b) \<in> set (somes (enc_in s)). 4 \<le> length (serialized b))"

lemma somes_append [simp]: "somes (xs @ ys) = somes xs @ somes ys"
  by (induction xs rule: somes.induct) auto

lemma somes_map_Some [simp]: "somes (map Some xs) = xs"
  by (induction xs) auto

lemma count_list_map_Some: "count_list (map Some xs) None = 0"
  by (induction xs) auto

lemma length_somes: "None \<notin> set xs \<Longrightarrow> length (somes xs) = length xs"
  by (induction xs rule: somes.induct) auto

lemma size_in_hand: "size (in_hand s) \<le> length (threads s)"
proof -
  have "size (hold t) \<le> 1" for t :: "'a enc_thread" by (cases t) auto
  then show ?thesis unfolding in_hand_def by (rule size_carried)
qed

lemma client_id_ok: "4 \<le> length (serialized b) \<Longrightarrow> \<exists>c. (block_client_id b :: ('e, client_id) res) = Ok c"
  by (cases "serialized b") (auto simp: block_client_id_def index_def)

text \<open>The three moves of a thread, with what each changes.\<close>

lemma thread_step_take:
  assumes "i < length (threads s)" and "threads s ! i = Idle" and "enc_in s = Some (bid, b) # rest"
    and "4 \<le> length (serialized b)"
  shows "enc_thread_step lib rq up i s = Some (s\<lparr>enc_in := rest,
      threads := (threads s)[i := Holding bid (encode lib rq bid (serialized b))]\<rparr>)"
  using assms client_id_ok [where 'e = send_error, OF assms(4)] by (auto simp: enc_thread_step_def)

lemma thread_step_cases:
  assumes "enc_thread_step lib rq True i s = Some s'" and "pool_ok s"
  obtains
    (take) bid b rest where "i < length (threads s)" "threads s ! i = Idle" "enc_in s = Some (bid, b) # rest"
      "s' = s\<lparr>enc_in := rest, threads := (threads s)[i := Holding bid (encode lib rq bid (serialized b))]\<rparr>"
  | (stop) rest where "i < length (threads s)" "threads s ! i = Idle" "enc_in s = None # rest"
      "s' = s\<lparr>enc_in := rest, threads := (threads s)[i := Stopping]\<rparr>"
  | (stopped) "i < length (threads s)" "threads s ! i = Stopping"
      "s' = s\<lparr>to_send := to_send s @ [None], threads := (threads s)[i := Stopped]\<rparr>"
  | (send) packets where "i < length (threads s)" "threads s ! i = Holding (block_to_send s) packets"
      "s' = s\<lparr>to_send := to_send s @ [Some packets], block_to_send := block_to_send s + 1,
        threads := (threads s)[i := Idle]\<rparr>"
proof (cases "threads s ! i")
  case Idle
  show ?thesis
  proof (cases "enc_in s")
    case Nil
    then show ?thesis using assms Idle by (auto simp: enc_thread_step_def split: if_splits)
  next
    case (Cons m rest)
    show ?thesis
    proof (cases m)
      case None
      then show ?thesis
        using assms Idle Cons stop by (auto simp: enc_thread_step_def split: if_splits)
    next
      case (Some j)
      obtain bid b where j: "j = (bid, b)" by (cases j)
      have "4 \<le> length (serialized b)" using assms(2) Cons Some j by (auto simp: pool_ok_def)
      moreover have "i < length (threads s)"
        using assms(1) by (simp add: enc_thread_step_def split: if_splits)
      ultimately show ?thesis
        using thread_step_take [of i s bid b rest lib rq True] take Idle Cons Some j assms(1) by simp
    qed
  qed
next
  case (Holding bid packets)
  then show ?thesis using assms send by (auto simp: enc_thread_step_def split: if_splits)
next
  case Stopping
  then show ?thesis using assms stopped by (auto simp: enc_thread_step_def split: if_splits)
qed (use assms in \<open>auto simp: enc_thread_step_def split: if_splits\<close>)

interpretation encoder_threads: turnstile "pool_step lib rq True" "\<lambda>s. map (job_result lib rq) (somes (enc_in s))"
    in_hand block_to_send "\<lambda>s. somes (to_send s)" pool_ok
  for lib :: "('plan, 'cfg, 'pkt) raptorq_lib" and rq :: "('plan, 'cfg) raptorq"
proof
  fix s s' :: "'pkt enc_pool"
  assume ok: "pool_ok s" and "pool_step lib rq True s s'"
  then obtain i where st: "enc_thread_step lib rq True i s = Some s'" by (auto simp: pool_step_iff)
  from st ok show "(\<exists>j. map (job_result lib rq) (somes (enc_in s)) = j # map (job_result lib rq) (somes (enc_in s'))
        \<and> in_hand s' = add_mset j (in_hand s)
        \<and> block_to_send s' = block_to_send s \<and> somes (to_send s') = somes (to_send s))
    \<or> (\<exists>r. (block_to_send s, r) \<in># in_hand s \<and> in_hand s' = in_hand s - {#(block_to_send s, r)#}
        \<and> map (job_result lib rq) (somes (enc_in s')) = map (job_result lib rq) (somes (enc_in s))
        \<and> block_to_send s' = block_to_send s + 1 \<and> somes (to_send s') = somes (to_send s) @ [r])
    \<or> (map (job_result lib rq) (somes (enc_in s')) = map (job_result lib rq) (somes (enc_in s))
        \<and> in_hand s' = in_hand s \<and> block_to_send s' = block_to_send s
        \<and> somes (to_send s') = somes (to_send s))"
  proof (cases rule: thread_step_cases)
    case (take bid b rest)
    then have "in_hand s' = add_mset (job_result lib rq (bid, b)) (in_hand s)"
      by (simp add: job_result_def in_hand_def carried_add)
    then show ?thesis using take by (simp add: job_result_def)
  next
    case (stop rest)
    then have "in_hand s' = in_hand s" by (simp add: in_hand_def carried_same)
    then show ?thesis using stop by simp
  next
    case stopped
    then have "in_hand s' = in_hand s" by (simp add: in_hand_def carried_same)
    then show ?thesis using stopped by simp
  next
    case (send packets)
    then have "(block_to_send s, packets) \<in># in_hand s \<and> in_hand s' = in_hand s - {#(block_to_send s, packets)#}"
      using carried_remove [of i "threads s" hold "(block_to_send s, packets)" Idle] by (simp add: in_hand_def)
    then show ?thesis using send by auto
  qed
  from st ok show "pool_ok s'"
    by (cases rule: thread_step_cases) (use ok in \<open>auto simp: pool_ok_def\<close>)
next
  fix s :: "'pkt enc_pool" assume "pool_ok s"
  then show "size (in_hand s) \<le> 255" using size_in_hand [of s] by (simp add: pool_ok_def)
qed

section \<open>Progress of the encoding threads\<close>

text \<open>Blocks that only pass through: a pool without stop messages keeps all its threads.\<close>

definition pool_live :: "nat \<Rightarrow> 'pkt enc_pool \<Rightarrow> bool" where
  "pool_live n s \<longleftrightarrow> length (threads s) = n \<and> None \<notin> set (enc_in s)
     \<and> (\<forall>t \<in> set (threads s). t = Idle \<or> (\<exists>bid packets. t = Holding bid packets))
     \<and> to_send s = map Some (somes (to_send s))"

definition pool_work :: "'pkt enc_pool \<Rightarrow> nat" where
  "pool_work s = 2 * length (enc_in s) + size (in_hand s) + count_list (threads s) Stopping"

lemma count_list_update:
  "i < length xs \<Longrightarrow> xs ! i \<noteq> y \<Longrightarrow> x \<noteq> y \<Longrightarrow> count_list (xs[i := x]) y = count_list xs y"
  "i < length xs \<Longrightarrow> xs ! i = y \<Longrightarrow> x \<noteq> y \<Longrightarrow> Suc (count_list (xs[i := x]) y) = count_list xs y"
  "i < length xs \<Longrightarrow> xs ! i \<noteq> y \<Longrightarrow> count_list (xs[i := y]) y = Suc (count_list xs y)"
  by (induction xs arbitrary: i) (auto split: nat.splits)

lemma pool_live_step:
  assumes "pool_step lib rq True s s'" and "pool_ok s" and "pool_live n s"
  shows "pool_live n s'"
proof -
  obtain i where "enc_thread_step lib rq True i s = Some s'"
    using assms(1) by (auto simp: pool_step_iff)
  then show ?thesis
    using assms(2)
  proof (cases rule: thread_step_cases)
    case stopped
    then have "Stopping \<in> set (threads s)" by (metis nth_mem)
    then show ?thesis using assms(3) by (auto simp: pool_live_def)
  qed (use assms(3) in \<open>auto simp: pool_live_def dest: set_update_subset_insert [THEN subsetD]\<close>)
qed

lemma pool_work_step:
  assumes "pool_step lib rq True s s'" and "pool_ok s"
  shows "pool_work s' < pool_work s"
proof -
  obtain i where "enc_thread_step lib rq True i s = Some s'"
    using assms(1) by (auto simp: pool_step_iff)
  then show ?thesis
    using assms(2)
  proof (cases rule: thread_step_cases)
    case (take bid b rest)
    then have "in_hand s' = add_mset (bid, encode lib rq bid (serialized b)) (in_hand s)"
      by (simp add: in_hand_def carried_add)
    then show ?thesis using take by (simp add: pool_work_def count_list_update)
  next
    case (stop rest)
    then have "in_hand s' = in_hand s" by (simp add: in_hand_def carried_same)
    then show ?thesis using stop by (simp add: pool_work_def count_list_update)
  next
    case stopped
    then have "in_hand s' = in_hand s" by (simp add: in_hand_def carried_same)
    then show ?thesis
      using stopped count_list_update(2) [of i "threads s" Stopping Stopped] by (simp add: pool_work_def)
  next
    case (send packets)
    then have "(block_to_send s, packets) \<in># in_hand s \<and> in_hand s' = in_hand s - {#(block_to_send s, packets)#}"
      using carried_remove [of i "threads s" hold "(block_to_send s, packets)" Idle] by (simp add: in_hand_def)
    then have "size (in_hand s') < size (in_hand s)" by (metis size_Diff1_less)
    then show ?thesis using send by (simp add: pool_work_def count_list_update)
  qed
qed

lemma in_hand_member:
  "j \<in># in_hand s \<Longrightarrow> \<exists>i < length (threads s). threads s ! i = Holding (fst j) (snd j)"
proof -
  assume "j \<in># in_hand s"
  then obtain i where i: "i < length (threads s)" "j \<in># hold (threads s ! i)"
    using carried_member [of j hold "threads s"] unfolding in_hand_def by blast
  then have "threads s ! i = Holding (fst j) (snd j)" by (cases "threads s ! i") auto
  with i show ?thesis by blast
qed

lemma in_hand_empty: "in_hand s = {#} \<Longrightarrow> t \<in> set (threads s) \<Longrightarrow> hold t = {#}"
  unfolding in_hand_def by (rule carried_empty)

definition numbered_jobs :: "block list \<Rightarrow> (u8 \<times> block) option list" where
  "numbered_jobs bs = map Some (numbered 0 bs)"

lemma ordering_jobs:
  "fst (ordering_start (map (\<lambda>b. (\<lambda>_. True, Msg (Some b))) bs)) = map ToEncoding (numbered_jobs bs)"
  by (simp add: ordering_start_def ordering_run numbered_jobs_def)

lemma ordering_jobs_unique:
  assumes "fst (ordering_start (map (\<lambda>b. (\<lambda>_. True, Msg (Some b))) bs)) = (map ToEncoding jobs :: 'pkt pipe_event list)"
  shows "jobs = numbered_jobs bs"
proof -
  have "inj (ToEncoding :: _ \<Rightarrow> 'pkt pipe_event)" by (simp add: inj_def)
  then show ?thesis using assms ordering_jobs [of bs] by (metis inj_map_eq_map)
qed

definition encoded :: "('plan, 'cfg, 'pkt) raptorq_lib \<Rightarrow> ('plan, 'cfg) raptorq \<Rightarrow> block list \<Rightarrow> 'pkt list list"
where
  "encoded lib rq bs = map (\<lambda>(bid, b). encode lib rq bid (serialized b)) (numbered 0 bs)"

lemma pool_start_ok:
  assumes "\<forall>b \<in> set bs. 4 \<le> length (serialized b)"
  shows "pool_ok (pool_start n (numbered_jobs bs))"
    and "pool_live (unat n) (pool_start n (numbered_jobs bs))"
    and "in_hand (pool_start n (numbered_jobs bs)) = {#}"
proof -
  have "(bid, b) \<in> set (numbered k bs) \<Longrightarrow> b \<in> set bs" for bid b k
    by (induction bs arbitrary: k) auto
  then show "pool_ok (pool_start n (numbered_jobs bs))"
    using assms unat_u8_less [of n] by (fastforce simp: pool_ok_def pool_start_def numbered_jobs_def)
  show "pool_live (unat n) (pool_start n (numbered_jobs bs))"
    by (auto simp: pool_live_def pool_start_def numbered_jobs_def)
  show "in_hand (pool_start n (numbered_jobs bs)) = {#}"
    by (simp add: in_hand_def pool_start_def carried_replicate)
qed

lemma pool_start_encoded:
  "map snd (map (job_result lib rq) (somes (enc_in (pool_start n (numbered_jobs bs))))) = encoded lib rq bs"
  by (auto simp: pool_start_def numbered_jobs_def encoded_def job_result_def)

lemma pool_numbers:
  "\<forall>k < length (map (job_result lib rq) (somes (enc_in (pool_start n (numbered_jobs bs))))).
     fst (map (job_result lib rq) (somes (enc_in (pool_start n (numbered_jobs bs)))) ! k)
       = block_to_send (pool_start n (numbered_jobs bs)) + of_nat k"
  by (simp add: pool_start_def numbered_jobs_def nth_numbered job_result_def)

definition pool_fit :: "'pkt enc_pool \<Rightarrow> bool" where
  "pool_fit s \<longleftrightarrow> pool_ok s \<and> (\<exists>n > 0. pool_live n s)"

interpretation encoders: live_turnstile "pool_step lib rq True" "\<lambda>s. map (job_result lib rq) (somes (enc_in s))"
    in_hand block_to_send "\<lambda>s. somes (to_send s)" pool_fit pool_work
  for lib :: "('plan, 'cfg, 'pkt) raptorq_lib" and rq :: "('plan, 'cfg) raptorq"
proof
  fix s s' :: "'pkt enc_pool"
  assume fit: "pool_fit s" and st: "pool_step lib rq True s s'"
  then have ok: "pool_ok s" by (simp add: pool_fit_def)
  from encoder_threads.step_cases [OF ok st]
  show "(\<exists>j. map (job_result lib rq) (somes (enc_in s)) = j # map (job_result lib rq) (somes (enc_in s'))
        \<and> in_hand s' = add_mset j (in_hand s)
        \<and> block_to_send s' = block_to_send s \<and> somes (to_send s') = somes (to_send s))
    \<or> (\<exists>r. (block_to_send s, r) \<in># in_hand s \<and> in_hand s' = in_hand s - {#(block_to_send s, r)#}
        \<and> map (job_result lib rq) (somes (enc_in s')) = map (job_result lib rq) (somes (enc_in s))
        \<and> block_to_send s' = block_to_send s + 1 \<and> somes (to_send s') = somes (to_send s) @ [r])
    \<or> (map (job_result lib rq) (somes (enc_in s')) = map (job_result lib rq) (somes (enc_in s))
        \<and> in_hand s' = in_hand s \<and> block_to_send s' = block_to_send s
        \<and> somes (to_send s') = somes (to_send s))" .
  from fit st show "pool_fit s'"
    using encoder_threads.step_ok [OF ok st] pool_live_step [OF st ok] by (auto simp: pool_fit_def)
  show "pool_work s' < pool_work s" by (rule pool_work_step [OF st ok])
next
  fix s :: "'pkt enc_pool"
  assume fit: "pool_fit s"
  then have ok: "pool_ok s" by (simp add: pool_fit_def)
  then show "size (in_hand s) \<le> 255" by (rule encoder_threads.few)
  show "\<exists>s'. pool_step lib rq True s s'" if "(block_to_send s, r) \<in># in_hand s" for r
  proof -
    from in_hand_member [OF that] obtain i where
      "i < length (threads s)" "threads s ! i = Holding (block_to_send s) r" by auto
    then have "enc_thread_step lib rq True i s = Some (s\<lparr>to_send := to_send s @ [Some r],
        block_to_send := block_to_send s + 1, threads := (threads s)[i := Idle]\<rparr>)"
      by (simp add: enc_thread_step_def)
    then show ?thesis by (auto simp: pool_step_iff)
  qed
  show "\<exists>s'. pool_step lib rq True s s'"
    if empty: "in_hand s = {#}" and "map (job_result lib rq) (somes (enc_in s)) \<noteq> []"
  proof -
    obtain n where live: "0 < n" "pool_live n s" using fit by (auto simp: pool_fit_def)
    from that obtain m rest where m: "enc_in s = m # rest" by (cases "enc_in s") auto
    have "m \<noteq> None" using live m unfolding pool_live_def by (metis list.set_intros(1))
    then obtain bid b where j: "enc_in s = Some (bid, b) # rest" using m by fastforce
    have len: "4 \<le> length (serialized b)" using ok j by (auto simp: pool_ok_def)
    have 0: "0 < length (threads s)" using live by (simp add: pool_live_def)
    then have "threads s ! 0 \<in> set (threads s)" by simp
    moreover from in_hand_empty [OF empty this] have "hold (threads s ! 0) = {#}" .
    ultimately have "threads s ! 0 = Idle" using live by (fastforce simp: pool_live_def)
    from thread_step_take [OF 0 this j len, of lib rq True] show ?thesis
      by (auto simp: pool_step_iff)
  qed
qed

lemma pool_start_fit:
  assumes "\<forall>b \<in> set bs. 4 \<le> length (serialized b)" and "0 < n"
  shows "pool_fit (pool_start n (numbered_jobs bs))"
proof -
  have "0 < unat n" using assms(2) by (simp add: word_less_nat_alt)
  then show ?thesis using pool_start_ok(1,2) [OF assms(1), of n] unfolding pool_fit_def by blast
qed

text \<open>However the threads are scheduled, the packets leave in the order of the blocks.\<close>

lemma pool_results:
  assumes run: "(pool_step lib rq True)\<^sup>*\<^sup>* (pool_start n (numbered_jobs bs)) s"
    and long: "\<forall>b \<in> set bs. 4 \<le> length (serialized b)" and "0 < n"
  shows "\<exists>e \<le> length bs. to_send s = map Some (take e (encoded lib rq bs))"
    and "\<not> (\<exists>s'. pool_step lib rq True s s') \<Longrightarrow> to_send s = map Some (encoded lib rq bs)"
proof -
  note ini = pool_start_fit [OF long assms(3)] pool_start_ok(3) [OF long, of n]
  have "pool_fit s" using encoders.run_ok [OF run ini(1)] .
  then have some: "to_send s = map Some (somes (to_send s))" by (auto simp: pool_fit_def pool_live_def)
  from encoders.run_in_order [OF run ini pool_numbers]
  show "\<exists>e \<le> length bs. to_send s = map Some (take e (encoded lib rq bs))"
    using pool_start_encoded [of lib rq n bs] some
    by (auto simp: take_map [symmetric] pool_start_def numbered_jobs_def)
  show "to_send s = map Some (encoded lib rq bs)" if "\<not> (\<exists>s'. pool_step lib rq True s s')"
    using encoders.stuck_done [OF run ini pool_numbers that] pool_start_encoded [of lib rq n bs] some
    by (simp add: pool_start_def)
qed

section \<open>The UDP worker\<close>

definition act_map_err :: "('e \<Rightarrow> 'f) \<Rightarrow> ('o, 'e, 'a) act \<Rightarrow> ('o, 'f, 'a) act" where
  "act_map_err f m = (fst m, map_err f (snd m))"

text \<open>The answers of the socket calls made before the loop.\<close>

record socket_answers =
  sa_bind :: bool
  sa_set_nonblocking :: bool
  sa_setsockopt :: int
  sa_getsockopt :: "int \<times> 32 word"

definition io_check :: "bool \<Rightarrow> (io_error, unit) res" where
  "io_check b = (if b then Ok () else Err Io_failed)"

definition send_buffer_size :: "bool \<Rightarrow> ('plan, 'cfg) raptorq \<Rightarrow> u16 \<Rightarrow> (send_error, 32 word) res" where
  "send_buffer_size chk rq mtu =
     and_then (ok_or (S_Other (''nb_packets: '' @ try_from_int_error)) (i32_try_from (nb_packets rq))) (\<lambda>n.
     smul_chk chk n (ucast mtu))"

definition send_udp_init ::
  "bool \<Rightarrow> send_config \<Rightarrow> ('plan, 'cfg) raptorq \<Rightarrow> socket_answers \<Rightarrow> (send_error, udp_sender) res"
where
  "send_udp_init chk cfg rq sa =
     and_then (map_err S_Io (io_check (sa_bind sa))) (\<lambda>_.
     and_then (map_err S_Io (io_check (sa_set_nonblocking sa))) (\<lambda>_.
     and_then (send_buffer_size chk rq (s_to_mtu cfg)) (\<lambda>buffer_size.
     and_then (map_err S_Io (setsockopt_buffer_size (sa_setsockopt sa))) (\<lambda>_.
     and_then (map_err S_Io (getsockopt_buffer_size (fst (sa_getsockopt sa)) (snd (sa_getsockopt sa)))) (\<lambda>_.
     Ok (udp_send_new (s_to cfg) (s_batch_send cfg)))))))"

text \<open>In the loop, or after the first \<open>None\<close> in the inner loop with its \<open>count\<close>.\<close>

datatype udp_pc = Running | Draining u8

definition send_packets ::
  "('plan, 'cfg, 'pkt) raptorq_lib \<Rightarrow> udp_sender \<Rightarrow> udp_pc \<Rightarrow> (nat \<Rightarrow> int) \<Rightarrow> 'pkt list \<Rightarrow>
   (bytes, send_error, (udp_pc, unit) flow) act"
where
  "send_packets lib u pc ans packets =
     bind_act (act_map_err S_Io (udp_send lib u ans packets)) (\<lambda>_. ret (Continue pc))"

definition drain :: "u8 \<Rightarrow> (bytes, send_error, (udp_pc, unit) flow) act" where
  "drain left = (if 0 < left then ret (Continue (Draining left)) else ret (Return ()))"

fun send_udp_step ::
  "bool \<Rightarrow> send_config \<Rightarrow> ('plan, 'cfg, 'pkt) raptorq_lib \<Rightarrow> udp_sender \<Rightarrow> udp_pc \<Rightarrow>
   'pkt list option recv \<times> (nat \<Rightarrow> int) \<Rightarrow> (bytes, send_error, (udp_pc, unit) flow) act"
where
  "send_udp_step chk cfg lib u pc (Msg (Some packets), ans) = send_packets lib u pc ans packets"
| "send_udp_step chk cfg lib u Running (Msg None, ans) =
     bind_act (lift (sub_chk chk (s_nb_encode_threads cfg) 1)) drain"
| "send_udp_step chk cfg lib u (Draining left) (Msg None, ans) =
     bind_act (lift (sub_chk chk left 1)) drain"
| "send_udp_step chk cfg lib u pc (Disconnected, ans) = lift (Err S_Receive)"
| "send_udp_step chk cfg lib u pc (Timeout, ans) = ret (Continue pc)" \<comment> \<open>\<open>recv\<close> has no timeout\<close>

text \<open>The messages of the pipeline, each with the kernel's answers while it is sent.\<close>

definition wire :: "('plan, 'cfg, 'pkt) raptorq_lib \<Rightarrow> 'pkt list list \<Rightarrow> bytes list" where
  "wire lib gs = concat (map (map (rq_serialize lib)) gs)"

text \<open>Whatever the kernel answers and wherever stop messages come: what is on the wire is a beginning of the packets.\<close>

lemma udp_send_out:
  "\<exists>k. fst (udp_send lib u ans packets) = take k (map (rq_serialize lib) packets)"
  "snd (udp_send lib u ans packets) = Ok () \<Longrightarrow> fst (udp_send lib u ans packets) = map (rq_serialize lib) packets"
  unfolding udp_send_def by (rule sink.sent_prefix, rule sink.sent_all)

lemma send_udp_step_none: "fst (send_udp_step chk cfg lib u pc (Msg None, ans)) = []"
  by (cases pc) (simp_all add: sub_chk_def drain_def lift_def ret_def)

lemma send_udp_prefix:
  assumes "map fst inputs = map Msg ms"
  shows "\<exists>k. fst (run (send_udp_step chk cfg lib u) pc inputs) = take k (wire lib (somes ms))"
  using assms
proof (induction inputs arbitrary: pc ms)
  case Nil
  then show ?case by (simp add: ret_def)
next
  case (Cons input inputs)
  then obtain m ms' ans where ms: "ms = m # ms'" and input: "input = (Msg m, ans)" and rest: "map fst inputs = map Msg ms'"
    by (cases input; cases ms) auto
  note IH = Cons.IH [OF rest]
  show ?case
  proof (cases m)
    case None
    obtain r where st: "send_udp_step chk cfg lib u pc (Msg None, ans) = ([], r)"
      using send_udp_step_none [of chk cfg lib u pc ans] by (metis prod.collapse)
    show ?thesis
    proof (cases "\<exists>pc'. r = Ok (Continue pc')")
      case True
      then show ?thesis using IH st by (auto simp: ms input None)
    next
      case False
      then have "fst (run (send_udp_step chk cfg lib u) pc (input # inputs)) = []"
        using st by (cases r) (auto simp: input None ret_def split: flow.splits)
      then show ?thesis by (metis take_0)
    qed
  next
    case (Some ps)
    obtain os r where send: "udp_send lib u ans ps = (os, r)" by (cases "udp_send lib u ans ps")
    show ?thesis
    proof (cases "r = Ok ()")
      case True
      then have "os = map (rq_serialize lib) ps" using udp_send_out(2) [of lib u ans ps] send by simp
      moreover obtain k where "fst (run (send_udp_step chk cfg lib u) pc inputs) = take k (wire lib (somes ms'))"
        using IH by blast
      ultimately show ?thesis
        using send True
        by (intro exI [of _ "length ps + k"])
          (simp add: ms input Some send_packets_def act_map_err_def ret_def wire_def)
    next
      case False
      obtain k where k: "os = take k (map (rq_serialize lib) ps)" using udp_send_out(1) [of lib u ans ps] send by auto
      have "fst (run (send_udp_step chk cfg lib u) pc (input # inputs)) = os"
        using send False by (cases r) (simp_all add: input Some send_packets_def act_map_err_def)
      moreover have "take k (map (rq_serialize lib) ps) = take (min k (length ps)) (wire lib (somes ms))"
        by (simp add: ms Some wire_def min_def)
      ultimately show ?thesis using k by metis
    qed
  qed
qed

text \<open>A kernel that takes everything.\<close>

definition taken ::
  "('plan, 'cfg, 'pkt) raptorq_lib \<Rightarrow> udp_sender \<Rightarrow> 'pkt list option \<Rightarrow> 'pkt list option recv \<times> (nat \<Rightarrow> int)"
where
  "taken lib u m = (Msg m, case m of None \<Rightarrow> (\<lambda>_. 0)
     | Some ps \<Rightarrow> full_answers (us_sendm u) (map (rq_serialize lib) ps))"

definition small_packets :: "('plan, 'cfg, 'pkt) raptorq_lib \<Rightarrow> 'pkt list list \<Rightarrow> bool" where
  "small_packets lib gs \<longleftrightarrow> (\<forall>g \<in> set gs. \<forall>p \<in> set g. length (rq_serialize lib p) < 2 ^ 32)"

lemma send_udp_taken:
  fixes dest :: socket_addr and batch :: "u32 option"
  assumes "\<forall>p \<in> set ps. length (rq_serialize lib p) < 2 ^ 32" and "batch \<noteq> Some 0"
  shows "send_udp_step chk cfg lib (udp_send_new dest batch) pc (taken lib (udp_send_new dest batch) (Some ps))
    = (map (rq_serialize lib) ps, Ok (Continue pc))"
  using udp_send_full [OF assms, of dest]
  by (simp add: taken_def send_packets_def act_map_err_def ret_def)

text \<open>The state of the worker after \<open>k\<close> stop messages, for \<open>n\<close> encoding threads.\<close>

definition pc_after :: "u8 \<Rightarrow> nat \<Rightarrow> udp_pc" where
  "pc_after n k = (if k = 0 then Running else Draining (n - of_nat k))"

lemma one_less_unat: "0 < n \<Longrightarrow> n \<noteq> 1 \<Longrightarrow> 1 < unat (n :: u8)"
  by (metis One_nat_def Suc_lessI unat_1 unat_gt_0 word_unat_eq_iff word_greater_zero_iff)

lemma unat_minus_of_nat: "k \<le> unat (n :: u8) \<Longrightarrow> unat (n - of_nat k) = unat n - k"
proof -
  assume k: "k \<le> unat n"
  then have "unat (of_nat k :: u8) = k" using unat_u8_less [of n] by (simp add: unat_of_nat)
  then show ?thesis using k unat_sub [of "of_nat k" n] by (simp add: word_le_nat_alt)
qed

lemma send_udp_none:
  assumes "k < unat (s_nb_encode_threads cfg)"
  shows "send_udp_step chk cfg lib u (pc_after (s_nb_encode_threads cfg) k) (Msg None, ans) =
     ([], Ok (if Suc k < unat (s_nb_encode_threads cfg)
              then Continue (pc_after (s_nb_encode_threads cfg) (Suc k)) else Return ()))"
proof -
  define n where "n = s_nb_encode_threads cfg"
  have k: "k < unat n" using assms by (simp add: n_def)
  have u: "unat (n - of_nat k) = unat n - k" "unat (n - of_nat (Suc k)) = unat n - Suc k"
    using k unat_minus_of_nat [of k n] unat_minus_of_nat [of "Suc k" n] by simp_all
  have "1 \<le> n - of_nat k" using u(1) k by (simp add: word_le_nat_alt)
  then have sub: "sub_chk chk (n - of_nat k) 1 = (Ok (n - of_nat (Suc k)) :: (send_error, u8) res)"
    by (simp add: sub_chk_exact diff_diff_eq add.commute)
  have "drain (n - of_nat (Suc k)) =
      ([], Ok (if Suc k < unat n then Continue (pc_after n (Suc k)) else Return ()))"
    using u(2) k by (auto simp: drain_def ret_def pc_after_def word_less_nat_alt)
  with sub show ?thesis
    by (cases "k = 0") (simp_all add: pc_after_def act_simps flip: n_def)
qed

lemma send_udp_stops:
  fixes dest :: socket_addr and batch :: "u32 option"
  defines "u \<equiv> udp_send_new dest batch"
  assumes "small_packets lib (somes ms)" and "batch \<noteq> Some 0"
    and "k + count_list ms None < unat (s_nb_encode_threads cfg)"
  shows "run (send_udp_step chk cfg lib u) (pc_after (s_nb_encode_threads cfg) k) (map (taken lib u) ms)
    = (wire lib (somes ms),
       Ok (Continue (pc_after (s_nb_encode_threads cfg) (k + count_list ms None))))"
  using assms(2,4)
proof (induction ms arbitrary: k rule: somes.induct)
  case 1
  then show ?case by (simp add: wire_def ret_def)
next
  case (2 ms)
  then have "run (send_udp_step chk cfg lib u) (pc_after (s_nb_encode_threads cfg) (Suc k)) (map (taken lib u) ms)
    = (wire lib (somes ms), Ok (Continue (pc_after (s_nb_encode_threads cfg) (Suc k + count_list ms None))))"
    by (intro "2.IH") simp_all
  then show ?case
    using 2 send_udp_none [of k cfg chk lib u] by (simp add: taken_def)
next
  case (3 ps ms)
  then have "run (send_udp_step chk cfg lib u) (pc_after (s_nb_encode_threads cfg) k) (map (taken lib u) ms)
    = (wire lib (somes ms), Ok (Continue (pc_after (s_nb_encode_threads cfg) (k + count_list ms None))))"
    by (intro "3.IH") (simp_all add: small_packets_def)
  moreover have "send_udp_step chk cfg lib u (pc_after (s_nb_encode_threads cfg) k) (taken lib u (Some ps))
      = (map (rq_serialize lib) ps, Ok (Continue (pc_after (s_nb_encode_threads cfg) k)))"
    unfolding u_def using 3 assms(3) by (intro send_udp_taken) (simp_all add: small_packets_def)
  ultimately show ?case
    by (simp add: wire_def)
qed

section \<open>The module: construction and threads\<close>

text \<open>
  \<open>Sender::new\<close>: \<open>sem_created\<close> tells whether the semaphore could be made. The fields kept are the
  capacities of the bounded channels, the permits and the turnstile's counter.
\<close>

record sender =
  sd_config :: send_config
  sd_permits :: u32
  sd_block_to_send :: u8
  sd_server_capacity :: nat
  sd_capacity :: nat   \<comment> \<open>of \<open>to_ordering\<close>, \<open>to_encoding\<close> and \<open>to_send\<close>\<close>

definition sender_new :: "bool \<Rightarrow> send_config \<Rightarrow> (send_error, sender) res" where
  "sender_new sem_created cfg =
     (if sem_created
      then Ok \<lparr>sd_config = cfg, sd_permits = s_max_clients cfg, sd_block_to_send = 0,
               sd_server_capacity = 1, sd_capacity = unat (s_nb_encode_threads cfg)\<rparr>
      else Err (S_Other ''failed to create semaphore''))"

datatype send_worker = W_udp | W_ordering | W_encoding nat | W_heartbeat | W_client nat

definition sender_workers :: "send_config \<Rightarrow> send_worker list" where
  "sender_workers cfg =
     [W_udp, W_ordering]
     @ map W_encoding [0..<unat (s_nb_encode_threads cfg)]
     @ (case s_heartbeat_interval cfg of None \<Rightarrow> [] | Some _ \<Rightarrow> [W_heartbeat])
     @ map W_client [0..<unat (s_max_clients cfg)]"

text \<open>
  Threads are created in groups that share a core (on the sending side every thread is a group of its own);
  every group takes the next core while there is one. \<open>spawned w\<close> tells whether the thread of worker
  \<open>w\<close> can be created; the outputs are the threads created.
\<close>

fun pin :: "'core list \<Rightarrow> 'w list list \<Rightarrow> ('w \<times> 'core option) list" where
  "pin cores [] = []"
| "pin cores (g # gs) =
     map (\<lambda>w. (w, case cores of [] \<Rightarrow> None | c # _ \<Rightarrow> Some c)) g @ pin (tl cores) gs"

definition spawn_all ::
  "('w \<Rightarrow> bool) \<Rightarrow> 'e \<Rightarrow> 'core list \<Rightarrow> 'w list list \<Rightarrow> ('w \<times> 'core option, 'e, unit) act"
where
  "spawn_all spawned e cores groups = emit_all (\<lambda>(w, _). spawned w) e (pin cores groups)"

text \<open>At its end \<open>start\<close> logs \<open>min_nb_packets\<close>, which may overflow.\<close>

definition sender_start ::
  "bool \<Rightarrow> send_config \<Rightarrow> ('plan, 'cfg) raptorq \<Rightarrow> (send_worker \<Rightarrow> bool) \<Rightarrow> 'core list option \<Rightarrow>
   (send_worker \<times> 'core option, send_error, unit) act"
where
  "sender_start chk cfg rq spawned core_ids =
     (let cores = (if s_cpu_affinity cfg then (case core_ids of None \<Rightarrow> [] | Some cs \<Rightarrow> cs) else []) in
      bind_act (spawn_all spawned (S_Io Io_failed) cores (map (\<lambda>w. [w]) (sender_workers cfg))) (\<lambda>_.
      bind_act (lift (min_nb_packets chk rq)) (\<lambda>_. ret ())))"

text \<open>\<open>new_client\<close> and \<open>stop\<close>: one message for the server threads.\<close>

definition new_client ::
  "('c option \<Rightarrow> bool) \<Rightarrow> 'c \<Rightarrow> ('c option, send_error, unit) act" where
  "new_client up client =
     emit up (S_Diode ''failed to enqueue client: sending on a disconnected channel'') (Some client)"

definition sender_stop :: "('c option \<Rightarrow> bool) \<Rightarrow> ('c option, send_error, unit) act" where
  "sender_stop up = emit up (S_Diode ''failed to stop: sending on a disconnected channel'') None"

lemma emit_all_up: "\<forall>m \<in> set ms. up m \<Longrightarrow> emit_all up e ms = (ms, Ok ())"
  by (induction ms) (auto simp: ret_def emit_def)

lemma pin_workers: "map fst (pin cores gs) = concat gs"
  by (induction gs arbitrary: cores) (auto simp: comp_def)

lemma spawn_all_ok:
  assumes "\<forall>g \<in> set groups. \<forall>w \<in> set g. spawned w"
  shows "spawn_all spawned e cores groups = (pin cores groups, Ok ())"
proof -
  have "fst ` set (pin cores groups) = set (concat groups)"
    by (simp only: set_map [symmetric] pin_workers)
  then have "\<forall>m \<in> set (pin cores groups). (\<lambda>(w, _). spawned w) m"
    using assms by (force simp: image_iff)
  then show ?thesis by (simp add: spawn_all_def emit_all_up)
qed

section \<open>The stop message\<close>

text \<open>What the ordering worker takes from the channel that the server threads write.\<close>

definition ordered_message :: "send_event \<Rightarrow> block option recv" where
  "ordered_message e = (case e of Ordered m \<Rightarrow> Msg m | _ \<Rightarrow> Timeout)"

lemma ordered_message_simps [simp]: "ordered_message (Ordered m) = Msg m"
  by (simp add: ordered_message_def)

lemma ordering_stopped:
  assumes "0 < n"
  shows "ordering_start (map (\<lambda>b. (\<lambda>_. True, Msg (Some b))) bs @ map (\<lambda>e. (\<lambda>_. True, ordered_message e)) (replicate n (Ordered None)))
    = (map ToEncoding (numbered_jobs bs) @ [ToSend None], Ok (Return ()))"
  using assms unfolding ordering_start_def
  by (subst run_append [OF ordering_run]) (cases n; simp add: emit_def ret_def numbered_jobs_def)

lemma somes_filter: "map Some (somes ms) = filter (\<lambda>m. m \<noteq> None) ms"
  by (induction ms rule: somes.induct) auto

lemma count_list_mset: "count_list xs x = count (mset xs) x"
  by (induction xs) auto

lemma concat_nils [simp]: "concat (map (\<lambda>x. []) xs) = []"
  by (induction xs) auto

lemma shuffled_stops:
  assumes "ms \<in> shuffles (map Some xs) (replicate k None)"
  shows "somes ms = xs" and "count_list ms None = k"
proof -
  have "filter (\<lambda>m. m \<noteq> None) (map Some xs) = map Some xs" "filter (\<lambda>m. m \<noteq> None) (replicate k None) = []"
    by (simp_all add: filter_id_conv)
  then have "map Some (somes ms) = map Some xs"
    using imageI [OF assms, of "filter (\<lambda>m. m \<noteq> None)"] unfolding filter_shuffles somes_filter by simp
  then show "somes ms = xs" by (simp only: inj_map_eq_map inj_Some)
  have "mset ms = mset (map Some xs) + mset (replicate k None)" using mset_shuffles [OF assms] by simp
  then show "count_list ms None = k"
    using count_list_map_Some [of xs] unfolding count_list_mset by simp
qed

text \<open>The encoding threads at rest: all of them wait for a job.\<close>

lemma pool_rests:
  assumes run: "(pool_step lib rq True)\<^sup>*\<^sup>* (pool_start n (numbered_jobs bs)) s"
    and long: "\<forall>b \<in> set bs. 4 \<le> length (serialized b)" and "0 < n" and stuck: "\<not> (\<exists>s'. pool_step lib rq True s s')"
  shows "threads s = replicate (unat n) Idle"
proof -
  note ini = pool_start_fit [OF long assms(3)] pool_start_ok(3) [OF long, of n]
  have empty: "in_hand s = {#}" using encoders.stuck_done [OF run ini pool_numbers stuck] by blast
  have "pool_ok s \<and> pool_live (unat n) s"
    using run
  proof (induction rule: rtranclp_induct)
    case base
    then show ?case using pool_start_ok(1,2) [OF long] by blast
  next
    case (step y z)
    then show ?case using encoder_threads.step_ok pool_live_step by blast
  qed
  then have live: "length (threads s) = unat n" "\<forall>t \<in> set (threads s). t = Idle \<or> (\<exists>bid packets. t = Holding bid packets)"
    by (simp_all add: pool_live_def)
  have "t = Idle" if "t \<in> set (threads s)" for t
    using in_hand_empty [OF empty that] live(2) that by fastforce
  then show ?thesis using live(1) by (metis replicate_eqI)
qed

text \<open>The UDP worker with one \<open>None\<close> among its messages.\<close>

lemma stopped_udp:
  fixes dest :: socket_addr and batch :: "u32 option"
  assumes "small_packets lib (somes ms)" and "batch \<noteq> Some 0" and "count_list ms None = 1"
    and "0 < s_nb_encode_threads cfg"
  shows "run (send_udp_step chk cfg lib (udp_send_new dest batch)) Running (map (taken lib (udp_send_new dest batch)) ms)
    = (if s_nb_encode_threads cfg = 1 then (wire lib (somes (takeWhile (\<lambda>m. m \<noteq> None) ms)), Ok (Return ()))
       else (wire lib (somes ms), Ok (Continue (Draining (s_nb_encode_threads cfg - 1)))))"
proof (cases "s_nb_encode_threads cfg = 1")
  case True
  define ps where "ps = takeWhile (\<lambda>m. m \<noteq> None) ms"
  have "None \<in> set ms" using assms(3) by (metis count_notin zero_neq_one)
  then have "dropWhile (\<lambda>m. m \<noteq> None) ms \<noteq> []" by (auto simp: dropWhile_eq_Nil_conv)
  then obtain rest where "dropWhile (\<lambda>m. m \<noteq> None) ms = None # rest"
    using hd_dropWhile [of "\<lambda>m. m \<noteq> None" ms] by (metis list.collapse)
  then have ms: "ms = ps @ None # rest"
    unfolding ps_def using takeWhile_dropWhile_id [of "\<lambda>m. m \<noteq> None" ms] by simp
  have "None \<notin> set ps" unfolding ps_def by (auto dest: set_takeWhileD)
  then have "count_list ps None = 0" by (rule count_notin)
  moreover have sp: "small_packets lib (somes ps)"
    using assms(1) ms by (auto simp: small_packets_def)
  ultimately have "run (send_udp_step chk cfg lib (udp_send_new dest batch)) Running
      (map (taken lib (udp_send_new dest batch)) ps) = (wire lib (somes ps), Ok (Continue Running))"
    using send_udp_stops [OF sp assms(2), of 0 cfg chk dest] True by (simp add: pc_after_def)
  from run_append [OF this, of "map (taken lib (udp_send_new dest batch)) (None # rest)"]
  have "run (send_udp_step chk cfg lib (udp_send_new dest batch)) Running
      (map (taken lib (udp_send_new dest batch)) ms) = (wire lib (somes ps), Ok (Return ()))"
    using send_udp_none [of 0 cfg chk lib "udp_send_new dest batch"] True ms
    by (simp add: taken_def pc_after_def ret_def)
  with True show ?thesis by (simp add: ps_def)
next
  case False
  then have "1 < unat (s_nb_encode_threads cfg)"
    using assms(4) one_less_unat by blast
  with False show ?thesis
    using send_udp_stops [of lib ms batch 0 cfg chk dest] assms(1-3) by (simp add: pc_after_def)
qed

section \<open>A run of one block through one thread\<close>

definition one_block_end ::
  "('plan, 'cfg, 'pkt) raptorq_lib \<Rightarrow> ('plan, 'cfg) raptorq \<Rightarrow> block \<Rightarrow> 'pkt enc_pool"
where
  "one_block_end lib rq b = \<lparr>enc_in = [], threads = [Idle], block_to_send = 1,
     to_send = [Some (encode lib rq 0 (serialized b))]\<rparr>"

lemma one_block_run:
  assumes "4 \<le> length (serialized b)"
  shows "(pool_step lib rq True ^^ 2) (pool_start 1 (numbered_jobs [b])) (one_block_end lib rq b)"
    and "\<not> (\<exists>s'. pool_step lib rq True (one_block_end lib rq b) s')"
proof -
  let ?m = "\<lparr>enc_in = [], threads = [Holding 0 (encode lib rq 0 (serialized b))],
     block_to_send = 0, to_send = []\<rparr>"
  have "enc_thread_step lib rq True 0 (pool_start 1 (numbered_jobs [b])) = Some ?m"
    using thread_step_take [of 0 "pool_start 1 (numbered_jobs [b])" 0 b "[]" lib rq True] assms
    by (simp add: pool_start_def numbered_jobs_def)
  then have 1: "pool_step lib rq True (pool_start 1 (numbered_jobs [b])) ?m" by (rule thread)
  have "enc_thread_step lib rq True 0 ?m = Some (one_block_end lib rq b)"
    by (simp add: enc_thread_step_def one_block_end_def)
  then have 2: "pool_step lib rq True ?m (one_block_end lib rq b)" by (rule thread)
  show "(pool_step lib rq True ^^ 2) (pool_start 1 (numbered_jobs [b])) (one_block_end lib rq b)"
    using 1 2 by (auto simp: numeral_2_eq_2)
  show "\<not> (\<exists>s'. pool_step lib rq True (one_block_end lib rq b) s')"
    by (auto simp: pool_step_iff enc_thread_step_def one_block_end_def)
qed

section \<open>Properties\<close>

text \<open>Property C13. However the encoding threads are scheduled, the messages for the UDP worker are the
  encodings of the first blocks in the order of the blocks, also past 256 blocks; no schedule
  has more than two steps per block, and when no thread can move any more, every block has been sent.
  So the pool neither reorders, nor deadlocks, nor loses a block.\<close>

theorem encoders_in_order:
  assumes "(pool_step lib rq True ^^ k) (pool_start n (numbered_jobs bs)) s"
    and "\<forall>b \<in> set bs. 4 \<le> length (serialized b)" and "0 < n"
  shows "k \<le> 2 * length bs
    \<and> (\<exists>e. to_send s = map Some (take e (encoded lib rq bs)))
    \<and> (\<not> (\<exists>s'. pool_step lib rq True s s') \<longrightarrow> to_send s = map Some (encoded lib rq bs))"
proof (intro conjI impI)
  note run = relpowp_imp_rtranclp [OF assms(1)]
  show "k \<le> 2 * length bs"
    using encoders.run_bounded [OF assms(1) pool_start_fit [OF assms(2,3)]]
    by (simp add: pool_work_def pool_start_def numbered_jobs_def in_hand_def carried_replicate count_list_0_iff)
  show "\<exists>e. to_send s = map Some (take e (encoded lib rq bs))"
    using pool_results(1) [OF run assms(2,3)] by blast
  show "to_send s = map Some (encoded lib rq bs)" if "\<not> (\<exists>s'. pool_step lib rq True s s')"
    using pool_results(2) [OF run assms(2,3) that] .
qed

theorem encoders_in_order_witness:
  "to_send (one_block_end sample_lib small_rq (Block [1, 2, 3, 4]))
    = map Some (encoded sample_lib small_rq [Block [1, 2, 3, 4]])"
  using encoders_in_order [OF one_block_run(1) [of "Block [1, 2, 3, 4]" sample_lib small_rq]]
    one_block_run(2) [of "Block [1, 2, 3, 4]" sample_lib small_rq]
  by simp



text \<open>Property C21. The stop message stops less than the sender. The server thread that takes it sends one \<open>None\<close> per encoding
  thread to the ordering worker, but this worker returns on the first one: it sends a single \<open>None\<close>, to the UDP worker, and
  none to the encoding threads. So under every schedule, once the encoding threads have sent what they had, all
  of them wait for ever. The \<open>None\<close> reaches the UDP worker at some point among the packets. With two or more encoding
  threads this worker waits for one \<open>None\<close> per thread and never returns; with a single one it returns on the
  \<open>None\<close>, and what comes behind it is not sent.\<close>

theorem sender_stop_incomplete:
  fixes dest :: socket_addr and batch :: "u32 option" and lib :: "('plan, 'cfg, 'pkt) raptorq_lib"
    and hl :: "'h hasher_lib"
  assumes ordering: "ordering_start (map (\<lambda>b. (\<lambda>_. True, Msg (Some b))) bs @ map (\<lambda>e. (\<lambda>_. True, ordered_message e)) stop)
      = (out, r)"
    and server: "stop = fst (run (server_step chk cfg hl rq) (Waiting, cid)
      (map (\<lambda>m. (\<lambda>_. True, Accept (Msg m))) (fst (sender_stop (\<lambda>_. True)))))"
    and jobs: "jobs = concat (map (\<lambda>e. case e of ToEncoding j \<Rightarrow> [j] | _ \<Rightarrow> []) out)"
    and threads: "(pool_step lib rq True)\<^sup>*\<^sup>* (pool_start (s_nb_encode_threads cfg) jobs) s"
      "\<not> (\<exists>s'. pool_step lib rq True s s')"
    and udp: "ms \<in> shuffles (to_send s) (concat (map (\<lambda>e. case e of ToSend m \<Rightarrow> [m] | _ \<Rightarrow> []) out))"
    and blocks: "\<forall>b \<in> set bs. 4 \<le> length (serialized b)" "0 < s_nb_encode_threads cfg"
    and kernel: "small_packets lib (encoded lib rq bs)" "batch \<noteq> Some 0"
  shows "stop = replicate (unat (s_nb_encode_threads cfg)) (Ordered None)
    \<and> out = map ToEncoding (numbered_jobs bs) @ [ToSend None] \<and> r = Ok (Return ())
    \<and> threads s = replicate (unat (s_nb_encode_threads cfg)) Idle
    \<and> run (send_udp_step chk cfg lib (udp_send_new dest batch)) Running (map (taken lib (udp_send_new dest batch)) ms)
      = (if s_nb_encode_threads cfg = 1
         then (wire lib (somes (takeWhile (\<lambda>m. m \<noteq> None) ms)), Ok (Return ()))
         else (wire lib (encoded lib rq bs), Ok (Continue (Draining (s_nb_encode_threads cfg - 1)))))"
proof -
  have n: "0 < unat (s_nb_encode_threads cfg)" using blocks(2) by (simp add: word_less_nat_alt)
  have stop: "stop = replicate (unat (s_nb_encode_threads cfg)) (Ordered None)"
    unfolding server sender_stop_def by (simp add: emit_def server_step.simps emit_all_up ret_def)
  have ord: "out = map ToEncoding (numbered_jobs bs) @ [ToSend None] \<and> r = Ok (Return ())"
    using ordering unfolding stop ordering_stopped [OF n] by simp
  then have jobs': "jobs = numbered_jobs bs" unfolding jobs by (simp add: comp_def)
  note run = threads(1) [unfolded jobs']
  from pool_results(2) [OF run blocks threads(2)] have sent: "to_send s = map Some (encoded lib rq bs)" .
  have "ms \<in> shuffles (map Some (encoded lib rq bs)) (replicate 1 None)" using udp ord sent by (simp add: comp_def)
  from shuffled_stops [OF this] have ms: "somes ms = encoded lib rq bs" "count_list ms None = 1" by simp_all
  note udp_run = stopped_udp [OF kernel(1) [folded ms(1)] kernel(2) ms(2) blocks(2), of chk dest]
  show ?thesis
    using stop ord pool_rests [OF run blocks threads(2)] udp_run [unfolded ms(1)] by blast
qed

theorem sender_stop_incomplete_witness:
  "threads (one_block_end sample_lib small_rq (Block [1, 2, 3, 4])) = [Idle]
    \<and> run (send_udp_step True sample_send_config sample_lib (udp_send_new (V4 (127, 0, 0, 1) 6000) None)) Running
        (map (taken sample_lib (udp_send_new (V4 (127, 0, 0, 1) 6000) None)) [None, Some (encode sample_lib small_rq 0 [1, 2, 3, 4])])
      = ([], Ok (Return ()))"
proof -
  let ?b = "Block [1, 2, 3, 4]"
  have one: "s_nb_encode_threads sample_send_config = 1" "0 < unat (1 :: u8)" "(0 :: u8) < 1"
    by (simp_all add: sample_send_config_def)
  have stop: "[Ordered None] = fst (run (server_step True sample_send_config sample_hasher small_rq) (Waiting, 0)
      (map (\<lambda>m. (\<lambda>_. True, Accept (Msg m))) (fst (sender_stop (\<lambda>_. True)))))"
    by (simp add: sender_stop_def emit_def server_step.simps one emit_all_up ret_def)
  have ordering: "ordering_start (map (\<lambda>b. (\<lambda>_. True, Msg (Some b))) [?b] @ map (\<lambda>e. (\<lambda>_. True, ordered_message e)) [Ordered None])
      = (map ToEncoding (numbered_jobs [?b]) @ [ToSend None] :: sample_packet pipe_event list, Ok (Return ()))"
    using ordering_stopped [OF one(2), of "[?b]"] by simp
  have jobs: "numbered_jobs [?b] = concat (map (\<lambda>e. case e of ToEncoding j \<Rightarrow> [j] | _ \<Rightarrow> [])
      (map ToEncoding (numbered_jobs [?b]) @ [ToSend None] :: sample_packet pipe_event list))"
    by (simp add: comp_def)
  have 4: "4 \<le> length (serialized ?b)" by simp
  have threads: "(pool_step sample_lib small_rq True)\<^sup>*\<^sup>* (pool_start (s_nb_encode_threads sample_send_config)
      (numbered_jobs [?b])) (one_block_end sample_lib small_rq ?b)"
    unfolding one by (rule relpowp_imp_rtranclp [OF one_block_run(1) [OF 4]])
  have ms: "[None, Some (encode sample_lib small_rq 0 [1, 2, 3, 4])] \<in> shuffles (to_send (one_block_end sample_lib small_rq ?b))
      (concat (map (\<lambda>e. case e of ToSend m \<Rightarrow> [m] | _ \<Rightarrow> []) (map ToEncoding (numbered_jobs [?b]) @ [ToSend None])))"
    by (simp add: one_block_end_def comp_def)
  have rest: "\<forall>b \<in> set [?b]. 4 \<le> length (serialized b)" "0 < s_nb_encode_threads sample_send_config"
      "small_packets sample_lib (encoded sample_lib small_rq [?b])" "None \<noteq> Some (0 :: u32)"
    using one by (simp_all add: small_packets_def encoded_def encode_def small_rq_def sample_lib_def)
  from sender_stop_incomplete [OF ordering stop jobs threads one_block_run(2) [OF 4] ms rest, of "V4 (127, 0, 0, 1) 6000"]
  show ?thesis by (simp add: one wire_def)
qed

end
