(* ===== verification/Recv_Base.thy ===== *)
theory Recv_Base
  imports Send_Pipeline
begin

text \<open>
  \<open>src/receive/mod.rs\<close> and \<open>src/receive/udp.rs\<close>: the configuration of the receiver, its errors,
  its threads, and the worker that takes datagrams from the socket.
\<close>

section \<open>Configuration and errors\<close>

record receive_config =
  r_from :: socket_addr
  r_from_mtu :: u16
  r_batch_receive :: "u32 option"
  r_reset_timeout :: nat                  \<comment> \<open>durations are counted in nanoseconds\<close>
  r_nb_decode_threads :: u8
  r_max_clients :: u32
  r_flush :: bool
  r_abort_timeout :: "nat option"
  r_heartbeat_interval :: "nat option"
  r_cpu_affinity :: bool
  r_hash :: bool

datatype recv_timeout_error = TimedOut | ChannelGone

datatype receive_error =
    R_Io io_error
  | R_SendPackets
  | R_SendBlockPackets
  | R_SendBlock
  | R_SendClients
  | R_Receive
  | R_ReceiveTimeout recv_timeout_error
  | R_Protocol protocol_error
  | R_Other string

text \<open>What \<open>reblock\<close> hands to \<open>decode\<close>.\<close>

datatype 'pkt reassembled = SyncError | Reassembled u8 "'pkt list"

definition WINDOW_WIDTH :: u8 where "WINDOW_WIDTH = 255 div 2"

section \<open>Construction and threads\<close>

record receiver =
  rv_config :: receive_config
  rv_permits :: u32
  rv_block_to_dispatch :: u8

definition receiver_new :: "bool \<Rightarrow> receive_config \<Rightarrow> (receive_error, receiver) res" where
  "receiver_new sem_created cfg =
     (if sem_created
      then Ok \<lparr>rv_config = cfg, rv_permits = r_max_clients cfg, rv_block_to_dispatch = 0\<rparr>
      else Err (R_Other ''failed to create semaphore''))"

datatype receive_worker = V_client nat | V_dispatch | V_decode nat | V_reblock | V_udp

text \<open>All decoding threads share one core.\<close>

definition receiver_groups :: "receive_config \<Rightarrow> receive_worker list list" where
  "receiver_groups cfg =
     map (\<lambda>i. [V_client i]) [0..<unat (r_max_clients cfg)]
     @ [[V_dispatch], map V_decode [0..<unat (r_nb_decode_threads cfg)], [V_reblock], [V_udp]]"

definition receiver_start ::
  "bool \<Rightarrow> receive_config \<Rightarrow> ('plan, 'cfg) raptorq \<Rightarrow> (receive_worker \<Rightarrow> bool) \<Rightarrow> 'core list option \<Rightarrow>
   (receive_worker \<times> 'core option, receive_error, unit) act"
where
  "receiver_start chk cfg rq spawned core_ids =
     (let cores = (if r_cpu_affinity cfg then (case core_ids of None \<Rightarrow> [] | Some cs \<Rightarrow> rev cs) else []) in
      bind_act (spawn_all spawned (R_Io Io_failed) cores (receiver_groups cfg)) (\<lambda>_.
      bind_act (lift (min_nb_packets chk rq)) (\<lambda>_. ret ())))"

section \<open>The UDP worker\<close>

definition recv_buffer_size :: "bool \<Rightarrow> ('plan, 'cfg) raptorq \<Rightarrow> u16 \<Rightarrow> (receive_error, 32 word) res" where
  "recv_buffer_size chk rq mtu =
     and_then (ok_or (R_Other (''nb_packets: '' @ try_from_int_error)) (i32_try_from (nb_packets rq))) (\<lambda>n.
     and_then (smul_chk chk (ucast WINDOW_WIDTH) n) (\<lambda>w.
     smul_chk chk w (ucast mtu)))"

definition recv_udp_init ::
  "bool \<Rightarrow> receive_config \<Rightarrow> ('plan, 'cfg) raptorq \<Rightarrow> socket_answers \<Rightarrow> (receive_error, udp_receive) res"
where
  "recv_udp_init chk cfg rq sa =
     and_then (map_err R_Io (io_check (sa_bind sa))) (\<lambda>_.
     and_then (map_err R_Io (io_check (sa_set_nonblocking sa))) (\<lambda>_.
     and_then (recv_buffer_size chk rq (r_from_mtu cfg)) (\<lambda>buffer_size.
     and_then (map_err R_Io (setsockopt_buffer_size (sa_setsockopt sa))) (\<lambda>_.
     and_then (map_err R_Io (getsockopt_buffer_size (fst (sa_getsockopt sa)) (snd (sa_getsockopt sa)))) (\<lambda>_.
     Ok (udp_receive_new (r_from_mtu cfg) (r_batch_receive cfg)))))))"

fun recv_udp_step ::
  "udp_receive \<Rightarrow> (datagrams \<Rightarrow> bool) \<times> recv_answer \<Rightarrow>
   (datagrams, receive_error, (udp_receive, unit) flow) act"
where
  "recv_udp_step r (up, ans) =
     bind_act (lift (map_err R_Io (udp_recv r ans))) (\<lambda>datagrams.
     bind_act (emit up R_SendPackets datagrams) (\<lambda>_. ret (Continue r)))"

end
