(* ===== verification/Reblock.thy ===== *)
theory Reblock
  imports Recv_Base
begin

text \<open>
  \<open>src/receive/reblock.rs\<close>: packets are grouped by block number, and the blocks handed on in order.

  The two vectors of 256 entries indexed by a \<open>u8\<close> are functions on \<open>u8\<close>. A step is one turn of
  the loop. The inner \<open>while\<close> loop does not end when \<open>min_nb_packets\<close> is 0, so it is a
  \<open>partial_function\<close>, \<open>None\<close> meaning that it never ends.
  The abstract reassembler numbers blocks with natural numbers; the step refines it as long as
  packets arrive within a window around the current block, which holds whatever the wrap-around.
\<close>

section \<open>The worker\<close>

record 'pkt reblock =
  blocks_data :: "u8 \<Rightarrow> 'pkt list"
  blocks_ignore :: "u8 \<Rightarrow> bool"
  cur_id :: u8
  reset :: bool

datatype 'pkt reblock_event =
    SetTurn u8                       \<comment> \<open>\<open>*block_to_dispatch = cur_id\<close>\<close>
  | ToDecode "'pkt reassembled"

definition reblock_init :: "'pkt reblock" where
  "reblock_init = \<lparr>blocks_data = (\<lambda>_. []), blocks_ignore = (\<lambda>_. True), cur_id = 0, reset = True\<rparr>"

definition all_u8 :: "u8 list" where
  "all_u8 = map of_nat [0..<256]"

text \<open>The scan after a timeout.\<close>

definition damaged :: "'pkt reblock \<Rightarrow> bool" where
  "damaged s = list_ex (\<lambda>i. blocks_ignore s i \<and> blocks_data s i \<noteq> []) all_u8"

text \<open>\<open>EncodingPacket::deserialize\<close> panics on a datagram it cannot read.\<close>

definition deserialize :: "('plan, 'cfg, 'pkt) raptorq_lib \<Rightarrow> bytes \<Rightarrow> (receive_error, 'pkt) res" where
  "deserialize lib d = (case rq_deserialize lib d of None \<Rightarrow> Panic | Some p \<Rightarrow> Ok p)"

text \<open>The loop that opens the window: from \<open>i\<close> to \<open>stop_id\<close> (\<open>last\<close> in the source), with at most 256 turns.\<close>

fun open_window :: "nat \<Rightarrow> u8 \<Rightarrow> u8 \<Rightarrow> (u8 \<Rightarrow> bool) \<Rightarrow> (u8 \<Rightarrow> bool)" where
  "open_window 0 i stop_id ignore = ignore"
| "open_window (Suc fuel) i stop_id ignore =
     (if i \<noteq> stop_id then open_window fuel (i + 1) stop_id (ignore(i := False)) else ignore)"

definition first_datagram :: "datagrams \<Rightarrow> (receive_error, bytes) res" where
  "first_datagram ds = (case ds of Single d \<Rightarrow> Ok d | Multiple ds \<Rightarrow> index ds 0)"

definition resync ::
  "('plan, 'cfg, 'pkt) raptorq_lib \<Rightarrow> datagrams \<Rightarrow> 'pkt reblock \<Rightarrow>
   ('pkt reblock_event, receive_error, 'pkt reblock) act"
where
  "resync lib ds s =
     bind_act (lift (first_datagram ds)) (\<lambda>first.
     bind_act (lift (deserialize lib first)) (\<lambda>packet.
     let cur = rq_block_number lib packet in
     bind_act (say (SetTurn cur)) (\<lambda>_.
     ret \<lparr>blocks_data = (\<lambda>_. []),
          blocks_ignore = open_window 256 cur (cur + WINDOW_WIDTH) (\<lambda>_. True),
          cur_id = cur, reset = False\<rparr>)))"

text \<open>The filter and the push for one packet.\<close>

definition push_packet :: "('plan, 'cfg, 'pkt) raptorq_lib \<Rightarrow> 'pkt \<Rightarrow> 'pkt reblock \<Rightarrow> 'pkt reblock" where
  "push_packet lib p s =
     (let i = rq_block_number lib p in
      if blocks_ignore s i then s
      else s\<lparr>blocks_data := (blocks_data s)(i := blocks_data s i @ [p])\<rparr>)"

fun push_datagrams ::
  "('plan, 'cfg, 'pkt) raptorq_lib \<Rightarrow> bytes list \<Rightarrow> 'pkt reblock \<Rightarrow> (receive_error, 'pkt reblock) res"
where
  "push_datagrams lib [] s = Ok s"
| "push_datagrams lib (d # ds) s =
     and_then (deserialize lib d) (\<lambda>p. push_datagrams lib ds (push_packet lib p s))"

text \<open>The state after handing on the current block: taken, ignored, and the far end opened.\<close>

definition advance :: "'pkt reblock \<Rightarrow> 'pkt reblock" where
  "advance s = s\<lparr>blocks_data := (blocks_data s)(cur_id s := []),
     blocks_ignore := (blocks_ignore s)(cur_id s := True, cur_id s + WINDOW_WIDTH := False)\<rparr>"

partial_function (option) reblock_emit ::
  "('pkt reblock_event \<Rightarrow> bool) \<Rightarrow> nat \<Rightarrow> 'pkt reblock \<Rightarrow>
   ('pkt reblock_event, receive_error, 'pkt reblock) act option"
where
  "reblock_emit up min_nb s =
     (if length (blocks_data s (cur_id s)) < min_nb then Some (ret s)
      else
        let send = emit up R_SendBlockPackets (ToDecode (Reassembled (cur_id s) (blocks_data s (cur_id s))));
            opposite = cur_id s + WINDOW_WIDTH;
            s' = advance s in
        if snd send \<noteq> Ok () then Some (bind_act send (\<lambda>_. ret s'))
        else if blocks_data s' opposite \<noteq> []
        then Some (bind_act send (\<lambda>_.
               bind_act (emit up R_SendBlockPackets (ToDecode SyncError)) (\<lambda>_. ret (s'\<lparr>reset := True\<rparr>))))
        else Option.bind (reblock_emit up min_nb (s'\<lparr>cur_id := cur_id s + 1\<rparr>)) (\<lambda>m.
               Some (bind_act send (\<lambda>_. m))))"

definition diverging :: "('o, 'e, 'a) act option \<Rightarrow> ('o, 'e, 'a) act" where
  "diverging m = (case m of None \<Rightarrow> ([], Diverges) | Some a \<Rightarrow> a)"

fun reblock_step ::
  "('plan, 'cfg, 'pkt) raptorq_lib \<Rightarrow> nat \<Rightarrow> 'pkt reblock \<Rightarrow> ('pkt reblock_event \<Rightarrow> bool) \<times> datagrams recv \<Rightarrow>
   ('pkt reblock_event, receive_error, ('pkt reblock, unit) flow) act"
where
  "reblock_step lib min_nb s (up, Timeout) =
     bind_act (if damaged s then emit up R_SendBlockPackets (ToDecode SyncError) else ret ()) (\<lambda>_.
     ret (Continue (s\<lparr>reset := True\<rparr>)))"
| "reblock_step lib min_nb s (up, Disconnected) = lift (Err (R_ReceiveTimeout ChannelGone))"
| "reblock_step lib min_nb s (up, Msg ds) =
     bind_act (if reset s then resync lib ds s else ret s) (\<lambda>s.
     bind_act (lift (push_datagrams lib (datagram_list ds) s)) (\<lambda>s.
     bind_act (diverging (reblock_emit up min_nb s)) (\<lambda>s.
     ret (Continue s))))"

definition reblock_start ::
  "bool \<Rightarrow> ('plan, 'cfg, 'pkt) raptorq_lib \<Rightarrow> ('plan, 'cfg) raptorq \<Rightarrow>
   (('pkt reblock_event \<Rightarrow> bool) \<times> datagrams recv) list \<Rightarrow>
   ('pkt reblock_event, receive_error, ('pkt reblock, unit) flow) act"
where
  "reblock_start chk lib rq inputs =
     bind_act (lift (min_nb_packets chk rq)) (\<lambda>m. run (reblock_step lib (unat m)) reblock_init inputs)"

section \<open>The invariant\<close>

text \<open>
  Nothing is stored for an ignored block; and once synchronized, exactly the blocks less than
  \<open>WINDOW_WIDTH\<close> ahead of the current one are not ignored.
\<close>

definition stored_ok :: "'pkt reblock \<Rightarrow> bool" where
  "stored_ok s \<longleftrightarrow> (\<forall>i. blocks_ignore s i \<longrightarrow> blocks_data s i = [])"

definition window_ok :: "'pkt reblock \<Rightarrow> bool" where
  "window_ok s \<longleftrightarrow> (\<forall>i. blocks_ignore s i \<longleftrightarrow> 127 \<le> unat (i - cur_id s))"

definition reblock_inv :: "'pkt reblock \<Rightarrow> bool" where
  "reblock_inv s \<longleftrightarrow> stored_ok s \<and> (window_ok s \<or> (reset s \<and> (\<forall>i. blocks_ignore s i)))"

lemma WINDOW_WIDTH_value: "WINDOW_WIDTH = 127"
  by (simp add: WINDOW_WIDTH_def)

lemma unat_minus_one: "(i :: u8) \<noteq> 0 \<Longrightarrow> unat (i - 1) = unat i - 1"
  by (simp add: unat_minus_one)

lemma open_window_iff:
  "n \<le> fuel \<Longrightarrow> n < 256 \<Longrightarrow>
   open_window fuel i (i + of_nat n) ignore j \<longleftrightarrow> ignore j \<and> n \<le> unat (j - i)"
proof (induction fuel arbitrary: n i ignore)
  case 0
  then show ?case by simp
next
  case (Suc fuel)
  show ?case
  proof (cases n)
    case 0
    then show ?thesis by simp
  next
    case (Suc m)
    have eq: "i + of_nat n = (i + 1) + of_nat m" using Suc by (simp add: ac_simps)
    have "i \<noteq> i + of_nat n"
    proof
      assume "i = i + of_nat n"
      then have "(of_nat n :: u8) = 0" by (metis add.right_neutral add_left_cancel)
      then have "unat (of_nat n :: u8) = 0" by (simp only: unat_0)
      then show False using Suc Suc.prems by (simp add: unat_of_nat del: of_nat_Suc)
    qed
    then have "open_window (Suc fuel) i (i + of_nat n) ignore =
        open_window fuel (i + 1) ((i + 1) + of_nat m) (ignore(i := False))"
      by (simp only: open_window.simps eq if_True simp_thms)
    moreover have "open_window fuel (i + 1) ((i + 1) + of_nat m) (ignore(i := False)) j \<longleftrightarrow>
        (ignore(i := False)) j \<and> m \<le> unat (j - (i + 1))"
      using Suc.prems Suc by (intro Suc.IH) simp_all
    ultimately have "open_window (Suc fuel) i (i + of_nat n) ignore j \<longleftrightarrow>
        (ignore(i := False)) j \<and> m \<le> unat (j - (i + 1))"
      by (simp only:)
    also have "\<dots> \<longleftrightarrow> ignore j \<and> n \<le> unat (j - i)"
    proof (cases "j = i")
      case True
      then show ?thesis using Suc by simp
    next
      case False
      then have "unat (j - (i + 1)) = unat (j - i) - 1" "0 < unat (j - i)"
        using unat_minus_one [of "j - i"] by (simp_all add: diff_diff_eq unat_gt_0)
      then show ?thesis using False Suc by auto
    qed
    finally show ?thesis .
  qed
qed

lemma window_open:
  "open_window 256 cur (cur + WINDOW_WIDTH) (\<lambda>_. True) i \<longleftrightarrow> 127 \<le> unat (i - cur)"
  using open_window_iff [of 127 256 cur "\<lambda>_. True" i] by (simp add: WINDOW_WIDTH_value)

lemma resync_outcome:
  "resync lib ds s = (os, Ok s') \<Longrightarrow>
   \<exists>first packet. first_datagram ds = Ok first \<and> rq_deserialize lib first = Some packet
     \<and> os = [SetTurn (rq_block_number lib packet)] \<and> cur_id s' = rq_block_number lib packet
     \<and> \<not> reset s' \<and> blocks_data s' = (\<lambda>_. []) \<and> window_ok s'"
  by (cases "first_datagram ds")
    (auto simp: resync_def lift_def deserialize_def say_def Let_def ret_def window_ok_def window_open
      split: option.splits)

lemma push_packet_inv: "stored_ok s \<Longrightarrow> stored_ok (push_packet lib p s)"
  by (auto simp: stored_ok_def push_packet_def Let_def)

lemma push_packet_same:
  "blocks_ignore (push_packet lib p s) = blocks_ignore s"
  "cur_id (push_packet lib p s) = cur_id s"
  "reset (push_packet lib p s) = reset s"
  by (simp_all add: push_packet_def Let_def)

lemma push_datagrams_inv:
  "push_datagrams lib ds s = Ok s' \<Longrightarrow>
   (stored_ok s \<longrightarrow> stored_ok s') \<and> blocks_ignore s' = blocks_ignore s \<and> cur_id s' = cur_id s
     \<and> reset s' = reset s"
proof (induction ds arbitrary: s)
  case Nil
  then show ?case by simp
next
  case (Cons d ds)
  then obtain p where "push_datagrams lib ds (push_packet lib p s) = Ok s'"
    by (auto simp: and_then_eq_Ok)
  from Cons.IH [OF this] show ?case by (auto simp: push_packet_inv push_packet_same)
qed

text \<open>Handing a block on moves the window by one block; the far end was ignored, so it is empty.\<close>

lemma advance_window:
  assumes "stored_ok s" and "window_ok s"
  shows "stored_ok (advance s\<lparr>cur_id := cur_id s + 1\<rparr>)" and "window_ok (advance s\<lparr>cur_id := cur_id s + 1\<rparr>)"
    and "blocks_data (advance s) (cur_id s + WINDOW_WIDTH) = []"
proof -
  have far: "blocks_data s (cur_id s + 127) = []"
    using assms by (simp add: stored_ok_def window_ok_def)
  then show "blocks_data (advance s) (cur_id s + WINDOW_WIDTH) = []"
    by (simp add: advance_def WINDOW_WIDTH_value)
  show "stored_ok (advance s\<lparr>cur_id := cur_id s + 1\<rparr>)"
    using assms far by (auto simp: stored_ok_def advance_def WINDOW_WIDTH_value)
  show "window_ok (advance s\<lparr>cur_id := cur_id s + 1\<rparr>)"
    unfolding window_ok_def
  proof
    fix i
    show "blocks_ignore (advance s\<lparr>cur_id := cur_id s + 1\<rparr>) i
      \<longleftrightarrow> 127 \<le> unat (i - cur_id (advance s\<lparr>cur_id := cur_id s + 1\<rparr>))"
    proof (cases "i = cur_id s")
      case True
      have "unat (- 1 :: u8) = 255"
        by (rule trans [OF unsigned_minus_1_eq_mask]) (simp add: mask_eq_exp_minus_1)
      then show ?thesis using True by (simp add: advance_def WINDOW_WIDTH_value)
    next
      case False
      then have d: "i - cur_id s \<noteq> 0" by simp
      have u: "unat (i - (cur_id s + 1)) = unat (i - cur_id s) - 1"
        using unat_minus_one [OF d] by (simp add: diff_diff_eq)
      have "i = cur_id s + 127 \<longleftrightarrow> unat (i - cur_id s) = 127"
      proof
        assume "unat (i - cur_id s) = 127"
        then have "i - cur_id s = 127" by (intro word_unat_eq_iff [THEN iffD2]) simp
        then show "i = cur_id s + 127" by (simp add: algebra_simps)
      qed simp
      moreover have "blocks_ignore (advance s\<lparr>cur_id := cur_id s + 1\<rparr>) i
          \<longleftrightarrow> i \<noteq> cur_id s + 127 \<and> blocks_ignore s i"
        using False by (simp add: advance_def WINDOW_WIDTH_value)
      moreover have "blocks_ignore s i \<longleftrightarrow> 127 \<le> unat (i - cur_id s)"
        using assms(2) by (simp only: window_ok_def)
      moreover have "cur_id (advance s\<lparr>cur_id := cur_id s + 1\<rparr>) = cur_id s + 1" by simp
      ultimately show ?thesis using u by (simp only:) linarith
    qed
  qed
qed

definition emit_sound :: "'pkt reblock \<Rightarrow> ('pkt reblock_event, receive_error, 'pkt reblock) act \<Rightarrow> bool" where
  "emit_sound s m \<longleftrightarrow> ToDecode SyncError \<notin> set (fst m) \<and> (\<forall>s'. snd m = Ok s' \<longrightarrow>
     stored_ok s' \<and> window_ok s' \<and> reset s' = reset s)"

lemma reblock_emit_sound:
  fixes s :: "'pkt reblock"
  assumes "reblock_emit up min_nb s = Some m" and "stored_ok s" and "window_ok s"
  shows "emit_sound s m"
proof -
  have "stored_ok s \<longrightarrow> window_ok s \<longrightarrow> emit_sound s m"
  proof (rule reblock_emit.raw_induct [where P = "\<lambda>up min_nb s m. stored_ok s \<longrightarrow> window_ok s \<longrightarrow> emit_sound s m",
        OF _ assms(1)], intro impI)
    fix rec :: "('pkt reblock_event \<Rightarrow> bool) \<Rightarrow> nat \<Rightarrow> 'pkt reblock \<Rightarrow>
        ('pkt reblock_event, receive_error, 'pkt reblock) act option"
      and up :: "'pkt reblock_event \<Rightarrow> bool" and min_nb and s :: "'pkt reblock" and m
    assume IH: "\<And>up min_nb s m. rec up min_nb s = Some m \<Longrightarrow> stored_ok s \<longrightarrow> window_ok s \<longrightarrow> emit_sound s m"
    define send where
      "send = emit up R_SendBlockPackets (ToDecode (Reassembled (cur_id s) (blocks_data s (cur_id s))))"
    assume m: "(if length (blocks_data s (cur_id s)) < min_nb then Some (ret s)
      else
        let send = emit up R_SendBlockPackets (ToDecode (Reassembled (cur_id s) (blocks_data s (cur_id s))));
            opposite = cur_id s + WINDOW_WIDTH;
            s' = advance s in
        if snd send \<noteq> Ok () then Some (bind_act send (\<lambda>_. ret s'))
        else if blocks_data s' opposite \<noteq> []
        then Some (bind_act send (\<lambda>_.
               bind_act (emit up R_SendBlockPackets (ToDecode SyncError)) (\<lambda>_. ret (s'\<lparr>reset := True\<rparr>))))
        else Option.bind (rec up min_nb (s'\<lparr>cur_id := cur_id s + 1\<rparr>)) (\<lambda>m.
               Some (bind_act send (\<lambda>_. m)))) = Some m"
    assume ok: "stored_ok s" "window_ok s"
    note adv = advance_window [OF ok]
    have send: "ToDecode SyncError \<notin> set (fst send)" by (simp add: send_def emit_def)
    consider (short) "length (blocks_data s (cur_id s)) < min_nb" | (refused) "snd send \<noteq> Ok ()" "m = bind_act send (\<lambda>_. ret (advance s))"
      | (sent) m' where "snd send = Ok ()" "rec up min_nb (advance s\<lparr>cur_id := cur_id s + 1\<rparr>) = Some m'"
          "m = bind_act send (\<lambda>_. m')"
      using m adv(3) by (auto simp: Let_def send_def [symmetric] bind_eq_Some_conv split: if_splits)
    then show "emit_sound s m"
    proof cases
      case short
      then show ?thesis using m ok by (auto simp: emit_sound_def ret_def)
    next
      case refused
      then show ?thesis using send by (cases send; cases "snd send") (auto simp: emit_sound_def)
    next
      case sent
      with IH [OF sent(2)] adv(1,2) have "emit_sound (advance s\<lparr>cur_id := cur_id s + 1\<rparr>) m'" by blast
      then show ?thesis using sent send by (cases send) (auto simp: emit_sound_def advance_def)
    qed
  qed
  then show ?thesis using assms(2,3) by blast
qed

lemma reblock_step_sound:
  assumes "reblock_inv s"
  shows "m \<in> set (fst (reblock_step lib min_nb s i)) \<Longrightarrow> m \<noteq> ToDecode SyncError"
    and "snd (reblock_step lib min_nb s i) = Ok (Continue s') \<Longrightarrow> reblock_inv s'"
proof -
  have ok: "stored_ok s" using assms by (simp add: reblock_inv_def)
  obtain up r where i: "i = (up, r)" by (cases i)
  have "ToDecode SyncError \<notin> set (fst (reblock_step lib min_nb s i))
    \<and> (snd (reblock_step lib min_nb s i) = Ok (Continue s') \<longrightarrow> reblock_inv s')"
  proof (cases r)
    case Timeout
    have "\<not> damaged s" using ok by (auto simp: damaged_def stored_ok_def list_ex_iff)
    then show ?thesis using i Timeout assms by (auto simp: ret_def reblock_inv_def stored_ok_def window_ok_def)
  next
    case Disconnected
    then show ?thesis using i by (simp add: lift_def)
  next
    case (Msg ds)
    define m1 where "m1 = (if reset s then resync lib ds s else ret s)"
    have m1: "ToDecode SyncError \<notin> set (fst m1)"
      by (auto simp: m1_def resync_def lift_def say_def ret_def Let_def bind_act_def
          split: res.splits)
    show ?thesis
    proof (cases "\<exists>os s1. m1 = (os, Ok s1)")
      case False
      then show ?thesis using m1 i Msg by (cases m1; cases "snd m1") (auto simp flip: m1_def)
    next
      case True
      then obtain os s1 where s1: "m1 = (os, Ok s1)" by blast
      have ok1: "stored_ok s1" "window_ok s1"
      proof -
        have "stored_ok s1 \<and> window_ok s1"
        proof (cases "reset s")
          case True
          then have "resync lib ds s = (os, Ok s1)" using s1 by (simp add: m1_def)
          then show ?thesis by (auto dest: resync_outcome simp: stored_ok_def)
        next
          case False
          then show ?thesis using s1 assms by (auto simp: m1_def ret_def reblock_inv_def)
        qed
        then show "stored_ok s1" "window_ok s1" by simp_all
      qed
      show ?thesis
      proof (cases "\<exists>s2. push_datagrams lib (datagram_list ds) s1 = Ok s2")
        case False
        then show ?thesis using s1 m1 i Msg
          by (cases "push_datagrams lib (datagram_list ds) s1") (auto simp: lift_def simp flip: m1_def)
      next
        case True
        then obtain s2 where s2: "push_datagrams lib (datagram_list ds) s1 = Ok s2" by blast
        from push_datagrams_inv [OF s2] ok1 have ok2: "stored_ok s2" "window_ok s2"
          by (auto simp: window_ok_def)
        show ?thesis
        proof (cases "reblock_emit up min_nb s2")
          case None
          then show ?thesis using s1 s2 m1 i Msg
            by (auto simp: lift_def diverging_def simp flip: m1_def)
        next
          case (Some m)
          from reblock_emit_sound [OF Some ok2] show ?thesis
            using s1 s2 m1 i Msg Some
            by (cases m; cases "snd m") (auto simp: lift_def diverging_def ret_def emit_sound_def
                reblock_inv_def simp flip: m1_def)
        qed
      qed
    qed
  qed
  then show "m \<in> set (fst (reblock_step lib min_nb s i)) \<Longrightarrow> m \<noteq> ToDecode SyncError"
    and "snd (reblock_step lib min_nb s i) = Ok (Continue s') \<Longrightarrow> reblock_inv s'"
    by auto
qed

lemma reblock_init_inv: "reblock_inv reblock_init"
  by (simp add: reblock_inv_def reblock_init_def stored_ok_def)

interpretation reblocker: worker "reblock_step lib min_nb" reblock_inv "\<lambda>m. m \<noteq> ToDecode SyncError"
  for lib :: "('plan, 'cfg, 'pkt) raptorq_lib" and min_nb
proof
  fix s :: "'pkt reblock" and m i
  assume "reblock_inv s" and "m \<in> set (fst (reblock_step lib min_nb s i))"
  then show "m \<noteq> ToDecode SyncError" by (rule reblock_step_sound(1))
next
  fix s s' :: "'pkt reblock" and i
  assume "reblock_inv s" and "snd (reblock_step lib min_nb s i) = Ok (Continue s')"
  then show "reblock_inv s'" by (rule reblock_step_sound(2))
qed

section \<open>The abstract reassembler\<close>

text \<open>
  Blocks have integer numbers. Packets of blocks already handed on are dropped; then the blocks
  that have enough packets are handed on, in order, up to the first one that has not.
\<close>

record 'pkt reorder =
  next_block :: int
  stored :: "int \<Rightarrow> 'pkt list"

definition reorder_push :: "int \<times> 'pkt \<Rightarrow> 'pkt reorder \<Rightarrow> 'pkt reorder" where
  "reorder_push = (\<lambda>(b, p) r. if b < next_block r then r
     else r\<lparr>stored := (stored r)(b := stored r b @ [p])\<rparr>)"

definition full_blocks :: "nat \<Rightarrow> 'pkt reorder \<Rightarrow> int list" where
  "full_blocks min_nb r = takeWhile (\<lambda>b. min_nb \<le> length (stored r b))
     (map (\<lambda>k. next_block r + int k) [0..<127])"

definition reorder_step ::
  "nat \<Rightarrow> (int \<times> 'pkt) list \<Rightarrow> 'pkt reorder \<Rightarrow> (int \<times> 'pkt list) list \<times> 'pkt reorder"
where
  "reorder_step min_nb arrivals r =
     (let r = fold reorder_push arrivals r; full = full_blocks min_nb r
      in (map (\<lambda>b. (b, stored r b)) full, r\<lparr>next_block := next_block r + int (length full)\<rparr>))"

fun reorder_run ::
  "nat \<Rightarrow> 'pkt reorder \<Rightarrow> (int \<times> 'pkt) list list \<Rightarrow> (int \<times> 'pkt list) list \<times> 'pkt reorder"
where
  "reorder_run min_nb r [] = ([], r)"
| "reorder_run min_nb r (a # as) =
     (let (out1, r1) = reorder_step min_nb a r; (out2, r2) = reorder_run min_nb r1 as
      in (out1 @ out2, r2))"

definition reorder_init :: "int \<Rightarrow> 'pkt reorder" where
  "reorder_init b = \<lparr>next_block = b, stored = (\<lambda>_. [])\<rparr>"

text \<open>Packets arrive at most 126 blocks early and at most 129 blocks late.\<close>

definition on_time :: "'pkt reorder \<Rightarrow> int \<times> 'pkt \<Rightarrow> bool" where
  "on_time r a \<longleftrightarrow> next_block r - 129 \<le> fst a \<and> fst a < next_block r + 127"

fun timely :: "nat \<Rightarrow> 'pkt reorder \<Rightarrow> (int \<times> 'pkt) list list \<Rightarrow> bool" where
  "timely min_nb r [] \<longleftrightarrow> True"
| "timely min_nb r (a # as) \<longleftrightarrow> list_all (on_time r) a \<and> timely min_nb (snd (reorder_step min_nb a r)) as"

definition arrivals_of :: "int \<Rightarrow> (int \<times> 'pkt) list \<Rightarrow> 'pkt list" where
  "arrivals_of b as = map snd (filter (\<lambda>a. fst a = b) as)"

lemma arrivals_of_append [simp]: "arrivals_of b (xs @ ys) = arrivals_of b xs @ arrivals_of b ys"
  by (simp add: arrivals_of_def)

lemma fold_push:
  "next_block (fold reorder_push as r) = next_block r"
  "stored (fold reorder_push as r) b =
     (if b < next_block r then stored r b else stored r b @ arrivals_of b as)"
proof -
  have "next_block (fold reorder_push as r) = next_block r \<and> stored (fold reorder_push as r) b =
     (if b < next_block r then stored r b else stored r b @ arrivals_of b as)"
  proof (induction as arbitrary: r)
    case Nil
    then show ?case by (simp add: arrivals_of_def)
  next
    case (Cons a as)
    obtain c p where a: "a = (c, p)" by (cases a)
    then show ?case using Cons [of "reorder_push a r"]
      by (auto simp: reorder_push_def arrivals_of_def)
  qed
  then show "next_block (fold reorder_push as r) = next_block r"
    and "stored (fold reorder_push as r) b =
     (if b < next_block r then stored r b else stored r b @ arrivals_of b as)" by auto
qed

text \<open>What has happened after the arrivals \<open>past\<close>: \<open>outs\<close> was handed on, from block \<open>b0\<close>.\<close>

definition reorder_inv ::
  "nat \<Rightarrow> int \<Rightarrow> (int \<times> 'pkt) list \<Rightarrow> (int \<times> 'pkt list) list \<Rightarrow> 'pkt reorder \<Rightarrow> bool"
where
  "reorder_inv min_nb b0 past outs r \<longleftrightarrow>
     next_block r = b0 + int (length outs)
   \<and> map fst outs = map (\<lambda>k. b0 + int k) [0..<length outs]
   \<and> (\<forall>(b, ps) \<in> set outs. min_nb \<le> length ps \<and> (\<exists>rest. arrivals_of b past = ps @ rest))
   \<and> (\<forall>b \<ge> next_block r. stored r b = arrivals_of b past)
   \<and> (\<forall>b \<ge> next_block r + 127. stored r b = [])
   \<and> length (stored r (next_block r)) < min_nb"

lemma reorder_init_inv: "0 < min_nb \<Longrightarrow> reorder_inv min_nb b0 [] [] (reorder_init b0)"
  by (simp add: reorder_inv_def reorder_init_def arrivals_of_def)

lemma full_blocks_numbers:
  "full_blocks min_nb r = map (\<lambda>k. next_block r + int k) [0..<length (full_blocks min_nb r)]"
  by (rule nth_equalityI) (auto simp: full_blocks_def takeWhile_nth dest: length_takeWhile_le [THEN order.strict_trans2 [rotated]])

lemma full_blocks_stop:
  assumes "length (full_blocks min_nb r) < 127"
  shows "length (stored r (next_block r + int (length (full_blocks min_nb r)))) < min_nb"
  using assms nth_length_takeWhile [of "\<lambda>b. min_nb \<le> length (stored r b)" "map (\<lambda>k. next_block r + int k) [0..<127]"]
  by (simp add: full_blocks_def not_le)

lemma full_blocks_len: "length (full_blocks min_nb r) \<le> 127"
  using length_takeWhile_le [of _ "map (\<lambda>k. next_block r + int k) [0..<127]"]
  by (simp add: full_blocks_def)

lemma full_blocks_full: "b \<in> set (full_blocks min_nb r) \<Longrightarrow> min_nb \<le> length (stored r b)"
  by (auto simp: full_blocks_def dest: set_takeWhileD)

lemma reorder_inv_step:
  assumes inv: "reorder_inv min_nb b0 past outs r" and "0 < min_nb" and "list_all (on_time r) a"
    and step: "reorder_step min_nb a r = (out, r')"
  shows "reorder_inv min_nb b0 (past @ a) (outs @ out) r'"
proof -
  define r1 where "r1 = fold reorder_push a r"
  define full where "full = full_blocks min_nb r1"
  note I = inv [unfolded reorder_inv_def]
  have next1: "next_block r1 = next_block r" by (simp add: r1_def fold_push)
  have out: "out = map (\<lambda>b. (b, stored r1 b)) full" and r': "r' = r1\<lparr>next_block := next_block r1 + int (length full)\<rparr>"
    using step by (auto simp: reorder_step_def Let_def r1_def full_def)
  have st: "stored r1 b = arrivals_of b (past @ a)" if "next_block r \<le> b" for b
    using I that by (simp add: r1_def fold_push)
  have far: "stored r1 b = []" if "next_block r + 127 \<le> b" for b
  proof -
    have "arrivals_of b a = []"
      using assms(3) that by (auto simp: arrivals_of_def list_all_iff on_time_def filter_empty_conv)
    moreover have "stored r b = []" using I that by blast
    ultimately show ?thesis by (simp add: r1_def fold_push)
  qed
  have len: "length full \<le> 127" using full_blocks_len by (simp add: full_def)
  have numbers: "full = map (\<lambda>k. b0 + int (length outs) + int k) [0..<length full]"
    using full_blocks_numbers [of min_nb r1] I by (simp add: full_def next1)
  have nth: "full ! i = b0 + int (length outs) + int i" if "i < length full" for i
    by (subst numbers) (use that in simp)
  have "map fst (outs @ out) = map (\<lambda>k. b0 + int k) [0..<length outs + length full]"
  proof -
    have "map fst out = full" by (simp add: out comp_def)
    also have "\<dots> = map (\<lambda>k. b0 + int k) [length outs..<length outs + length full]"
      using nth by (intro nth_equalityI) simp_all
    finally have "map fst out = map (\<lambda>k. b0 + int k) [length outs..<length outs + length full]" .
    moreover have "[0..<length outs + length full] = [0..<length outs] @ [length outs..<length outs + length full]"
      by (rule upt_add_eq_append) simp
    ultimately show ?thesis using I by simp
  qed
  moreover have "\<forall>(b, ps) \<in> set (outs @ out). min_nb \<le> length ps \<and> (\<exists>rest. arrivals_of b (past @ a) = ps @ rest)"
  proof -
    have "min_nb \<le> length (stored r1 b) \<and> stored r1 b = arrivals_of b (past @ a)" if b: "b \<in> set full" for b
    proof -
      from b obtain k where "b = b0 + int (length outs) + int k" by (subst (asm) numbers) auto
      then have "next_block r \<le> b" using I by simp
      then show ?thesis using st full_blocks_full [of b min_nb r1] b by (simp add: full_def)
    qed
    then show ?thesis using I by (fastforce simp: out)
  qed
  moreover have "length (stored r' (next_block r')) < min_nb"
  proof (cases "length full < 127")
    case True
    then show ?thesis using full_blocks_stop [of min_nb r1] by (simp add: r' full_def)
  next
    case False
    then have "length full = 127" using len by simp
    then show ?thesis using far [of "next_block r + 127"] assms(2) by (simp add: r' next1)
  qed
  ultimately show ?thesis
    using I st far by (auto simp: reorder_inv_def r' next1 out)
qed

lemma reorder_inv_run:
  assumes "reorder_inv min_nb b0 past outs r" and "0 < min_nb" and "timely min_nb r as"
    and "reorder_run min_nb r as = (out, r')"
  shows "reorder_inv min_nb b0 (past @ concat as) (outs @ out) r'"
  using assms
proof (induction as arbitrary: past outs r out)
  case Nil
  then show ?case by simp
next
  case (Cons a as)
  obtain out1 r1 where st: "reorder_step min_nb a r = (out1, r1)" by (cases "reorder_step min_nb a r")
  obtain out2 where rn: "reorder_run min_nb r1 as = (out2, r')" and out: "out = out1 @ out2"
    using Cons.prems(4) st by (cases "reorder_run min_nb r1 as") auto
  have "reorder_inv min_nb b0 (past @ a) (outs @ out1) r1"
    using Cons.prems st by (intro reorder_inv_step) auto
  from Cons.IH [OF this Cons.prems(2) _ rn] Cons.prems(3) st show ?case by (simp add: out)
qed

text \<open>What the abstract reassembler promises.\<close>

lemma reorder_promise:
  assumes "0 < min_nb" and "timely min_nb (reorder_init b0) as"
    and "reorder_run min_nb (reorder_init b0) as = (outs, r)"
  shows "map fst outs = map (\<lambda>k. b0 + int k) [0..<length outs]"
    and "\<forall>(b, ps) \<in> set outs. min_nb \<le> length ps \<and> (\<exists>rest. arrivals_of b (concat as) = ps @ rest)"
    and "k < length outs \<longleftrightarrow> (\<forall>j \<le> k. min_nb \<le> length (arrivals_of (b0 + int j) (concat as)))"
proof -
  note inv = reorder_inv_run [OF reorder_init_inv [OF assms(1)] assms(1-3), simplified, unfolded reorder_inv_def]
  then show nums: "map fst outs = map (\<lambda>k. b0 + int k) [0..<length outs]"
    and packets: "\<forall>(b, ps) \<in> set outs. min_nb \<le> length ps \<and> (\<exists>rest. arrivals_of b (concat as) = ps @ rest)"
    by auto
  show "k < length outs \<longleftrightarrow> (\<forall>j \<le> k. min_nb \<le> length (arrivals_of (b0 + int j) (concat as)))"
  proof
    assume k: "k < length outs"
    show "\<forall>j \<le> k. min_nb \<le> length (arrivals_of (b0 + int j) (concat as))"
    proof (intro allI impI)
      fix j assume "j \<le> k"
      then have j: "j < length outs" using k by simp
      obtain b ps where o: "outs ! j = (b, ps)" by (cases "outs ! j")
      have "map fst outs ! j = b0 + int j" using j by (simp add: nums)
      then have "b = b0 + int j" using j o by simp
      moreover have "(b, ps) \<in> set outs" using j o by (metis nth_mem)
      ultimately show "min_nb \<le> length (arrivals_of (b0 + int j) (concat as))"
        using packets by fastforce
    qed
  next
    assume all: "\<forall>j \<le> k. min_nb \<le> length (arrivals_of (b0 + int j) (concat as))"
    have "length (arrivals_of (b0 + int (length outs)) (concat as)) < min_nb"
      using inv by (metis order_refl)
    then show "k < length outs" using all by (metis not_le)
  qed
qed

section \<open>Refinement\<close>

lemma bind_act_prefix [simp]:
  "bind_act (x # fst m, snd m) k = (x # fst (bind_act m k), snd (bind_act m k))"
  by (cases m; cases "snd m") auto

text \<open>Block \<open>b\<close> of the abstract reassembler has the number \<open>b mod 256\<close>.\<close>

definition reblock_rel :: "'pkt reblock \<Rightarrow> 'pkt reorder \<Rightarrow> bool" where
  "reblock_rel s r \<longleftrightarrow> \<not> reset s \<and> stored_ok s \<and> window_ok s \<and> cur_id s = of_int (next_block r)
     \<and> (\<forall>k < 127. blocks_data s (cur_id s + of_nat k) = stored r (next_block r + int k))
     \<and> (\<forall>b \<ge> next_block r + 127. stored r b = [])"

definition reads_as ::
  "('plan, 'cfg, 'pkt) raptorq_lib \<Rightarrow> bytes \<Rightarrow> int \<times> 'pkt \<Rightarrow> bool" where
  "reads_as lib d a \<longleftrightarrow> rq_deserialize lib d = Some (snd a) \<and> rq_block_number lib (snd a) = of_int (fst a)"

lemma unat_of_nat_u8: "k < 256 \<Longrightarrow> unat (of_nat k :: u8) = k"
  by (simp add: unat_of_nat)

lemma push_refines:
  assumes rel: "reblock_rel s r" and "on_time r (b, p)" and num: "rq_block_number lib p = of_int b"
  shows "reblock_rel (push_packet lib p s) (reorder_push (b, p) r)"
proof -
  note R = rel [unfolded reblock_rel_def]
  have ign: "blocks_ignore s i \<longleftrightarrow> 127 \<le> unat (i - cur_id s)" for i
    using R by (simp add: window_ok_def)
  show ?thesis
  proof (cases "b < next_block r")
    case True
    define k where "k = nat (256 - (next_block r - b))"
    have k: "127 \<le> k" "k < 256" "int k = (b - next_block r) + 256"
      using True assms(2) by (auto simp: k_def on_time_def)
    have "(of_nat k :: u8) = of_int (int k)" by simp
    also have "\<dots> = of_int (b - next_block r)"
      unfolding k(3) word_of_int_eq_iff by (simp add: take_bit_eq_mod)
    also have "\<dots> = of_int b - of_int (next_block r)" by simp
    finally have "unat (of_int b - cur_id s) = k"
      using unat_of_nat_u8 [OF k(2)] R by simp
    then have "blocks_ignore s (of_int b)" using ign k(1) by simp
    then show ?thesis using rel num True by (simp add: push_packet_def reorder_push_def)
  next
    case False
    define k where "k = nat (b - next_block r)"
    have k: "k < 127" "b = next_block r + int k"
      using False assms(2) by (auto simp: k_def on_time_def)
    then have i: "of_int b = cur_id s + of_nat k" using R by simp
    have nig: "\<not> blocks_ignore s (cur_id s + of_nat k)"
      using ign k(1) unat_of_nat_u8 [of k] by simp
    have inj: "cur_id s + of_nat j = cur_id s + of_nat k \<longleftrightarrow> j = k" if "j < 127" for j
    proof
      assume "cur_id s + of_nat j = cur_id s + of_nat k"
      then have "(of_nat j :: u8) = of_nat k" by simp
      then have "unat (of_nat j :: u8) = unat (of_nat k :: u8)" by simp
      then show "j = k" using that k(1) by (simp add: unat_of_nat_u8)
    qed simp
    have "push_packet lib p s = s\<lparr>blocks_data :=
        (blocks_data s)(cur_id s + of_nat k := blocks_data s (cur_id s + of_nat k) @ [p])\<rparr>"
      using nig num i by (simp add: push_packet_def Let_def)
    moreover have "reorder_push (b, p) r = r\<lparr>stored := (stored r)(b := stored r b @ [p])\<rparr>"
      using False by (simp add: reorder_push_def)
    ultimately show ?thesis
      using R nig k inj by (auto simp: reblock_rel_def stored_ok_def window_ok_def)
  qed
qed

lemma push_datagrams_refines:
  assumes "reblock_rel s r" and "list_all2 (reads_as lib) ds arrivals" and "list_all (on_time r) arrivals"
  shows "\<exists>s'. push_datagrams lib ds s = Ok s' \<and> reblock_rel s' (fold reorder_push arrivals r)"
  using assms(2,1,3)
proof (induction arbitrary: s r rule: list_all2_induct)
  case Nil
  then show ?case by simp
next
  case (Cons d ds a arrivals)
  obtain b p where a: "a = (b, p)" by (cases a)
  have "reblock_rel (push_packet lib p s) (reorder_push a r)"
    using Cons a by (auto simp: reads_as_def intro: push_refines)
  moreover have "next_block (reorder_push a r) = next_block r"
    using fold_push(1) [of "[a]" r] by simp
  then have "list_all (on_time (reorder_push a r)) arrivals"
    using Cons.prems(2) by (auto simp: list_all_iff on_time_def)
  ultimately show ?case
    using Cons.IH Cons.hyps(1) a by (auto simp: reads_as_def deserialize_def)
qed

text \<open>Handing on the blocks that are full: the loop stops after \<open>n\<close> of them.\<close>

definition emit_full :: "nat \<Rightarrow> 'pkt reblock \<Rightarrow> nat" where
  "emit_full min_nb s =
     length (takeWhile (\<lambda>k. min_nb \<le> length (blocks_data s (cur_id s + of_nat k))) [0..<127])"

lemma next_ids:
  assumes "Suc k < 256"
  shows "i + of_nat (Suc k) \<noteq> (i :: u8)"
proof
  assume "i + of_nat (Suc k) = i"
  then have "(of_nat (Suc k) :: u8) = 0" by (metis add.right_neutral add_left_cancel)
  then have "unat (of_nat (Suc k) :: u8) = 0" by (simp only: unat_0)
  then show False using unat_of_nat_u8 [OF assms] by (simp only: nat.distinct)
qed

lemma takeWhile_shift:
  assumes "P 0" and "\<And>k. k < m \<Longrightarrow> Q k \<longleftrightarrow> P (Suc k)" and "\<not> Q m"
  shows "length (takeWhile P [0..<Suc m]) = Suc (length (takeWhile Q [0..<Suc m]))"
proof -
  have "takeWhile P (map Suc [0..<m]) = map Suc (takeWhile Q [0..<m])"
    using assms(2) by (auto simp: takeWhile_map comp_def intro!: arg_cong [where f = "map Suc"] takeWhile_cong)
  moreover have "takeWhile Q [0..<Suc m] = takeWhile Q [0..<m]"
    using assms(3) by (simp add: takeWhile_tail)
  ultimately show ?thesis
    using assms(1) by (simp add: upt_conv_Cons map_Suc_upt [symmetric] del: upt_Suc)
qed

lemma emit_full_advance:
  assumes "stored_ok s" and "window_ok s" and "0 < min_nb" and "min_nb \<le> length (blocks_data s (cur_id s))"
  shows "emit_full min_nb s = Suc (emit_full min_nb (advance s\<lparr>cur_id := cur_id s + 1\<rparr>))"
proof -
  define s' where "s' = advance s\<lparr>cur_id := cur_id s + 1\<rparr>"
  have shift: "blocks_data s' (cur_id s' + of_nat k) = blocks_data s (cur_id s + of_nat (Suc k))"
    if "k < 126" for k
  proof -
    have "cur_id s + of_nat (Suc k) \<noteq> cur_id s" by (rule next_ids) (use that in simp)
    then show ?thesis by (simp add: s'_def advance_def ac_simps)
  qed
  have far: "blocks_data s' (cur_id s' + of_nat 126) = []"
    using advance_window(3) [OF assms(1,2)] by (simp add: s'_def WINDOW_WIDTH_value advance_def ac_simps)
  have "length (takeWhile (\<lambda>k. min_nb \<le> length (blocks_data s (cur_id s + of_nat k))) [0..<Suc 126])
    = Suc (length (takeWhile (\<lambda>k. min_nb \<le> length (blocks_data s' (cur_id s' + of_nat k))) [0..<Suc 126]))"
    using assms(3,4) shift far by (intro takeWhile_shift) simp_all
  then show ?thesis by (simp add: emit_full_def s'_def)
qed

lemma reblock_emit_exact:
  assumes "stored_ok s" and "window_ok s" and "0 < min_nb"
  shows "\<exists>s'. reblock_emit (\<lambda>_. True) min_nb s = Some
        (map (\<lambda>k. ToDecode (Reassembled (cur_id s + of_nat k) (blocks_data s (cur_id s + of_nat k))))
           [0..<emit_full min_nb s], Ok s')
      \<and> stored_ok s' \<and> window_ok s' \<and> reset s' = reset s \<and> cur_id s' = cur_id s + of_nat (emit_full min_nb s)
      \<and> (\<forall>i. blocks_data s' i = (if unat (i - cur_id s) < emit_full min_nb s then [] else blocks_data s i))"
  using assms
proof (induction "emit_full min_nb s" arbitrary: s)
  case 0
  have "\<not> min_nb \<le> length (blocks_data s (cur_id s))"
    using emit_full_advance [OF "0.prems"(1,2,3)] "0.hyps" by fastforce
  then show ?case
    using 0 by (subst reblock_emit.simps) (simp add: ret_def)
next
  case (Suc n)
  have full: "min_nb \<le> length (blocks_data s (cur_id s))"
  proof (rule ccontr)
    assume "\<not> ?thesis"
    then have "emit_full min_nb s = 0" by (simp add: emit_full_def upt_conv_Cons)
    then show False using Suc.hyps(2) by simp
  qed
  define s1 where "s1 = advance s\<lparr>cur_id := cur_id s + 1\<rparr>"
  note adv = advance_window [OF Suc.prems(1,2)]
  have n: "n = emit_full min_nb s1"
    using emit_full_advance [OF Suc.prems(1-3) full] Suc.hyps(2) by (simp add: s1_def)
  from Suc.hyps(1) [OF n adv(1,2) [folded s1_def] Suc.prems(3)] obtain s' where
    run: "reblock_emit (\<lambda>_. True) min_nb s1 = Some
        (map (\<lambda>k. ToDecode (Reassembled (cur_id s1 + of_nat k) (blocks_data s1 (cur_id s1 + of_nat k)))) [0..<n], Ok s')"
    and s': "stored_ok s'" "window_ok s'" "reset s' = reset s1" "cur_id s' = cur_id s1 + of_nat n"
      "\<And>i. blocks_data s' i = (if unat (i - cur_id s1) < n then [] else blocks_data s1 i)"
    by (auto simp flip: n)
  have n127: "n < 127"
    using Suc.hyps(2) length_takeWhile_le [of _ "[0..<127]"] unfolding emit_full_def
    by (metis Suc_le_lessD diff_zero length_upt)
  have moved: "blocks_data s1 (cur_id s1 + of_nat k) = blocks_data s (cur_id s + of_nat (Suc k))" if "k < n" for k
  proof -
    have "cur_id s + of_nat (Suc k) \<noteq> cur_id s" by (rule next_ids) (use that n127 in simp)
    then show ?thesis by (simp add: s1_def advance_def ac_simps)
  qed
  have emit: "reblock_emit (\<lambda>_. True) min_nb s = Some
      (map (\<lambda>k. ToDecode (Reassembled (cur_id s + of_nat k) (blocks_data s (cur_id s + of_nat k)))) [0..<Suc n], Ok s')"
  proof -
    have "reblock_emit (\<lambda>_. True) min_nb s = Some
      (ToDecode (Reassembled (cur_id s) (blocks_data s (cur_id s)))
       # map (\<lambda>k. ToDecode (Reassembled (cur_id s1 + of_nat k) (blocks_data s1 (cur_id s1 + of_nat k)))) [0..<n], Ok s')"
      using full adv(3) run by (subst reblock_emit.simps) (simp add: emit_def s1_def)
    moreover have "map (\<lambda>k. ToDecode (Reassembled (cur_id s1 + of_nat k) (blocks_data s1 (cur_id s1 + of_nat k)))) [0..<n]
      = map (\<lambda>k. ToDecode (Reassembled (cur_id s + of_nat (Suc k)) (blocks_data s (cur_id s + of_nat (Suc k))))) [0..<n]"
      using moved by (simp add: s1_def ac_simps)
    ultimately show ?thesis
      by (simp add: upt_conv_Cons map_Suc_upt [symmetric] comp_def del: upt_Suc)
  qed
  have data: "blocks_data s' i = (if unat (i - cur_id s) < Suc n then [] else blocks_data s i)" for i
  proof (cases "i = cur_id s")
    case True
    have "blocks_data s1 i = []" using True by (simp add: s1_def advance_def)
    then show ?thesis using s'(5) [of i] True by simp
  next
    case False
    then have u: "i - cur_id s \<noteq> 0" by simp
    then have "unat (i - cur_id s1) = unat (i - cur_id s) - 1" "0 < unat (i - cur_id s)"
      using unat_minus_one [OF u] by (simp_all add: s1_def diff_diff_eq unat_gt_0)
    moreover have "blocks_data s1 i = blocks_data s i" using False by (simp add: s1_def advance_def)
    ultimately show ?thesis using s'(5) [of i] by auto
  qed
  show ?case
    unfolding Suc.hyps(2) [symmetric]
    using emit s' data by (intro exI [of _ s'] conjI) (simp_all add: s1_def advance_def ac_simps)
qed

text \<open>The blocks handed on by the abstract reassembler, as messages.\<close>

definition block_messages :: "(int \<times> 'pkt list) list \<Rightarrow> 'pkt reblock_event list" where
  "block_messages outs = map (\<lambda>(b, ps). ToDecode (Reassembled (of_int b) ps)) outs"

lemma emit_refines:
  assumes rel: "reblock_rel s r" and "0 < min_nb"
  shows "\<exists>s'. reblock_emit (\<lambda>_. True) min_nb s = Some
       (block_messages (map (\<lambda>b. (b, stored r b)) (full_blocks min_nb r)), Ok s')
     \<and> reblock_rel s' (r\<lparr>next_block := next_block r + int (length (full_blocks min_nb r))\<rparr>)"
proof -
  note R = rel [unfolded reblock_rel_def]
  define n where "n = emit_full min_nb s"
  have full: "length (full_blocks min_nb r) = n"
  proof -
    have "takeWhile (\<lambda>k. min_nb \<le> length (stored r (next_block r + int k))) [0..<127]
        = takeWhile (\<lambda>k. min_nb \<le> length (blocks_data s (cur_id s + of_nat k))) [0..<127]"
      using R by (intro takeWhile_cong) auto
    then show ?thesis by (simp add: n_def emit_full_def full_blocks_def takeWhile_map comp_def)
  qed
  have n: "n \<le> 127" using full full_blocks_len by metis
  from reblock_emit_exact [OF _ _ assms(2), of s] R obtain s' where
    run: "reblock_emit (\<lambda>_. True) min_nb s = Some
        (map (\<lambda>k. ToDecode (Reassembled (cur_id s + of_nat k) (blocks_data s (cur_id s + of_nat k)))) [0..<n], Ok s')"
    and s': "stored_ok s'" "window_ok s'" "reset s' = reset s" "cur_id s' = cur_id s + of_nat n"
      "\<And>i. blocks_data s' i = (if unat (i - cur_id s) < n then [] else blocks_data s i)"
    by (auto simp: n_def)
  have msgs: "map (\<lambda>k. ToDecode (Reassembled (cur_id s + of_nat k) (blocks_data s (cur_id s + of_nat k)))) [0..<n]
      = block_messages (map (\<lambda>b. (b, stored r b)) (full_blocks min_nb r))"
  proof -
    have "of_int (next_block r + int k) = cur_id s + of_nat k" for k using R by simp
    moreover have "\<forall>k < 127. blocks_data s (cur_id s + of_nat k) = stored r (next_block r + int k)"
      using R by blast
    then have "blocks_data s (cur_id s + of_nat k) = stored r (next_block r + int k)" if "k < n" for k
      using n that by simp
    ultimately show ?thesis
      by (subst full_blocks_numbers) (simp add: block_messages_def comp_def full del: of_int_add)
  qed
  have data: "blocks_data s' (cur_id s' + of_nat k) = stored r (next_block r + int n + int k)" if "k < 127" for k
  proof -
    have nk: "unat (of_nat (n + k) :: u8) = n + k" using n that by (intro unat_of_nat_u8) simp
    have i: "cur_id s' + of_nat k = cur_id s + of_nat (n + k)" using s'(4) by (simp add: ac_simps)
    have d: "blocks_data s' (cur_id s' + of_nat k) = blocks_data s (cur_id s + of_nat (n + k))"
      unfolding i s'(5) using nk by simp
    show ?thesis
    proof (cases "n + k < 127")
      case True
      then show ?thesis using d R by (metis add.assoc of_nat_add)
    next
      case False
      have "unat (cur_id s + of_nat (n + k) - cur_id s) = n + k" using nk by simp
      then have "blocks_ignore s (cur_id s + of_nat (n + k))"
        using R False unfolding window_ok_def by simp
      then have "blocks_data s (cur_id s + of_nat (n + k)) = []" using R by (simp only: stored_ok_def)
      moreover have "stored r (next_block r + int n + int k) = []" using R False by simp
      ultimately show ?thesis using d by simp
    qed
  qed
  have "reblock_rel s' (r\<lparr>next_block := next_block r + int (length (full_blocks min_nb r))\<rparr>)"
    using R s' data by (simp add: reblock_rel_def full)
  then show ?thesis using run msgs by auto
qed

lemma step_refines:
  assumes "reblock_rel s r" and "0 < min_nb" and "list_all2 (reads_as lib) (datagram_list ds) arrivals"
    and "list_all (on_time r) arrivals"
  shows "\<exists>s'. reblock_step lib min_nb s (\<lambda>_. True, Msg ds)
      = (block_messages (fst (reorder_step min_nb arrivals r)), Ok (Continue s'))
    \<and> reblock_rel s' (snd (reorder_step min_nb arrivals r))"
proof -
  from push_datagrams_refines [OF assms(1,3,4)] obtain s1 where
    s1: "push_datagrams lib (datagram_list ds) s = Ok s1" "reblock_rel s1 (fold reorder_push arrivals r)" by blast
  from emit_refines [OF s1(2) assms(2)] obtain s2 where
    s2: "reblock_emit (\<lambda>_. True) min_nb s1 = Some (block_messages (fst (reorder_step min_nb arrivals r)), Ok s2)"
      "reblock_rel s2 (snd (reorder_step min_nb arrivals r))"
    by (auto simp: reorder_step_def Let_def)
  have "\<not> reset s" using assms(1) by (simp add: reblock_rel_def)
  then show ?thesis
    using s1 s2 by (auto simp: act_simps diverging_def ret_def)
qed

lemma run_refines:
  assumes "reblock_rel s r" and "0 < min_nb"
    and "list_all2 (\<lambda>ds arrivals. list_all2 (reads_as lib) (datagram_list ds) arrivals) dss as"
    and "timely min_nb r as"
  shows "\<exists>s'. run (reblock_step lib min_nb) s (map (\<lambda>ds. (\<lambda>_. True, Msg ds)) dss)
      = (block_messages (fst (reorder_run min_nb r as)), Ok (Continue s'))
    \<and> reblock_rel s' (snd (reorder_run min_nb r as))"
  using assms(3,1,4)
proof (induction arbitrary: s r rule: list_all2_induct)
  case Nil
  then show ?case by (simp add: block_messages_def ret_def)
next
  case (Cons ds dss a as)
  obtain out1 r1 where st: "reorder_step min_nb a r = (out1, r1)" by (cases "reorder_step min_nb a r")
  have "list_all (on_time r) a" using Cons.prems by simp
  from step_refines [OF Cons.prems(1) assms(2) Cons.hyps(1) this] st obtain s1 where
    s1: "reblock_step lib min_nb s (\<lambda>_. True, Msg ds) = (block_messages out1, Ok (Continue s1))"
      "reblock_rel s1 r1" by auto
  have "timely min_nb r1 as" using Cons.prems st by simp
  from Cons.IH [OF s1(2) this] s1(1) st show ?case
    by (auto simp: block_messages_def split: prod.splits)
qed

text \<open>The first datagram after a reset fixes the numbering.\<close>

lemma resync_refines:
  assumes "reset s" and "list_all2 (reads_as lib) (datagram_list ds) ((b, p) # arrivals)"
  shows "\<exists>s'. reblock_rel s' (reorder_init b) \<and>
    reblock_step lib min_nb s (up, Msg ds) =
      bind_act ([SetTurn (of_int b)], Ok ()) (\<lambda>_. reblock_step lib min_nb s' (up, Msg ds))"
proof -
  obtain d rest where ds: "datagram_list ds = d # rest" and d: "reads_as lib d (b, p)"
    using assms(2) by (auto simp: list_all2_Cons2)
  have first: "first_datagram ds = Ok d"
    using ds by (cases ds) (auto simp: first_datagram_def index_def)
  have "deserialize lib d = Ok p" "rq_block_number lib p = of_int b"
    using d by (auto simp: reads_as_def deserialize_def)
  then obtain s' where s': "resync lib ds s = ([SetTurn (of_int b)], Ok s')"
    using first by (auto simp: resync_def act_simps say_def Let_def ret_def)
  from resync_outcome [OF s'] have "reblock_rel s' (reorder_init b)" and "\<not> reset s'"
    using \<open>deserialize lib d = Ok p\<close> \<open>rq_block_number lib p = of_int b\<close> first
    by (auto simp: reblock_rel_def reorder_init_def stored_ok_def deserialize_def split: option.splits)
  then show ?thesis
    using s' assms(1) by (intro exI [of _ s']) (simp add: ret_def)
qed

lemma reblock_reassembles:
  assumes "0 < min_nb" and "reset s"
    and "list_all2 (\<lambda>ds arrivals. list_all2 (reads_as lib) (datagram_list ds) arrivals) (ds # dss) (((b, p) # a) # as)"
    and "timely min_nb (reorder_init b) (((b, p) # a) # as)"
  shows "\<exists>outs s'. run (reblock_step lib min_nb) s (map (\<lambda>ds. (\<lambda>_. True, Msg ds)) (ds # dss))
      = (SetTurn (of_int b) # map (\<lambda>(b, ps). ToDecode (Reassembled (of_int b) ps)) outs, Ok (Continue s'))
    \<and> map fst outs = map (\<lambda>k. b + int k) [0..<length outs]
    \<and> (\<forall>(i, ps) \<in> set outs. min_nb \<le> length ps
          \<and> (\<exists>rest. arrivals_of i (concat (((b, p) # a) # as)) = ps @ rest))
    \<and> (\<forall>k. k < length outs \<longleftrightarrow>
          (\<forall>j \<le> k. min_nb \<le> length (arrivals_of (b + int j) (concat (((b, p) # a) # as)))))"
proof -
  let ?as = "((b, p) # a) # as"
  obtain outs r where rn: "reorder_run min_nb (reorder_init b) ?as = (outs, r)"
    by (cases "reorder_run min_nb (reorder_init b) ?as")
  have first: "list_all2 (reads_as lib) (datagram_list ds) ((b, p) # a)" using assms(3) by simp
  from resync_refines [OF assms(2) first, of min_nb "\<lambda>_. True"] obtain s0 where
    s0: "reblock_rel s0 (reorder_init b)" and
    st: "reblock_step lib min_nb s (\<lambda>_. True, Msg ds) =
      bind_act ([SetTurn (of_int b)], Ok ()) (\<lambda>_. reblock_step lib min_nb s0 (\<lambda>_. True, Msg ds))"
    by blast
  from run_refines [OF s0 assms(1,3,4)] rn obtain s' where
    "run (reblock_step lib min_nb) s0 (map (\<lambda>ds. (\<lambda>_. True, Msg ds)) (ds # dss))
      = (block_messages outs, Ok (Continue s'))" by auto
  then have "run (reblock_step lib min_nb) s (map (\<lambda>ds. (\<lambda>_. True, Msg ds)) (ds # dss))
      = (SetTurn (of_int b) # block_messages outs, Ok (Continue s'))"
    by (simp add: st bind_act_prefix del: reblock_step.simps)
  then show ?thesis
    using reorder_promise [OF assms(1,4) rn]
    by (intro exI [of _ outs] exI [of _ s'] conjI) (auto simp: block_messages_def)
qed

section \<open>Properties\<close>

text \<open>Property C8. From a state waiting for synchronisation, for datagrams in any grouping that are
  reordered, repeated or lost within the window, the worker hands on exactly what the
  abstract reassembler does: it sets the turnstile to the first block's number, then sends
  the blocks under consecutive numbers modulo 256, each with at least the minimum of packets, all of that block and
  in their order of arrival; and the k-th block is sent if and only if it and all the blocks before
  it received the minimum of packets.\<close>

theorem reblock_refines_reassembly:
  assumes "0 < min_nb" and "reset s"
    and "list_all2 (\<lambda>ds arrivals. list_all2 (reads_as lib) (datagram_list ds) arrivals) (ds # dss) (((b, p) # a) # as)"
    and "timely min_nb (reorder_init b) (((b, p) # a) # as)"
  shows "\<exists>outs s'. run (reblock_step lib min_nb) s (map (\<lambda>ds. (\<lambda>_. True, Msg ds)) (ds # dss))
      = (SetTurn (of_int b) # map (\<lambda>(b, ps). ToDecode (Reassembled (of_int b) ps)) outs, Ok (Continue s'))
    \<and> map fst outs = map (\<lambda>k. b + int k) [0..<length outs]
    \<and> (\<forall>(i, ps) \<in> set outs. min_nb \<le> length ps
          \<and> (\<exists>rest. arrivals_of i (concat (((b, p) # a) # as)) = ps @ rest))
    \<and> (\<forall>k. k < length outs \<longleftrightarrow>
          (\<forall>j \<le> k. min_nb \<le> length (arrivals_of (b + int j) (concat (((b, p) # a) # as)))))"
  using assms by (rule reblock_reassembles)

theorem reblock_refines_reassembly_witness:
  "\<exists>outs s'. run (reblock_step sample_lib 1) reblock_init
      (map (\<lambda>ds. (\<lambda>_. True, Msg ds)) [Multiple [rq_serialize sample_lib (255, 0, [1]), rq_serialize sample_lib (0, 0, [2])]])
    = (SetTurn 255 # map (\<lambda>(b, ps). ToDecode (Reassembled (of_int b) ps)) outs, Ok (Continue s'))
    \<and> 1 < length outs"
proof -
  have reads: "reads_as sample_lib (rq_serialize sample_lib (n, 0, d)) (b, n, 0, d)" if "n = of_int b" for n b d
    using that by (simp add: reads_as_def sample_lib_def)
  have read: "list_all2 (\<lambda>ds arrivals. list_all2 (reads_as sample_lib) (datagram_list ds) arrivals)
      [Multiple [rq_serialize sample_lib (255, 0, [1]), rq_serialize sample_lib (0, 0, [2])]]
      [[(255, 255, 0, [1]), (256, 0, 0, [2])]]"
    using reads [of 255 255 "[1]"] reads [of 0 256 "[2]"] by simp
  have time: "timely 1 (reorder_init 255) [[(255, 255, 0, [1]), (256, 0, 0, [2])]]"
    by (simp add: on_time_def reorder_init_def)
  have "reset reblock_init" by (simp add: reblock_init_def)
  from reblock_refines_reassembly [OF _ this read time] obtain outs s' where
    o: "run (reblock_step sample_lib 1) reblock_init
      (map (\<lambda>ds. (\<lambda>_. True, Msg ds)) [Multiple [rq_serialize sample_lib (255, 0, [1]), rq_serialize sample_lib (0, 0, [2])]])
    = (SetTurn (of_int 255) # map (\<lambda>(b, ps). ToDecode (Reassembled (of_int b) ps)) outs, Ok (Continue s'))"
    and len: "1 < length outs \<longleftrightarrow> (\<forall>j \<le> 1. 1 \<le> length (arrivals_of (255 + int j)
        (concat [[(255, 255, 0, [1]), (256, 0, 0, [2])] :: (int \<times> sample_packet) list])))"
    by auto
  have "1 < length outs"
    unfolding len by (auto simp: arrivals_of_def le_Suc_eq)
  then show ?thesis using o by auto
qed

text \<open>Property C22. On no input whatsoever does the worker report a loss of synchronisation: the checks
  made for that after a timeout and when the window moves look only at ignored
  blocks, and nothing is ever stored for those. Incomplete blocks are dropped silently at the
  next reset.\<close>

theorem reblock_never_reports_loss:
  "ToDecode SyncError \<notin> set (fst (reblock_start chk lib rq inputs))"
proof -
  have "ToDecode SyncError \<notin> set (fst (run (reblock_step lib n) reblock_init inputs))" for n
    using reblocker.run_good [OF reblock_init_inv] by blast
  then show ?thesis
    by (cases "min_nb_packets chk rq :: (receive_error, u16) res")
      (auto simp: reblock_start_def lift_def)
qed

text \<open>A timeout loses what was stored for incomplete blocks, without a message: the next
  datagram starts again from its own block number, whatever was waiting.\<close>

theorem reblock_timeout_forgets:
  assumes "reblock_inv s" and "rq_deserialize lib d = Some p" and "1 < min_nb"
  shows "\<exists>s'. run (reblock_step lib min_nb) s [(\<lambda>_. True, Timeout), (\<lambda>_. True, Msg (Single d))]
      = ([SetTurn (rq_block_number lib p)], Ok (Continue s'))
    \<and> blocks_data s' = (\<lambda>_. [])(rq_block_number lib p := [p])"
proof -
  have "\<not> damaged s" using assms(1) by (auto simp: reblock_inv_def damaged_def stored_ok_def list_ex_iff)
  moreover obtain s' where s': "resync lib (Single d) (s\<lparr>reset := True\<rparr>) = ([SetTurn (rq_block_number lib p)], Ok s')"
    using assms(2) by (auto simp: resync_def first_datagram_def deserialize_def act_simps say_def Let_def ret_def)
  note out = resync_outcome [OF s']
  have cur: "cur_id s' = rq_block_number lib p" "blocks_data s' = (\<lambda>_. [])" "window_ok s'"
    using out assms(2) by (auto simp: first_datagram_def)
  then have "\<not> blocks_ignore s' (rq_block_number lib p)" by (simp add: window_ok_def)
  then have push: "push_packet lib p s' = s'\<lparr>blocks_data := (\<lambda>_. [])(rq_block_number lib p := [p])\<rparr>"
    using cur by (simp add: push_packet_def Let_def)
  then have "reblock_emit (\<lambda>_. True) min_nb (push_packet lib p s') = Some (ret (push_packet lib p s'))"
    using assms(3) cur by (subst reblock_emit.simps) simp
  ultimately show ?thesis
    using s' push assms(2) by (simp add: ret_def act_simps deserialize_def diverging_def)
qed

theorem reblock_timeout_forgets_witness:
  "\<exists>s'. run (reblock_step sample_lib 2) reblock_init
      [(\<lambda>_. True, Timeout), (\<lambda>_. True, Msg (Single (rq_serialize sample_lib (9, 0, [1]))))]
    = ([SetTurn 9], Ok (Continue s'))"
proof -
  have "rq_deserialize sample_lib (rq_serialize sample_lib (9, 0, [1])) = Some (9, 0, [1])"
    by (simp add: sample_lib_def)
  from reblock_timeout_forgets [OF reblock_init_inv this, of 2] show ?thesis
    by (auto simp: sample_lib_def)
qed

lemma reblock_emit_0:
  assumes "stored_ok s" and "window_ok s"
  shows "reblock_emit (\<lambda>_. True) 0 s = None"
proof (rule ccontr)
  assume "reblock_emit (\<lambda>_. True) 0 s \<noteq> None"
  then obtain m where m: "reblock_emit (\<lambda>_. True) 0 s = Some m" by blast
  have "(\<lambda>_. True) = (\<lambda>_ :: 'a reblock_event. True) \<longrightarrow> (0 :: nat) = 0 \<longrightarrow> stored_ok s \<longrightarrow> window_ok s \<longrightarrow> False"
  proof (rule reblock_emit.raw_induct [where P = "\<lambda>up min_nb s m. up = (\<lambda>_. True) \<longrightarrow> min_nb = 0 \<longrightarrow>
        stored_ok s \<longrightarrow> window_ok s \<longrightarrow> False", OF _ m], intro impI)
    fix rec :: "('a reblock_event \<Rightarrow> bool) \<Rightarrow> nat \<Rightarrow> 'a reblock \<Rightarrow>
        ('a reblock_event, receive_error, 'a reblock) act option"
      and up :: "'a reblock_event \<Rightarrow> bool" and min_nb :: nat and s :: "'a reblock" and m
    assume IH: "\<And>up min_nb s m. rec up min_nb s = Some m \<Longrightarrow> up = (\<lambda>_. True) \<longrightarrow> min_nb = 0 \<longrightarrow>
        stored_ok s \<longrightarrow> window_ok s \<longrightarrow> False"
    assume body: "(if length (blocks_data s (cur_id s)) < min_nb then Some (ret s)
      else
        let send = emit up R_SendBlockPackets (ToDecode (Reassembled (cur_id s) (blocks_data s (cur_id s))));
            opposite = cur_id s + WINDOW_WIDTH;
            s' = advance s in
        if snd send \<noteq> Ok () then Some (bind_act send (\<lambda>_. ret s'))
        else if blocks_data s' opposite \<noteq> []
        then Some (bind_act send (\<lambda>_.
               bind_act (emit up R_SendBlockPackets (ToDecode SyncError)) (\<lambda>_. ret (s'\<lparr>reset := True\<rparr>))))
        else Option.bind (rec up min_nb (s'\<lparr>cur_id := cur_id s + 1\<rparr>)) (\<lambda>m.
               Some (bind_act send (\<lambda>_. m)))) = Some m"
      and up: "up = (\<lambda>_. True)" "min_nb = 0" and ok: "stored_ok s" "window_ok s"
    note adv = advance_window [OF ok]
    from body up adv(3) obtain m' where "rec up min_nb (advance s\<lparr>cur_id := cur_id s + 1\<rparr>) = Some m'"
      by (auto simp: Let_def emit_def bind_eq_Some_conv)
    from IH [OF this] up adv(1,2) show False by blast
  qed
  then show False using assms by simp
qed

text \<open>Property C23. \<open>RaptorQ::new\<close> accepts a block smaller than a packet, unless the crate refuses to plan for 0 packets by a
  panic; the minimum of packets is then 0, and the first readable datagram makes the worker hand on empty blocks for ever.\<close>

theorem reblock_hangs_on_zero_packets:
  assumes "raptorq_new chk lib mtu block rep min_rep = Ok rq" and "40 \<le> mtu" and "min_rep \<le> 100"
    and "unat block < packet_size mtu" and "rq_deserialize lib d = Some p"
  shows "snd (reblock_start chk lib rq [(\<lambda>_. True, Msg (Single d))]) = Diverges"
proof -
  have "unat (symbol_count rq) = 0"
    using raptorq_new_fields(2) [OF assms(1,2)] assms(4) by simp
  moreover from this have "unat (min_nb_repair_packets rq) = 0"
    using min_repair_le_count [OF assms(1-3)] by simp
  ultimately have "(min_nb_packets chk rq :: (receive_error, u16) res) = Ok 0"
    by (simp add: min_nb_packets_def add_chk_def unsigned_eq_0_iff)
  moreover obtain s' where s': "resync lib (Single d) reblock_init = ([SetTurn (rq_block_number lib p)], Ok s')"
    using assms(5) by (auto simp: resync_def first_datagram_def deserialize_def act_simps say_def Let_def ret_def)
  have "stored_ok s'" "window_ok s'" using resync_outcome [OF s'] by (auto simp: stored_ok_def)
  then have "stored_ok (push_packet lib p s')" "window_ok (push_packet lib p s')"
    by (simp_all add: push_packet_inv window_ok_def push_packet_same)
  from reblock_emit_0 [OF this] have "snd (reblock_step lib 0 reblock_init (\<lambda>_. True, Msg (Single d))) = Diverges"
    using s' assms(5) by (simp add: reblock_init_def act_simps deserialize_def diverging_def)
  ultimately show ?thesis
    by (cases "reblock_step lib 0 reblock_init (\<lambda>_. True, Msg (Single d))")
      (simp add: reblock_start_def act_simps)
qed

theorem reblock_hangs_on_zero_packets_witness:
  "\<exists>rq. raptorq_new True sample_lib 1500 1000 2 1 = Ok rq
    \<and> snd (reblock_start True sample_lib rq
        [(\<lambda>_. True, Msg (Single (rq_serialize sample_lib (9, 0, [1]))))]) = Diverges"
proof -
  obtain rq where rq: "raptorq_new True sample_lib 1500 1000 2 1 = Ok rq"
    using raptorq_new_succeeds [of 1500 1000 2 1 sample_lib True] by (auto simp: packet_size_def sample_lib_def)
  have "rq_deserialize sample_lib (rq_serialize sample_lib (9, 0, [1])) = Some (9, 0, [1])"
    by (simp add: sample_lib_def)
  from reblock_hangs_on_zero_packets [OF rq _ _ _ this] rq show ?thesis
    by (auto simp: packet_size_def)
qed

end
