(* ===== verification/Decode.thy ===== *)
theory Decode
  imports Reblock
begin

text \<open>
  \<open>src/receive/decode.rs\<close>: the pool of decoding threads.

  As on the sending side a step of the pool is what one thread does between two points where others can
  interfere, and the turnstile \<open>block_to_dispatch\<close> puts the decoded blocks back in order. Jobs only
  ever join the queue at its end and a thread with nothing to take waits, so the queue
  holds the jobs of a whole run from the beginning. As long as all blocks decode, the pool is an
  instance of the turnstile; a block that does not decode never advances it.
\<close>

section \<open>The pool\<close>

datatype dec_thread =
    D_Idle                      \<comment> \<open>in \<open>for_decode.recv()\<close>\<close>
  | D_Holding u8 bytes          \<comment> \<open>has decoded, waits for its turn\<close>
  | D_Reporting                 \<comment> \<open>about to send \<open>None\<close>: decoding failed, or \<open>Reassembled::Error\<close>\<close>
  | D_Failed receive_error

record 'pkt dec_pool =
  dec_in :: "'pkt reassembled list"
  dec_threads :: "dec_thread list"
  block_to_dispatch :: u8
  to_dispatch :: "block option list"

definition dec_thread_step ::
  "('plan, 'cfg, 'pkt) raptorq_lib \<Rightarrow> ('plan, 'cfg) raptorq \<Rightarrow> bool \<Rightarrow> nat \<Rightarrow> 'pkt dec_pool \<Rightarrow>
   'pkt dec_pool option"
where
  "dec_thread_step lib rq up i s =
     (if i < length (dec_threads s) then
        (case dec_threads s ! i of
           D_Idle \<Rightarrow>
             (case dec_in s of
                [] \<Rightarrow> None
              | SyncError # rest \<Rightarrow>
                  Some (s\<lparr>dec_in := rest, dec_threads := (dec_threads s)[i := D_Reporting]\<rparr>)
              | Reassembled bid packets # rest \<Rightarrow>
                  Some (s\<lparr>dec_in := rest, dec_threads := (dec_threads s)[i :=
                    case decode lib rq bid packets of
                      None \<Rightarrow> D_Reporting
                    | Some block \<Rightarrow> D_Holding bid block]\<rparr>))
         | D_Reporting \<Rightarrow>
             (if up then Some (s\<lparr>to_dispatch := to_dispatch s @ [None],
                     dec_threads := (dec_threads s)[i := D_Idle]\<rparr>)
              else Some (s\<lparr>dec_threads := (dec_threads s)[i := D_Failed R_SendBlock]\<rparr>))
         | D_Holding bid block \<Rightarrow>
             (if bid \<noteq> block_to_dispatch s then None
              else if up then Some (s\<lparr>to_dispatch := to_dispatch s @ [Some (block_deserialize block)],
                     block_to_dispatch := block_to_dispatch s + 1,
                     dec_threads := (dec_threads s)[i := D_Idle]\<rparr>)
              else Some (s\<lparr>dec_threads := (dec_threads s)[i := D_Failed R_SendBlock]\<rparr>))
         | D_Failed _ \<Rightarrow> None)
      else None)"

inductive dec_step ::
  "('plan, 'cfg, 'pkt) raptorq_lib \<Rightarrow> ('plan, 'cfg) raptorq \<Rightarrow> bool \<Rightarrow> 'pkt dec_pool \<Rightarrow> 'pkt dec_pool \<Rightarrow> bool"
  for lib rq up
where
  thread: "dec_thread_step lib rq up i s = Some s' \<Longrightarrow> dec_step lib rq up s s'"

inductive_simps dec_step_iff: "dec_step lib rq up s s'"

text \<open>
  The pool when a run starts: the reblock worker has set the turnstile to \<open>t\<close> and hands on \<open>jobs\<close>.
\<close>

definition dec_start :: "u8 \<Rightarrow> u8 \<Rightarrow> 'pkt reassembled list \<Rightarrow> 'pkt dec_pool" where
  "dec_start nb_threads t jobs =
     \<lparr>dec_in = jobs, dec_threads = replicate (unat nb_threads) D_Idle, block_to_dispatch = t, to_dispatch = []\<rparr>"

section \<open>The pool as a turnstile\<close>

fun dec_hold :: "dec_thread \<Rightarrow> (u8 \<times> block) multiset" where
  "dec_hold (D_Holding bid block) = {#(bid, Block block)#}"
| "dec_hold _ = {#}"

definition dec_in_hand :: "'pkt dec_pool \<Rightarrow> (u8 \<times> block) multiset" where
  "dec_in_hand s = carried dec_hold (dec_threads s)"

definition decodable :: "('plan, 'cfg, 'pkt) raptorq_lib \<Rightarrow> ('plan, 'cfg) raptorq \<Rightarrow> 'pkt reassembled \<Rightarrow> bool" where
  "decodable lib rq m = (case m of SyncError \<Rightarrow> False | Reassembled bid ps \<Rightarrow> decode lib rq bid ps \<noteq> None)"

definition dec_result :: "('plan, 'cfg, 'pkt) raptorq_lib \<Rightarrow> ('plan, 'cfg) raptorq \<Rightarrow> 'pkt reassembled \<Rightarrow> u8 \<times> block" where
  "dec_result lib rq m = (case m of SyncError \<Rightarrow> (0, Block [])
     | Reassembled bid ps \<Rightarrow> (bid, Block (the (decode lib rq bid ps))))"

definition dec_ok :: "('plan, 'cfg, 'pkt) raptorq_lib \<Rightarrow> ('plan, 'cfg) raptorq \<Rightarrow> 'pkt dec_pool \<Rightarrow> bool" where
  "dec_ok lib rq s \<longleftrightarrow> length (dec_threads s) \<le> 255 \<and> (\<forall>m \<in> set (dec_in s). decodable lib rq m)
     \<and> dec_threads s \<noteq> [] \<and> (\<forall>t \<in> set (dec_threads s). t = D_Idle \<or> (\<exists>bid b. t = D_Holding bid b))
     \<and> to_dispatch s = map Some (somes (to_dispatch s))"

lemma size_dec_hold: "size (dec_hold t) \<le> 1"
  by (cases t) auto

text \<open>What a thread can do while the channel to the dispatcher is open.\<close>

lemma dec_step_cases:
  assumes "dec_thread_step lib rq True i s = Some s'"
  obtains
    (take) bid ps rest block where "i < length (dec_threads s)" "dec_threads s ! i = D_Idle"
      "dec_in s = Reassembled bid ps # rest" "decode lib rq bid ps = Some block"
      "s' = s\<lparr>dec_in := rest, dec_threads := (dec_threads s)[i := D_Holding bid block]\<rparr>"
  | (lose) m rest where "i < length (dec_threads s)" "dec_threads s ! i = D_Idle"
      "dec_in s = m # rest" "\<not> decodable lib rq m"
      "s' = s\<lparr>dec_in := rest, dec_threads := (dec_threads s)[i := D_Reporting]\<rparr>"
  | (report) "i < length (dec_threads s)" "dec_threads s ! i = D_Reporting"
      "s' = s\<lparr>to_dispatch := to_dispatch s @ [None], dec_threads := (dec_threads s)[i := D_Idle]\<rparr>"
  | (send) block where "i < length (dec_threads s)" "dec_threads s ! i = D_Holding (block_to_dispatch s) block"
      "s' = s\<lparr>to_dispatch := to_dispatch s @ [Some (Block block)], block_to_dispatch := block_to_dispatch s + 1,
        dec_threads := (dec_threads s)[i := D_Idle]\<rparr>"
proof (cases "dec_threads s ! i")
  case D_Idle
  show ?thesis
  proof (cases "dec_in s")
    case Nil
    then show ?thesis using assms D_Idle by (auto simp: dec_thread_step_def split: if_splits)
  next
    case (Cons m rest)
    show ?thesis
    proof (cases m)
      case SyncError
      then show ?thesis using assms D_Idle Cons lose
        by (auto simp: dec_thread_step_def decodable_def split: if_splits)
    next
      case (Reassembled bid ps)
      then show ?thesis using assms D_Idle Cons lose take
        by (cases "decode lib rq bid ps")
          (auto simp: dec_thread_step_def decodable_def split: if_splits)
    qed
  qed
next
  case (D_Holding bid block)
  then show ?thesis using assms send by (auto simp: dec_thread_step_def block_deserialize_def split: if_splits)
next
  case D_Reporting
  then show ?thesis using assms report by (auto simp: dec_thread_step_def split: if_splits)
next
  case (D_Failed e)
  then show ?thesis using assms by (auto simp: dec_thread_step_def split: if_splits)
qed

definition dec_work :: "'pkt dec_pool \<Rightarrow> nat" where
  "dec_work s = 2 * length (dec_in s) + size (dec_in_hand s)"

lemma dec_in_hand_member:
  assumes "j \<in># dec_in_hand s"
  shows "\<exists>i block. i < length (dec_threads s) \<and> dec_threads s ! i = D_Holding (fst j) block \<and> snd j = Block block"
proof -
  obtain i where i: "i < length (dec_threads s)" "j \<in># dec_hold (dec_threads s ! i)"
    using carried_member [of j dec_hold "dec_threads s"] assms unfolding dec_in_hand_def by blast
  then show ?thesis by (cases "dec_threads s ! i") auto
qed

interpretation decoders: live_turnstile "dec_step lib rq True" "\<lambda>s. map (dec_result lib rq) (dec_in s)"
    dec_in_hand block_to_dispatch "\<lambda>s. somes (to_dispatch s)" "dec_ok lib rq" dec_work
  for lib :: "('plan, 'cfg, 'pkt) raptorq_lib" and rq :: "('plan, 'cfg) raptorq"
proof
  fix s s' :: "'pkt dec_pool"
  assume ok: "dec_ok lib rq s" and "dec_step lib rq True s s'"
  then obtain i where st: "dec_thread_step lib rq True i s = Some s'" by (auto simp: dec_step_iff)
  from st show "(\<exists>j. map (dec_result lib rq) (dec_in s) = j # map (dec_result lib rq) (dec_in s')
        \<and> dec_in_hand s' = add_mset j (dec_in_hand s)
        \<and> block_to_dispatch s' = block_to_dispatch s \<and> somes (to_dispatch s') = somes (to_dispatch s))
    \<or> (\<exists>r. (block_to_dispatch s, r) \<in># dec_in_hand s
        \<and> dec_in_hand s' = dec_in_hand s - {#(block_to_dispatch s, r)#}
        \<and> map (dec_result lib rq) (dec_in s') = map (dec_result lib rq) (dec_in s)
        \<and> block_to_dispatch s' = block_to_dispatch s + 1
        \<and> somes (to_dispatch s') = somes (to_dispatch s) @ [r])
    \<or> (map (dec_result lib rq) (dec_in s') = map (dec_result lib rq) (dec_in s)
        \<and> dec_in_hand s' = dec_in_hand s \<and> block_to_dispatch s' = block_to_dispatch s
        \<and> somes (to_dispatch s') = somes (to_dispatch s))"
  proof (cases rule: dec_step_cases)
    case (take bid ps rest block)
    then have "dec_in_hand s' = add_mset (bid, Block block) (dec_in_hand s)"
      by (simp add: dec_in_hand_def carried_add)
    then show ?thesis using take by (simp add: dec_result_def)
  next
    case (lose m rest)
    then show ?thesis using ok by (simp add: dec_ok_def)
  next
    case report
    then have "dec_in_hand s' = dec_in_hand s" by (simp add: dec_in_hand_def carried_same)
    then show ?thesis using report by simp
  next
    case (send block)
    then have "(block_to_dispatch s, Block block) \<in># dec_in_hand s
        \<and> dec_in_hand s' = dec_in_hand s - {#(block_to_dispatch s, Block block)#}"
      using carried_remove [of i "dec_threads s" dec_hold "(block_to_dispatch s, Block block)" D_Idle]
      by (simp add: dec_in_hand_def)
    then show ?thesis using send by auto
  qed
  from st show "dec_ok lib rq s'"
  proof (cases rule: dec_step_cases)
    case report
    then have "D_Reporting \<in> set (dec_threads s)" by (metis nth_mem)
    then show ?thesis using ok by (auto simp: dec_ok_def)
  qed (use ok in \<open>auto simp: dec_ok_def dest: set_update_subset_insert [THEN subsetD]\<close>)
  from st show "dec_work s' < dec_work s"
  proof (cases rule: dec_step_cases)
    case (take bid ps rest block)
    then have "dec_in_hand s' = add_mset (bid, Block block) (dec_in_hand s)"
      by (simp add: dec_in_hand_def carried_add)
    then show ?thesis using take by (simp add: dec_work_def)
  next
    case (lose m rest)
    then show ?thesis using ok by (simp add: dec_ok_def)
  next
    case report
    then have "D_Reporting \<in> set (dec_threads s)" by (metis nth_mem)
    then show ?thesis using ok by (auto simp: dec_ok_def)
  next
    case (send block)
    then have "(block_to_dispatch s, Block block) \<in># dec_in_hand s
        \<and> dec_in_hand s' = dec_in_hand s - {#(block_to_dispatch s, Block block)#}"
      using carried_remove [of i "dec_threads s" dec_hold "(block_to_dispatch s, Block block)" D_Idle]
      by (simp add: dec_in_hand_def)
    then have "size (dec_in_hand s') < size (dec_in_hand s)" by (metis size_Diff1_less)
    then show ?thesis using send by (simp add: dec_work_def)
  qed
next
  fix s :: "'pkt dec_pool" assume ok: "dec_ok lib rq s"
  then show "size (dec_in_hand s) \<le> 255"
    using size_carried [of dec_hold "dec_threads s", OF size_dec_hold] by (simp add: dec_ok_def dec_in_hand_def)
  show "\<exists>s'. dec_step lib rq True s s'" if "(block_to_dispatch s, r) \<in># dec_in_hand s" for r
  proof -
    from dec_in_hand_member [OF that] obtain i block where
      "i < length (dec_threads s)" "dec_threads s ! i = D_Holding (block_to_dispatch s) block" by auto
    then have "dec_thread_step lib rq True i s \<noteq> None" by (simp add: dec_thread_step_def)
    then show ?thesis by (auto simp: dec_step_iff)
  qed
  show "\<exists>s'. dec_step lib rq True s s'"
    if empty: "dec_in_hand s = {#}" and queue: "map (dec_result lib rq) (dec_in s) \<noteq> []"
  proof -
    from queue have "dec_in s \<noteq> []" by simp
    then obtain m rest where m: "dec_in s = m # rest" by (meson neq_Nil_conv)
    have 0: "0 < length (dec_threads s)" using ok by (simp add: dec_ok_def)
    then have mem: "dec_threads s ! 0 \<in> set (dec_threads s)" by simp
    with carried_empty [of dec_hold "dec_threads s"] empty have "dec_hold (dec_threads s ! 0) = {#}"
      by (simp add: dec_in_hand_def)
    then have "dec_threads s ! 0 = D_Idle" using ok mem by (fastforce simp: dec_ok_def)
    then have "dec_thread_step lib rq True 0 s \<noteq> None"
      using 0 m by (simp add: dec_thread_step_def split: reassembled.splits)
    then show ?thesis by (auto simp: dec_step_iff)
  qed
qed

section \<open>Runs\<close>

text \<open>The jobs that the reblock worker hands on: consecutive numbers from \<open>t\<close>.\<close>

definition block_jobs :: "u8 \<Rightarrow> 'pkt list list \<Rightarrow> 'pkt reassembled list" where
  "block_jobs t pss = map (\<lambda>(i, ps). Reassembled i ps) (numbered t pss)"

definition decoded ::
  "('plan, 'cfg, 'pkt) raptorq_lib \<Rightarrow> ('plan, 'cfg) raptorq \<Rightarrow> u8 \<Rightarrow> 'pkt list list \<Rightarrow> block list"
where
  "decoded lib rq t pss = map (\<lambda>(i, ps). Block (the (decode lib rq i ps))) (numbered t pss)"

lemma nth_block_jobs:
  "k < length pss \<Longrightarrow> block_jobs t pss ! k = Reassembled (t + of_nat k) (pss ! k)"
  by (simp add: block_jobs_def nth_numbered)

lemma dec_start_ok:
  assumes "\<forall>m \<in> set (block_jobs t pss). decodable lib rq m" and "0 < n"
  shows "dec_ok lib rq (dec_start n t (block_jobs t pss))"
    and "dec_in_hand (dec_start n t (block_jobs t pss)) = {#}"
    and "map snd (map (dec_result lib rq) (dec_in (dec_start n t (block_jobs t pss)))) = decoded lib rq t pss"
    and "\<forall>k < length (map (dec_result lib rq) (dec_in (dec_start n t (block_jobs t pss)))).
       fst (map (dec_result lib rq) (dec_in (dec_start n t (block_jobs t pss))) ! k)
         = block_to_dispatch (dec_start n t (block_jobs t pss)) + of_nat k"
proof -
  have "0 < unat n" using assms(2) by (simp add: word_less_nat_alt)
  then show "dec_ok lib rq (dec_start n t (block_jobs t pss))"
    using assms(1) unat_u8_less [of n] by (simp add: dec_ok_def dec_start_def)
  show "dec_in_hand (dec_start n t (block_jobs t pss)) = {#}"
    by (simp add: dec_in_hand_def dec_start_def carried_replicate)
  show "map snd (map (dec_result lib rq) (dec_in (dec_start n t (block_jobs t pss)))) = decoded lib rq t pss"
    by (auto simp: dec_start_def block_jobs_def decoded_def dec_result_def)
  show "\<forall>k < length (map (dec_result lib rq) (dec_in (dec_start n t (block_jobs t pss)))).
       fst (map (dec_result lib rq) (dec_in (dec_start n t (block_jobs t pss))) ! k)
         = block_to_dispatch (dec_start n t (block_jobs t pss)) + of_nat k"
    by (simp add: dec_start_def block_jobs_def dec_result_def nth_numbered)
qed

lemma dec_results:
  assumes "\<forall>m \<in> set (block_jobs t pss). decodable lib rq m" and "0 < n"
    and run: "(dec_step lib rq True)\<^sup>*\<^sup>* (dec_start n t (block_jobs t pss)) s"
  shows "\<exists>e. to_dispatch s = map Some (take e (decoded lib rq t pss))"
    and "\<not> (\<exists>s'. dec_step lib rq True s s') \<Longrightarrow> to_dispatch s = map Some (decoded lib rq t pss)
      \<and> block_to_dispatch s = t + of_nat (length pss)"
proof -
  note ini = dec_start_ok [OF assms(1,2)]
  have "dec_ok lib rq s" using decoders.run_ok [OF run ini(1)] .
  then have some: "to_dispatch s = map Some (somes (to_dispatch s))" by (simp add: dec_ok_def)
  from decoders.run_in_order [OF run ini(1,2,4)]
  show "\<exists>e. to_dispatch s = map Some (take e (decoded lib rq t pss))"
    using ini(3) some by (auto simp: take_map [symmetric] dec_start_def)
  show "to_dispatch s = map Some (decoded lib rq t pss) \<and> block_to_dispatch s = t + of_nat (length pss)"
    if "\<not> (\<exists>s'. dec_step lib rq True s s')"
    using decoders.stuck_done [OF run ini(1,2,4) that] ini(3) some
    by (simp add: dec_start_def block_jobs_def)
qed

section \<open>A block that does not decode\<close>

text \<open>
  The invariant when the first of the jobs \<open>J\<close> fails: of the \<open>c\<close> jobs taken so far all but that one
  are in hand, and the turnstile has not moved.
\<close>

definition stalled ::
  "('plan, 'cfg, 'pkt) raptorq_lib \<Rightarrow> ('plan, 'cfg) raptorq \<Rightarrow> 'pkt reassembled list \<Rightarrow> u8 \<Rightarrow> nat \<Rightarrow>
   'pkt dec_pool \<Rightarrow> nat \<Rightarrow> bool"
where
  "stalled lib rq J t n s c \<longleftrightarrow> c \<le> length J \<and> dec_in s = drop c J \<and> length (dec_threads s) = n
     \<and> block_to_dispatch s = t \<and> set (to_dispatch s) \<subseteq> {None}
     \<and> dec_in_hand s = mset (map (\<lambda>k. dec_result lib rq (J ! k)) [1..<c])"

lemma stalled_few:
  assumes "stalled lib rq J t n s c" shows "c \<le> Suc n"
proof -
  have "size (dec_in_hand s) = c - 1" using assms by (simp add: stalled_def)
  moreover have "size (dec_in_hand s) \<le> n"
    using size_carried [of dec_hold "dec_threads s", OF size_dec_hold] assms
    by (simp add: stalled_def dec_in_hand_def)
  ultimately show ?thesis by simp
qed

lemma stalled_step:
  assumes inv: "stalled lib rq J t n s c" and n: "n \<le> 255"
    and J: "J = block_jobs t (ps0 # pss)" and fails: "decode lib rq t ps0 = None"
    and rest: "\<forall>m \<in> set (tl J). decodable lib rq m"
    and step: "dec_step lib rq True s s'"
  shows "\<exists>c'. stalled lib rq J t n s' c'"
proof -
  obtain i where st: "dec_thread_step lib rq True i s = Some s'" using step by (auto simp: dec_step_iff)
  have len: "length J = Suc (length pss)" by (simp add: J block_jobs_def)
  have J0: "J ! 0 = Reassembled t ps0" by (simp add: J block_jobs_def)
  have next_job: "c < length J \<and> J ! c = m \<and> drop (Suc c) J = rs" if "dec_in s = m # rs" for m rs
  proof -
    have d: "drop c J = m # rs" using inv that by (simp add: stalled_def)
    then have c: "c < length J" by (metis drop_all list.distinct(1) not_le)
    with d show ?thesis by (metis Cons_nth_drop_Suc list.inject)
  qed
  have later: "decodable lib rq (J ! c)" if "0 < c" "c < length J" for c
    using rest that nth_tl [of "c - 1" J] nth_mem [of "c - 1" "tl J"] by simp
  from st show ?thesis
  proof (cases rule: dec_step_cases)
    case (take bid ps rs block)
    note nj = next_job [OF take(3)]
    have "c \<noteq> 0" using nj J0 take(4) fails by (metis option.distinct(1) reassembled.inject)
    then have "[1..<Suc c] = [1..<c] @ [c]" by simp
    moreover have "dec_in_hand s' = add_mset (bid, Block block) (dec_in_hand s)"
      using take by (simp add: dec_in_hand_def carried_add)
    moreover have "dec_result lib rq (J ! c) = (bid, Block block)" using nj take(4) by (simp add: dec_result_def)
    ultimately have "stalled lib rq J t n s' (Suc c)"
      using inv nj take by (simp add: stalled_def)
    then show ?thesis by blast
  next
    case (lose m rs)
    note nj = next_job [OF lose(3)]
    have "c = 0" using later nj lose(4) by blast
    moreover have "dec_in_hand s' = dec_in_hand s" using lose by (simp add: dec_in_hand_def carried_same)
    ultimately have "stalled lib rq J t n s' 1"
      using inv nj lose by (auto simp: stalled_def Suc_le_eq)
    then show ?thesis by blast
  next
    case report
    then have "dec_in_hand s' = dec_in_hand s" by (simp add: dec_in_hand_def carried_same)
    then have "stalled lib rq J t n s' c" using inv report by (simp add: stalled_def)
    then show ?thesis by blast
  next
    case (send block)
    have "(t, Block block) \<in># dec_in_hand s"
      using send inv carried_remove [of i "dec_threads s" dec_hold "(block_to_dispatch s, Block block)" D_Idle]
      by (simp add: dec_in_hand_def stalled_def)
    then obtain k where k: "1 \<le> k" "k < c" "dec_result lib rq (J ! k) = (t, Block block)"
      using inv by (auto simp: stalled_def)
    have "k < length J" using k(2) inv by (simp add: stalled_def)
    then have "fst (dec_result lib rq (J ! k)) = t + of_nat k"
      using nth_block_jobs [of k "ps0 # pss" t] by (simp add: J len [unfolded J] dec_result_def)
    then have "(of_nat k :: u8) = 0" using k(3) by simp
    moreover have "unat (of_nat k :: u8) = k"
      using k(2) stalled_few [OF inv] n by (intro unat_of_nat_u8) simp
    ultimately show ?thesis using k(1) by simp
  qed
qed

lemma stalled_run:
  assumes "(dec_step lib rq True)\<^sup>*\<^sup>* s s'" and "stalled lib rq J t n s c" and "n \<le> 255"
    and "J = block_jobs t (ps0 # pss)" and "decode lib rq t ps0 = None"
    and "\<forall>m \<in> set (tl J). decodable lib rq m"
  shows "\<exists>c. stalled lib rq J t n s' c"
  using assms(1,2)
  by (induction rule: rtranclp_induct) (use stalled_step [OF _ assms(3-6)] in blast)+

section \<open>A run of one block through one thread\<close>

definition one_decoded :: "'pkt dec_pool" where
  "one_decoded = \<lparr>dec_in = [], dec_threads = [D_Idle], block_to_dispatch = 1, to_dispatch = [Some (Block [7])]\<rparr>"

lemma one_decoded_run:
  "(dec_step sample_lib small_rq True ^^ 2) (dec_start 1 0 (block_jobs 0 [[(0, 0, [7])]])) one_decoded"
  "\<not> (\<exists>s'. dec_step sample_lib small_rq True one_decoded s')"
proof -
  let ?m = "\<lparr>dec_in = [], dec_threads = [D_Holding 0 [7]], block_to_dispatch = 0, to_dispatch = []\<rparr>"
  have "dec_thread_step sample_lib small_rq True 0 (dec_start 1 0 (block_jobs 0 [[(0, 0, [7])]])) = Some ?m"
    by (simp add: dec_thread_step_def dec_start_def block_jobs_def decode_def sample_lib_def)
  then have 1: "dec_step sample_lib small_rq True (dec_start 1 0 (block_jobs 0 [[(0, 0, [7])]])) ?m"
    by (rule thread)
  have "dec_thread_step sample_lib small_rq True 0 ?m = Some one_decoded"
    by (simp add: dec_thread_step_def one_decoded_def block_deserialize_def)
  then have 2: "dec_step sample_lib small_rq True ?m one_decoded" by (rule thread)
  show "(dec_step sample_lib small_rq True ^^ 2) (dec_start 1 0 (block_jobs 0 [[(0, 0, [7])]])) one_decoded"
    using 1 2 by (auto simp: numeral_2_eq_2)
  show "\<not> (\<exists>s'. dec_step sample_lib small_rq True one_decoded s')"
    by (auto simp: dec_step_iff dec_thread_step_def one_decoded_def)
qed

section \<open>Properties\<close>

text \<open>Property C12. If all blocks decode, then however the decoding threads are scheduled the dispatcher
  receives the decoded blocks in the order of their numbers, also across the wrap-around at 256;
  no schedule takes more than two steps per block, and when no thread can move, all blocks have been
  dispatched and the turnstile stands at the next number.\<close>

theorem decoders_in_order:
  assumes "(dec_step lib rq True ^^ k) (dec_start n t (block_jobs t pss)) s"
    and "\<forall>m \<in> set (block_jobs t pss). decodable lib rq m" and "0 < n"
  shows "k \<le> 2 * length pss
    \<and> (\<exists>e. to_dispatch s = map Some (take e (decoded lib rq t pss)))
    \<and> (\<not> (\<exists>s'. dec_step lib rq True s s') \<longrightarrow>
         to_dispatch s = map Some (decoded lib rq t pss) \<and> block_to_dispatch s = t + of_nat (length pss))"
proof (intro conjI impI)
  note run = relpowp_imp_rtranclp [OF assms(1)]
  show "k \<le> 2 * length pss"
    using decoders.run_bounded [OF assms(1) dec_start_ok(1) [OF assms(2,3)]]
    by (simp add: dec_work_def dec_start_def block_jobs_def dec_in_hand_def carried_replicate)
  show "\<exists>e. to_dispatch s = map Some (take e (decoded lib rq t pss))"
    by (rule dec_results(1) [OF assms(2,3) run])
  assume "\<not> (\<exists>s'. dec_step lib rq True s s')"
  from dec_results(2) [OF assms(2,3) run this]
  show "to_dispatch s = map Some (decoded lib rq t pss)" "block_to_dispatch s = t + of_nat (length pss)"
    by simp_all
qed

theorem decoders_in_order_witness:
  "to_dispatch (one_decoded :: sample_packet dec_pool) = map Some (decoded sample_lib small_rq 0 [[(0, 0, [7])]])"
proof -
  have "\<forall>m \<in> set (block_jobs 0 [[(0, 0, [7])]]). decodable sample_lib small_rq m"
    by (simp add: block_jobs_def decodable_def decode_def sample_lib_def)
  from decoders_in_order [OF one_decoded_run(1) this] one_decoded_run(2) show ?thesis by simp
qed

text \<open>Property C24. A block that fails to decode stalls the receiver: the turnstile is not advanced past it, so whatever
  follows and however it is scheduled, no later block is ever dispatched (although all of them
  decode), and once every thread holds a block no further job is even taken, until the reblock worker resets.\<close>

theorem decode_failure_stalls:
  assumes "decode lib rq t ps0 = None" and "\<forall>m \<in> set (block_jobs (t + 1) pss). decodable lib rq m"
    and "(dec_step lib rq True)\<^sup>*\<^sup>* (dec_start n t (block_jobs t (ps0 # pss))) s"
  shows "set (to_dispatch s) \<subseteq> {None} \<and> block_to_dispatch s = t
    \<and> length pss \<le> length (dec_in s) + unat n"
proof -
  define J where "J = block_jobs t (ps0 # pss)"
  have tlJ: "tl J = block_jobs (t + 1) pss" by (simp add: J_def block_jobs_def)
  have n: "unat n \<le> 255" using unat_u8_less [of n] by simp
  have "stalled lib rq J t (unat n) (dec_start n t J) 0"
    by (simp add: stalled_def dec_start_def dec_in_hand_def carried_replicate)
  from stalled_run [OF assms(3) [folded J_def] this n J_def assms(1)] assms(2)
  obtain c where c: "stalled lib rq J t (unat n) s c" by (auto simp: tlJ)
  have "length J = Suc (length pss)" by (simp add: J_def block_jobs_def)
  then show ?thesis using c stalled_few [OF c] by (simp add: stalled_def)
qed

text \<open>For the witness: one thread, which loses the first block, reports it, takes the second one and waits with it for ever.\<close>

definition one_stalled :: "sample_packet dec_pool" where
  "one_stalled = \<lparr>dec_in = [], dec_threads = [D_Holding 1 [7]], block_to_dispatch = 0, to_dispatch = [None]\<rparr>"

lemma one_stalled_run:
  "(dec_step sample_lib small_rq True)\<^sup>*\<^sup>* (dec_start 1 0 (block_jobs 0 [[], [(1, 0, [7])]])) one_stalled"
  "\<not> (\<exists>s'. dec_step sample_lib small_rq True one_stalled s')"
proof -
  let ?s0 = "dec_start 1 0 (block_jobs 0 [[], [(1, 0, [7])]]) :: sample_packet dec_pool"
  let ?s1 = "\<lparr>dec_in = [Reassembled 1 [(1, 0, [7])]], dec_threads = [D_Reporting], block_to_dispatch = 0, to_dispatch = []\<rparr>"
  let ?s2 = "\<lparr>dec_in = [Reassembled 1 [(1, 0, [7])]], dec_threads = [D_Idle], block_to_dispatch = 0, to_dispatch = [None]\<rparr>"
  have "dec_thread_step sample_lib small_rq True 0 ?s0 = Some ?s1"
    "dec_thread_step sample_lib small_rq True 0 ?s1 = Some ?s2"
    "dec_thread_step sample_lib small_rq True 0 ?s2 = Some one_stalled"
    by (simp_all add: dec_thread_step_def dec_start_def block_jobs_def decode_def sample_lib_def one_stalled_def)
  then have "dec_step sample_lib small_rq True ?s0 ?s1" "dec_step sample_lib small_rq True ?s1 ?s2"
    "dec_step sample_lib small_rq True ?s2 one_stalled"
    by (blast intro: dec_step.thread)+
  then show "(dec_step sample_lib small_rq True)\<^sup>*\<^sup>* ?s0 one_stalled"
    by (meson converse_rtranclp_into_rtranclp rtranclp.rtrancl_refl)
  show "\<not> (\<exists>s'. dec_step sample_lib small_rq True one_stalled s')"
    by (auto simp: dec_step_iff dec_thread_step_def one_stalled_def)
qed

theorem decode_failure_stalls_witness:
  "\<exists>s. (dec_step sample_lib small_rq True)\<^sup>*\<^sup>* (dec_start 1 0 (block_jobs 0 [[], [(1, 0, [7])]])) s
    \<and> \<not> (\<exists>s'. dec_step sample_lib small_rq True s s') \<and> dec_in s = []
    \<and> to_dispatch s \<noteq> [] \<and> set (to_dispatch s) \<subseteq> {None} \<and> block_to_dispatch s = 0"
proof -
  have "decode sample_lib small_rq 0 [] = None" by (simp add: decode_def sample_lib_def)
  moreover have "\<forall>m \<in> set (block_jobs (0 + 1) [[(1, 0, [7])]]). decodable sample_lib small_rq m"
    by (simp add: block_jobs_def decodable_def decode_def sample_lib_def)
  ultimately have "set (to_dispatch one_stalled) \<subseteq> {None} \<and> block_to_dispatch one_stalled = 0"
    using decode_failure_stalls [of sample_lib small_rq 0 "[]" "[[(1, 0, [7])]]" 1 one_stalled] one_stalled_run(1) by simp
  then show ?thesis using one_stalled_run by (intro exI [of _ one_stalled]) (simp add: one_stalled_def)
qed

end
