(* ===== verification/Dispatch.thy ===== *)
theory Dispatch
  imports Decode "HOL-Library.AList"
begin

text \<open>
  \<open>src/receive/dispatch.rs\<close>: decoded blocks are handed to the client worker of their transfer.

  A channel to a client worker is a number, drawn in order. The two hash maps are association lists
  (the program iterates over one of them, to abort all transfers; the order is not
  specified and nobody can observe it, each message going to another channel). The input of a step is the answer
  of the channel \<open>for_dispatch\<close> together with the clock and the state of the other channels: which
  client channels still have a receiver, which are empty, whether \<open>to_clients\<close> is open, and whether the
  log level is \<open>Trace\<close>: then every block is printed to the log before it is looked at, and printing a block
  without a complete header panics.
\<close>

section \<open>The worker\<close>

type_synonym channel = nat

datatype dispatch_event =
    Deliver channel block               \<comment> \<open>\<open>client_sendq.send(block)\<close>\<close>
  | Announce client_id channel          \<comment> \<open>\<open>to_clients.send((client_id, client_recvq))\<close>\<close>
  | HeartbeatMissing nat                \<comment> \<open>the warning, with the interval\<close>
  | Received string                     \<comment> \<open>the \<open>trace!\<close> line of a block\<close>

record dispatch =
  active_transfers :: "(client_id \<times> channel) list"
  ended_transfers :: "(client_id \<times> channel) list"
  next_channel :: channel
  last_heartbeat :: nat

record dispatch_env =
  now :: nat
  alive :: "channel \<Rightarrow> bool"
  emptied :: "channel \<Rightarrow> bool"
  clients_up :: bool
  tracing :: bool
  io_text :: "io_error \<Rightarrow> string"

definition dispatch_init :: "nat \<Rightarrow> dispatch" where
  "dispatch_init t =
     \<lparr>active_transfers = [], ended_transfers = [], next_channel = 0, last_heartbeat = t\<rparr>"

text \<open>The loop of the lost synchronisation: an \<open>Abort\<close> block for every active transfer.\<close>

fun abort_all ::
  "('plan, 'cfg) raptorq \<Rightarrow> dispatch_env \<Rightarrow> (client_id \<times> channel) list \<Rightarrow> (dispatch_event, receive_error, unit) act"
where
  "abort_all rq env [] = ret ()"
| "abort_all rq env ((cid, ch) # ts) =
     bind_act (lift (map_err R_Protocol (block_new Abort rq cid None))) (\<lambda>block.
     bind_act (if alive env ch then say (Deliver ch block) else ret ()) (\<lambda>_.
     abort_all rq env ts))"

text \<open>From the lookup of the transfer on: deliver the block, and end the transfer if it was the last one.\<close>

definition deliver ::
  "dispatch_env \<Rightarrow> client_id \<Rightarrow> bool \<Rightarrow> block \<Rightarrow> dispatch \<Rightarrow>
   (dispatch_event, receive_error, (dispatch, unit) flow) act"
where
  "deliver env cid will_end block s =
     (case map_of (active_transfers s) cid of
        None \<Rightarrow> ret (Continue s)
      | Some ch \<Rightarrow>
          if \<not> alive env ch
          then ret (Continue (s\<lparr>active_transfers := AList.delete cid (active_transfers s)\<rparr>))
          else bind_act (say (Deliver ch block)) (\<lambda>_.
            if will_end
            then ret (Continue (s\<lparr>active_transfers := AList.delete cid (active_transfers s),
                   ended_transfers := AList.update cid ch
                     (filter (\<lambda>(_, c). \<not> emptied env c) (ended_transfers s))\<rparr>))
            else ret (Continue s)))"

definition dispatch_block ::
  "dispatch_env \<Rightarrow> block \<Rightarrow> dispatch \<Rightarrow> (dispatch_event, receive_error, (dispatch, unit) flow) act"
where
  "dispatch_block env block s =
     (case block_block_type block of
        Err e \<Rightarrow> ret (Continue s)
      | Panic \<Rightarrow> lift Panic
      | Diverges \<Rightarrow> lift Diverges
      | Ok block_type \<Rightarrow>
          bind_act (lift (block_client_id block)) (\<lambda>cid.
          case block_type of
            Heartbeat \<Rightarrow> ret (Continue (s\<lparr>last_heartbeat := now env\<rparr>))
          | Start \<Rightarrow>
              let ch = next_channel s;
                  s = s\<lparr>active_transfers := AList.update cid ch (active_transfers s), next_channel := ch + 1\<rparr> in
              bind_act (emit (\<lambda>_. clients_up env) R_SendClients (Announce cid ch)) (\<lambda>_.
              deliver env cid False block s)
          | Abort \<Rightarrow> deliver env cid True block s
          | End \<Rightarrow> deliver env cid True block s
          | Data \<Rightarrow> deliver env cid False block s))"

text \<open>\<open>log::trace!("received {block}")\<close>, which formats the block only if the log level asks for it.\<close>

definition trace_block :: "dispatch_env \<Rightarrow> block \<Rightarrow> (dispatch_event, receive_error, unit) act" where
  "trace_block env block =
     (if tracing env then bind_act (lift (block_display (io_text env) block)) (\<lambda>text. say (Received text))
      else ret ())"

fun dispatch_step ::
  "receive_config \<Rightarrow> ('plan, 'cfg) raptorq \<Rightarrow> dispatch \<Rightarrow> dispatch_env \<times> block option recv \<Rightarrow>
   (dispatch_event, receive_error, (dispatch, unit) flow) act"
where
  "dispatch_step cfg rq s (env, Timeout) =
     (case r_heartbeat_interval cfg of
        None \<Rightarrow> ret (Continue s)      \<comment> \<open>\<open>recv\<close> has no timeout\<close>
      | Some interval \<Rightarrow>
          bind_act (if interval < now env - last_heartbeat s then say (HeartbeatMissing interval) else ret ())
            (\<lambda>_. ret (Continue s)))"
| "dispatch_step cfg rq s (env, Disconnected) =
     lift (Err (case r_heartbeat_interval cfg of None \<Rightarrow> R_Receive | Some _ \<Rightarrow> R_ReceiveTimeout ChannelGone))"
| "dispatch_step cfg rq s (env, Msg None) =
     bind_act (abort_all rq env (active_transfers s)) (\<lambda>_. ret (Continue (s\<lparr>active_transfers := []\<rparr>)))"
| "dispatch_step cfg rq s (env, Msg (Some block)) =
     bind_act (trace_block env block) (\<lambda>_. dispatch_block env block s)"

section \<open>Invariant\<close>

text \<open>One channel per active transfer, and fresh channels are fresh.\<close>

definition open_channels :: "dispatch \<Rightarrow> channel set" where
  "open_channels s = set (map snd (active_transfers s))"

definition dispatch_inv :: "dispatch \<Rightarrow> bool" where
  "dispatch_inv s \<longleftrightarrow> distinct (map fst (active_transfers s)) \<and> distinct (map snd (active_transfers s))
     \<and> (\<forall>ch \<in> open_channels s. ch < next_channel s)"

lemma ended_irrelevant [simp]:
  "open_channels (s\<lparr>ended_transfers := x\<rparr>) = open_channels s"
  "dispatch_inv (s\<lparr>ended_transfers := x\<rparr>) = dispatch_inv s"
  "open_channels (s\<lparr>last_heartbeat := t\<rparr>) = open_channels s"
  "dispatch_inv (s\<lparr>last_heartbeat := t\<rparr>) = dispatch_inv s"
  by (simp_all add: open_channels_def dispatch_inv_def)

text \<open>What a transfer's channel receives.\<close>

fun delivered :: "channel \<Rightarrow> dispatch_event list \<Rightarrow> block list" where
  "delivered ch [] = []"
| "delivered ch (Deliver c b # es) = (if c = ch then b # delivered ch es else delivered ch es)"
| "delivered ch (_ # es) = delivered ch es"

lemma delivered_append [simp]: "delivered ch (xs @ ys) = delivered ch xs @ delivered ch ys"
  by (induction ch xs rule: delivered.induct) auto

lemma distinct_snd_delete: "distinct (map snd xs) \<Longrightarrow> distinct (map snd (AList.delete k xs))"
  unfolding AList.delete_eq by (rule distinct_map_filter)

lemma set_snd_delete: "set (map snd (AList.delete k xs)) \<subseteq> set (map snd xs)"
  unfolding AList.delete_eq by auto

lemma set_snd_update: "set (map snd (AList.update k v xs)) \<subseteq> insert v (set (map snd xs))"
  by (induction xs) auto

lemma distinct_snd_update:
  "distinct (map snd xs) \<Longrightarrow> v \<notin> set (map snd xs) \<Longrightarrow> distinct (map snd (AList.update k v xs))"
proof (induction xs)
  case (Cons x xs)
  then show ?case using set_snd_update [of k v xs] by auto
qed simp

lemma map_of_channel:
  "map_of (active_transfers s) cid = Some ch \<Longrightarrow> ch \<in> open_channels s"
  by (force simp: open_channels_def dest: map_of_SomeD)

lemma same_channel:
  assumes "dispatch_inv s" and "map_of (active_transfers s) cid = Some ch"
    and "map_of (active_transfers s) cid' = Some ch"
  shows "cid = cid'"
proof -
  have "(cid, ch) \<in> set (active_transfers s)" "(cid', ch) \<in> set (active_transfers s)"
    using assms(2,3) by (auto dest: map_of_SomeD)
  moreover have "inj_on snd (set (active_transfers s))"
    using assms(1) by (simp add: dispatch_inv_def distinct_map)
  ultimately show ?thesis by (metis inj_onD prod.inject snd_conv)
qed

text \<open>The effect of \<open>deliver\<close>: at most one message, to the channel of that client.\<close>

lemma deliver_cases:
  obtains
    (inactive) "map_of (active_transfers s) cid = None" "deliver env cid e b s = ([], Ok (Continue s))"
  | (dead) ch where "map_of (active_transfers s) cid = Some ch" "\<not> alive env ch"
      "deliver env cid e b s = ([], Ok (Continue (s\<lparr>active_transfers := AList.delete cid (active_transfers s)\<rparr>)))"
  | (sent) ch where "map_of (active_transfers s) cid = Some ch" "alive env ch" "\<not> e"
      "deliver env cid e b s = ([Deliver ch b], Ok (Continue s))"
  | (ended) ch where "map_of (active_transfers s) cid = Some ch" "alive env ch" "e"
      "deliver env cid e b s = ([Deliver ch b], Ok (Continue (s\<lparr>active_transfers :=
          AList.delete cid (active_transfers s), ended_transfers := AList.update cid ch
            (filter (\<lambda>(_, c). \<not> emptied env c) (ended_transfers s))\<rparr>)))"
  by (cases "map_of (active_transfers s) cid"; cases "alive env (the (map_of (active_transfers s) cid))"; cases e)
    (simp_all add: deliver_def ret_def say_def)

lemma deliver_inv:
  assumes "dispatch_inv s" and "snd (deliver env cid e b s) = Ok (Continue s')"
  shows "dispatch_inv s' \<and> next_channel s' = next_channel s \<and> open_channels s' \<subseteq> open_channels s"
proof -
  have sub: "open_channels (s\<lparr>active_transfers := AList.delete cid (active_transfers s)\<rparr>) \<subseteq> open_channels s"
    unfolding open_channels_def using set_snd_delete [of cid "active_transfers s"] by simp
  moreover have "dispatch_inv (s\<lparr>active_transfers := AList.delete cid (active_transfers s)\<rparr>)"
    using assms(1) sub by (auto simp: dispatch_inv_def distinct_snd_delete distinct_delete)
  ultimately show ?thesis
    by (cases rule: deliver_cases [of s cid env e b]) (use assms in auto)
qed

definition announced :: "client_id \<Rightarrow> dispatch \<Rightarrow> dispatch" where
  "announced cid s = s\<lparr>active_transfers := AList.update cid (next_channel s) (active_transfers s),
     next_channel := next_channel s + 1\<rparr>"

lemma announced_inv:
  assumes "dispatch_inv s"
  shows "dispatch_inv (announced cid s)"
    and "open_channels (announced cid s) \<subseteq> insert (next_channel s) (open_channels s)"
proof -
  show sub: "open_channels (announced cid s) \<subseteq> insert (next_channel s) (open_channels s)"
    using set_snd_update [of cid "next_channel s" "active_transfers s"]
    by (simp add: open_channels_def announced_def)
  have less: "\<forall>ch \<in> open_channels s. ch < next_channel s" using assms by (simp add: dispatch_inv_def)
  then have "next_channel s \<notin> set (map snd (active_transfers s))"
    unfolding open_channels_def by blast
  then have "distinct (map snd (active_transfers (announced cid s)))"
    using assms by (simp add: dispatch_inv_def announced_def distinct_snd_update)
  moreover have "\<forall>ch \<in> open_channels (announced cid s). ch < next_channel (announced cid s)"
    using sub less by (fastforce simp: announced_def)
  ultimately show "dispatch_inv (announced cid s)"
    using assms by (simp add: dispatch_inv_def announced_def distinct_update)
qed

text \<open>The kinds of blocks, as the dispatcher tells them apart.\<close>

definition block_kind :: "block \<Rightarrow> (block_type \<times> client_id) option" where
  "block_kind b = (case block_block_type b of
     Ok t \<Rightarrow> (case (block_client_id b :: (receive_error, client_id) res) of Ok c \<Rightarrow> Some (t, c) | _ \<Rightarrow> None)
   | _ \<Rightarrow> None)"

lemma block_kind_total:
  "block_block_type b = Ok t \<Longrightarrow> \<exists>c. (block_client_id b :: (receive_error, client_id) res) = Ok c"
  by (auto simp: block_block_type_def block_client_id_def index_def split: if_splits)

lemma dispatch_block_kinds:
  "dispatch_block env b s =
    (case block_kind b of
       None \<Rightarrow> ([], Ok (Continue s))
     | Some (Heartbeat, cid) \<Rightarrow> ([], Ok (Continue (s\<lparr>last_heartbeat := now env\<rparr>)))
     | Some (Start, cid) \<Rightarrow>
         if clients_up env
         then (Announce cid (next_channel s) # fst (deliver env cid False b (announced cid s)),
               snd (deliver env cid False b (announced cid s)))
         else ([], Err R_SendClients)
     | Some (t, cid) \<Rightarrow> deliver env cid (t \<noteq> Data) b s)"
proof (cases "block_block_type b")
  case (Ok t)
  from block_kind_total [OF Ok] obtain c where "(block_client_id b :: (receive_error, client_id) res) = Ok c" ..
  then show ?thesis
    using Ok by (cases t) (auto simp: dispatch_block_def block_kind_def act_simps ret_def announced_def
        emit_def Let_def split: prod.splits)
next
  case Panic
  then show ?thesis using block_type_outcome(1) [of b] by simp
next
  case (Err e)
  then show ?thesis by (simp add: dispatch_block_def block_kind_def ret_def)
next
  case Diverges
  then show ?thesis using block_type_outcome(2) [of b] by simp
qed

section \<open>One block\<close>

fun opened :: "client_id \<Rightarrow> dispatch_event list \<Rightarrow> channel list" where
  "opened cid [] = []"
| "opened cid (Announce c ch # es) = (if c = cid then ch # opened cid es else opened cid es)"
| "opened cid (_ # es) = opened cid es"

lemma opened_append [simp]: "opened cid (xs @ ys) = opened cid xs @ opened cid ys"
  by (induction cid xs rule: opened.induct) auto

definition concerns :: "client_id \<Rightarrow> block \<Rightarrow> bool" where
  "concerns cid b \<longleftrightarrow> (\<exists>t. block_kind b = Some (t, cid) \<and> t \<noteq> Heartbeat)"

definition all_up :: "dispatch_env \<Rightarrow> bool" where
  "all_up env \<longleftrightarrow> clients_up env \<and> (\<forall>ch. alive env ch)"

text \<open>The blocks that can be logged: all of them, unless the log level is \<open>Trace\<close>.\<close>

definition loggable :: "dispatch_env \<Rightarrow> block \<Rightarrow> bool" where
  "loggable env b \<longleftrightarrow> (tracing env \<longrightarrow> 9 \<le> length (serialized b))"

lemma trace_block_loggable:
  "loggable env b \<Longrightarrow> \<exists>evs. trace_block env b = (evs, Ok ()) \<and> (\<forall>ch. delivered ch evs = []) \<and> (\<forall>c. opened c evs = [])"
  using block_display_outcome [where 'e = receive_error, of b "io_text env"]
  by (auto simp: loggable_def trace_block_def say_def ret_def act_simps split: if_splits)

lemma trace_block_panics: "\<not> loggable env b \<Longrightarrow> trace_block env b = ([], Panic)"
  using block_display_outcome [where 'e = receive_error, of b "io_text env"]
  by (auto simp: loggable_def trace_block_def lift_def act_simps split: if_splits)

text \<open>What \<open>deliver\<close> does while all channels are up.\<close>

lemma deliver_up:
  assumes "all_up env"
  shows "\<exists>s'. snd (deliver env cid e b s) = Ok (Continue s')
    \<and> fst (deliver env cid e b s) =
        (case map_of (active_transfers s) cid of None \<Rightarrow> [] | Some ch \<Rightarrow> [Deliver ch b])
    \<and> (\<forall>c. map_of (active_transfers s') c =
         (if c = cid \<and> e then None else map_of (active_transfers s) c))"
  by (cases rule: deliver_cases [of s cid env e b])
    (use assms in \<open>auto simp: all_up_def delete_conv\<close>)

lemma channel_not_other:
  assumes "dispatch_inv s" and "map_of (active_transfers s) cid = Some ch" and "c \<noteq> cid"
  shows "map_of (active_transfers s) c \<noteq> Some ch"
  using same_channel [OF assms(1,2)] assms(3) by blast

text \<open>Any block: the invariant is kept, and only open or new channels receive something.\<close>

lemma dispatch_block_up:
  assumes "all_up env" and inv: "dispatch_inv s"
  shows "\<exists>s'. snd (dispatch_block env b s) = Ok (Continue s') \<and> dispatch_inv s'
    \<and> next_channel s \<le> next_channel s'
    \<and> open_channels s' \<subseteq> open_channels s \<union> {next_channel s..<next_channel s'}
    \<and> (\<forall>ch. delivered ch (fst (dispatch_block env b s)) \<noteq> [] \<longrightarrow>
          ch \<in> open_channels s \<union> {next_channel s..<next_channel s'})"
proof (cases "block_kind b")
  case None
  then show ?thesis using inv by (simp add: dispatch_block_kinds)
next
  case (Some tc)
  obtain t cid where tc: "tc = (t, cid)" by (cases tc)
  have del: "\<exists>s'. snd (deliver env cid e b r) = Ok (Continue s') \<and> dispatch_inv s'
      \<and> next_channel s' = next_channel r \<and> open_channels s' \<subseteq> open_channels r
      \<and> (\<forall>ch. delivered ch (fst (deliver env cid e b r)) \<noteq> [] \<longrightarrow> ch \<in> open_channels r)"
    if "dispatch_inv r" for e r
  proof -
    from deliver_up [OF assms(1), of cid e b r] obtain s' where
      s': "snd (deliver env cid e b r) = Ok (Continue s')"
      "fst (deliver env cid e b r) = (case map_of (active_transfers r) cid of None \<Rightarrow> [] | Some ch \<Rightarrow> [Deliver ch b])"
      by blast
    moreover have "delivered ch (fst (deliver env cid e b r)) \<noteq> [] \<longrightarrow> ch \<in> open_channels r" for ch
      using map_of_channel [of r cid ch] by (simp add: s'(2) split: option.splits)
    ultimately show ?thesis using deliver_inv [OF that s'(1)] by blast
  qed
  consider "t = Heartbeat" | "t = Start" | "t \<noteq> Heartbeat" "t \<noteq> Start" by blast
  then show ?thesis
  proof cases
    case 1
    then show ?thesis using inv Some tc by (simp add: dispatch_block_kinds)
  next
    case 2
    from del [OF announced_inv(1) [OF inv, of cid], of False] obtain s' where
      s': "snd (deliver env cid False b (announced cid s)) = Ok (Continue s')" "dispatch_inv s'"
        "next_channel s' = Suc (next_channel s)" "open_channels s' \<subseteq> open_channels (announced cid s)"
        "\<forall>ch. delivered ch (fst (deliver env cid False b (announced cid s))) \<noteq> [] \<longrightarrow> ch \<in> open_channels (announced cid s)"
      by (auto simp: announced_def)
    have st: "dispatch_block env b s = (Announce cid (next_channel s) # fst (deliver env cid False b (announced cid s)),
          snd (deliver env cid False b (announced cid s)))"
      using 2 Some tc assms(1) by (simp add: dispatch_block_kinds all_up_def)
    have "insert (next_channel s) (open_channels s) = open_channels s \<union> {next_channel s..<next_channel s'}"
      using s'(3) by auto
    then show ?thesis
      using s' announced_inv(2) [OF inv, of cid] by (intro exI [of _ s'] conjI) (auto simp: st)
  next
    case 3
    then have "dispatch_block env b s = deliver env cid (t \<noteq> Data) b s"
      using Some tc by (cases t) (simp_all add: dispatch_block_kinds)
    then show ?thesis using del [OF inv, of "t \<noteq> Data"] by auto
  qed
qed

text \<open>A block of another transfer, or of none, leaves this transfer alone.\<close>

lemma dispatch_block_other:
  assumes "all_up env" and "dispatch_inv s" and "\<not> concerns cid b"
    and "snd (dispatch_block env b s) = Ok (Continue s')"
  shows "map_of (active_transfers s') cid = map_of (active_transfers s) cid"
    and "opened cid (fst (dispatch_block env b s)) = []"
    and "map_of (active_transfers s) cid = Some ch \<Longrightarrow> delivered ch (fst (dispatch_block env b s)) = []"
proof -
  have "map_of (active_transfers s') cid = map_of (active_transfers s) cid
    \<and> opened cid (fst (dispatch_block env b s)) = []
    \<and> (map_of (active_transfers s) cid = Some ch \<longrightarrow> delivered ch (fst (dispatch_block env b s)) = [])"
  proof (cases "block_kind b")
    case None
    then show ?thesis using assms(4) by (auto simp: dispatch_block_kinds)
  next
    case (Some tc)
    obtain t c where tc: "tc = (t, c)" by (cases tc)
    show ?thesis
    proof (cases "t = Heartbeat")
      case True
      then show ?thesis using assms(4) Some tc by (auto simp: dispatch_block_kinds)
    next
      case False
      then have c: "c \<noteq> cid" using assms(3) Some tc by (auto simp: concerns_def)
      show ?thesis
      proof (cases "t = Start")
        case True
        have st: "dispatch_block env b s = (Announce c (next_channel s) # fst (deliver env c False b (announced c s)),
            snd (deliver env c False b (announced c s)))"
          using True Some tc assms(1) by (simp add: dispatch_block_kinds all_up_def)
        have look: "map_of (active_transfers (announced c s)) x
            = (if x = c then Some (next_channel s) else map_of (active_transfers s) x)" for x
          by (simp add: announced_def update_conv')
        have "ch \<noteq> next_channel s" if "map_of (active_transfers s) cid = Some ch"
          using map_of_channel [OF that] assms(2) by (auto simp: dispatch_inv_def)
        then show ?thesis
          using deliver_up [OF assms(1), of c False b "announced c s"] assms(4) c
          by (auto simp: st look)
      next
        case no: False
        then have "dispatch_block env b s = deliver env c (t \<noteq> Data) b s"
          using False Some tc by (cases t) (simp_all add: dispatch_block_kinds)
        then show ?thesis
          using deliver_up [OF assms(1), of c "t \<noteq> Data" b s] assms(4) c channel_not_other [OF assms(2) _ c]
          by (auto split: option.splits)
      qed
    qed
  qed
  then show "map_of (active_transfers s') cid = map_of (active_transfers s) cid"
    and "opened cid (fst (dispatch_block env b s)) = []"
    and "map_of (active_transfers s) cid = Some ch \<Longrightarrow> delivered ch (fst (dispatch_block env b s)) = []"
    by simp_all
qed

text \<open>The blocks of the transfer itself.\<close>

lemma dispatch_block_data:
  assumes "all_up env" and "dispatch_inv s" and "map_of (active_transfers s) cid = Some ch"
    and "block_kind b = Some (t, cid)" and "t \<in> {Data, Abort, End}"
    and "snd (dispatch_block env b s) = Ok (Continue s')"
  shows "fst (dispatch_block env b s) = [Deliver ch b]"
    and "t = Data \<Longrightarrow> map_of (active_transfers s') cid = Some ch"
    and "t \<noteq> Data \<Longrightarrow> ch \<notin> open_channels s'"
proof -
  have st: "dispatch_block env b s = deliver env cid (t \<noteq> Data) b s"
    using assms(4,5) by (auto simp: dispatch_block_kinds)
  from deliver_up [OF assms(1), of cid "t \<noteq> Data" b s] assms(6) st
  have look: "map_of (active_transfers s') c = (if c = cid \<and> t \<noteq> Data then None else map_of (active_transfers s) c)" for c
    by auto
  show "fst (dispatch_block env b s) = [Deliver ch b]"
    using deliver_up [OF assms(1), of cid "t \<noteq> Data" b s] assms(3) by (auto simp: st)
  show "t = Data \<Longrightarrow> map_of (active_transfers s') cid = Some ch"
    using look [of cid] assms(3) by simp
  show "ch \<notin> open_channels s'" if "t \<noteq> Data"
  proof
    assume "ch \<in> open_channels s'"
    then obtain c where c: "(c, ch) \<in> set (active_transfers s')" by (auto simp: open_channels_def)
    have "dispatch_inv s'" using deliver_inv [OF assms(2)] assms(6) by (simp add: st)
    then have "map_of (active_transfers s') c = Some ch"
      using c by (simp add: dispatch_inv_def)
    moreover from this have "map_of (active_transfers s) c = Some ch"
      using look [of c] by (auto split: if_splits)
    then have "c = cid" using same_channel [OF assms(2) _ assms(3)] by blast
    ultimately show False using look [of cid] that by simp
  qed
qed

lemma dispatch_block_start:
  assumes "all_up env" and "dispatch_inv s" and "block_kind b = Some (Start, cid)"
    and "snd (dispatch_block env b s) = Ok (Continue s')"
  shows "fst (dispatch_block env b s) = [Announce cid (next_channel s), Deliver (next_channel s) b]"
    and "map_of (active_transfers s') cid = Some (next_channel s)"
    and "next_channel s < next_channel s'"
proof -
  have st: "dispatch_block env b s = (Announce cid (next_channel s) # fst (deliver env cid False b (announced cid s)),
      snd (deliver env cid False b (announced cid s)))"
    using assms(1,3) by (simp add: dispatch_block_kinds all_up_def)
  have look: "map_of (active_transfers (announced cid s)) cid = Some (next_channel s)"
    by (simp add: announced_def update_conv')
  show "fst (dispatch_block env b s) = [Announce cid (next_channel s), Deliver (next_channel s) b]"
    and "map_of (active_transfers s') cid = Some (next_channel s)"
    using deliver_up [OF assms(1), of cid False b "announced cid s"] assms(4) by (auto simp: st look)
  show "next_channel s < next_channel s'"
    using deliver_inv [OF announced_inv(1) [OF assms(2), of cid], of env cid False b s'] assms(4)
    by (simp add: st) (simp add: announced_def)
qed

section \<open>Many blocks\<close>

definition block_inputs :: "(dispatch_env \<times> block) list \<Rightarrow> (dispatch_env \<times> block option recv) list" where
  "block_inputs ebs = map (\<lambda>(env, b). (env, Msg (Some b))) ebs"

definition dispatched :: "dispatch_env \<Rightarrow> block \<Rightarrow> dispatch \<Rightarrow> dispatch \<Rightarrow> bool" where
  "dispatched env b s s' \<longleftrightarrow> snd (dispatch_block env b s) = Ok (Continue s') \<and> dispatch_inv s'
    \<and> next_channel s \<le> next_channel s'
    \<and> open_channels s' \<subseteq> open_channels s \<union> {next_channel s..<next_channel s'}
    \<and> (\<forall>ch. delivered ch (fst (dispatch_block env b s)) \<noteq> [] \<longrightarrow>
          ch \<in> open_channels s \<union> {next_channel s..<next_channel s'})"

lemma dispatched_exists: "all_up env \<Longrightarrow> dispatch_inv s \<Longrightarrow> \<exists>s'. dispatched env b s s'"
  unfolding dispatched_def by (rule dispatch_block_up)

lemma dispatchedD:
  assumes "dispatched env b s s'"
  shows "snd (dispatch_block env b s) = Ok (Continue s')" and "dispatch_inv s'"
    and "next_channel s \<le> next_channel s'"
    and "ch \<in> open_channels s' \<Longrightarrow> ch \<in> open_channels s \<or> next_channel s \<le> ch \<and> ch < next_channel s'"
    and "ch \<notin> open_channels s \<Longrightarrow> ch < next_channel s \<or> next_channel s' \<le> ch \<Longrightarrow>
         delivered ch (fst (dispatch_block env b s)) = []"
proof -
  note d = assms [unfolded dispatched_def]
  from d show "snd (dispatch_block env b s) = Ok (Continue s')" "dispatch_inv s'" "next_channel s \<le> next_channel s'"
    by simp_all
  from d show "ch \<in> open_channels s' \<Longrightarrow> ch \<in> open_channels s \<or> next_channel s \<le> ch \<and> ch < next_channel s'"
    by auto
  have "delivered ch (fst (dispatch_block env b s)) \<noteq> [] \<longrightarrow> ch \<in> open_channels s \<union> {next_channel s..<next_channel s'}"
    using d by blast
  then show "ch \<notin> open_channels s \<Longrightarrow> ch < next_channel s \<or> next_channel s' \<le> ch \<Longrightarrow>
         delivered ch (fst (dispatch_block env b s)) = []"
    by auto
qed

text \<open>The block and its log line, then the rest.\<close>

lemma run_blocks_Cons:
  fixes cfg :: receive_config and rq :: "('plan, 'cfg) raptorq" and ebs :: "(dispatch_env \<times> block) list"
  assumes "dispatched env b s s1" and "loggable env b"
  defines "rest \<equiv> run (dispatch_step cfg rq) s1 (block_inputs ebs)"
    and "whole \<equiv> run (dispatch_step cfg rq) s (block_inputs ((env, b) # ebs))"
  shows "delivered ch (fst whole) = delivered ch (fst (dispatch_block env b s)) @ delivered ch (fst rest)"
    and "opened cid (fst whole) = opened cid (fst (dispatch_block env b s)) @ opened cid (fst rest)"
    and "snd whole = snd rest"
proof -
  from trace_block_loggable [OF assms(2)] obtain evs where
    evs: "trace_block env b = (evs, Ok ())" "\<And>ch. delivered ch evs = []" "\<And>c. opened c evs = []" by blast
  have "dispatch_step cfg rq s (env, Msg (Some b)) = (evs @ fst (dispatch_block env b s), Ok (Continue s1))"
    using dispatchedD(1) [OF assms(1)] evs(1) by (cases "dispatch_block env b s") (simp add: act_simps)
  then have "whole = (evs @ fst (dispatch_block env b s) @ fst rest, snd rest)"
    by (simp add: whole_def rest_def block_inputs_def del: dispatch_step.simps)
  then show "delivered ch (fst whole) = delivered ch (fst (dispatch_block env b s)) @ delivered ch (fst rest)"
    and "opened cid (fst whole) = opened cid (fst (dispatch_block env b s)) @ opened cid (fst rest)"
    and "snd whole = snd rest"
    using evs(2,3) by simp_all
qed

text \<open>A channel that is closed stays closed.\<close>

lemma run_closed:
  assumes "\<forall>(env, b) \<in> set ebs. all_up env \<and> loggable env b" and "dispatch_inv s"
    and "ch \<notin> open_channels s" and "ch < next_channel s"
  shows "delivered ch (fst (run (dispatch_step cfg rq) s (block_inputs ebs))) = []"
  using assms
proof (induction ebs arbitrary: s)
  case Nil
  then show ?case by (simp add: block_inputs_def ret_def)
next
  case (Cons eb ebs)
  obtain env b where eb: "eb = (env, b)" by (cases eb)
  with Cons.prems have up: "all_up env" and log: "loggable env b" by simp_all
  from dispatched_exists [OF up Cons.prems(2), of b] obtain s1 where d: "dispatched env b s s1" ..
  note s1 = dispatchedD [OF d]
  have "ch \<notin> open_channels s1" using s1(4) [of ch] Cons.prems(3,4) by auto
  then have "delivered ch (fst (run (dispatch_step cfg rq) s1 (block_inputs ebs))) = []"
    using Cons.prems(1,4) s1(2,3) by (intro Cons.IH) auto
  then show ?case
    using s1(5) [of ch] Cons.prems(3,4) by (simp add: eb run_blocks_Cons [OF d log])
qed

lemma run_opened_none:
  assumes "\<forall>(env, b) \<in> set ebs. all_up env \<and> loggable env b \<and> block_kind b \<noteq> Some (Start, cid)" and "dispatch_inv s"
  shows "opened cid (fst (run (dispatch_step cfg rq) s (block_inputs ebs))) = []"
    and "\<exists>s'. snd (run (dispatch_step cfg rq) s (block_inputs ebs)) = Ok (Continue s')"
proof -
  have "opened cid (fst (run (dispatch_step cfg rq) s (block_inputs ebs))) = []
    \<and> (\<exists>s'. snd (run (dispatch_step cfg rq) s (block_inputs ebs)) = Ok (Continue s'))"
    using assms
  proof (induction ebs arbitrary: s)
    case Nil
    then show ?case by (simp add: block_inputs_def ret_def)
  next
    case (Cons eb ebs)
    obtain env b where eb: "eb = (env, b)" by (cases eb)
    with Cons.prems have up: "all_up env" and log: "loggable env b" and k: "block_kind b \<noteq> Some (Start, cid)" by simp_all
    from dispatched_exists [OF up Cons.prems(2), of b] obtain s1 where d: "dispatched env b s s1" ..
    note s1 = dispatchedD [OF d]
    have "opened cid (fst (dispatch_block env b s)) = []"
    proof (cases "concerns cid b")
      case False
      then show ?thesis using dispatch_block_other(2) [OF up Cons.prems(2) _ s1(1)] by blast
    next
      case True
      then obtain t where t: "block_kind b = Some (t, cid)" "t \<noteq> Heartbeat" "t \<noteq> Start"
        using k by (auto simp: concerns_def)
      then have "dispatch_block env b s = deliver env cid (t \<noteq> Data) b s"
        by (cases t) (simp_all add: dispatch_block_kinds)
      then show ?thesis
        using deliver_up [OF up, of cid "t \<noteq> Data" b s] by (auto split: option.splits)
    qed
    moreover have "opened cid (fst (run (dispatch_step cfg rq) s1 (block_inputs ebs))) = []
      \<and> (\<exists>s'. snd (run (dispatch_step cfg rq) s1 (block_inputs ebs)) = Ok (Continue s'))"
      using Cons.prems(1) s1(2) by (intro Cons.IH) simp_all
    ultimately show ?case by (simp add: eb run_blocks_Cons [OF d log])
  qed
  then show "opened cid (fst (run (dispatch_step cfg rq) s (block_inputs ebs))) = []"
    and "\<exists>s'. snd (run (dispatch_step cfg rq) s (block_inputs ebs)) = Ok (Continue s')" by simp_all
qed

text \<open>An open transfer receives its data up to the block that ends it.\<close>

lemma run_open:
  assumes "\<forall>(env, b) \<in> set ebs. all_up env \<and> loggable env b" and "dispatch_inv s"
    and "map_of (active_transfers s) cid = Some ch"
    and "filter (concerns cid) (map snd ebs) = ds @ [e]"
    and "\<forall>b \<in> set ds. block_kind b = Some (Data, cid)"
    and "block_kind e = Some (Abort, cid) \<or> block_kind e = Some (End, cid)"
  shows "delivered ch (fst (run (dispatch_step cfg rq) s (block_inputs ebs))) = ds @ [e]"
  using assms
proof (induction ebs arbitrary: s ds)
  case Nil
  then show ?case by simp
next
  case (Cons eb ebs)
  obtain env b where eb: "eb = (env, b)" by (cases eb)
  with Cons.prems(1) have up: "all_up env" and log: "loggable env b" and ups: "\<forall>(env, b) \<in> set ebs. all_up env \<and> loggable env b" by auto
  from dispatched_exists [OF up Cons.prems(2), of b] obtain s1 where d: "dispatched env b s s1" ..
  note s1 = dispatchedD [OF d] and rn = run_blocks_Cons [OF d log, where cfg = cfg and rq = rq and ebs = ebs]
  show ?case
  proof (cases "concerns cid b")
    case False
    note other = dispatch_block_other [OF up Cons.prems(2) False s1(1)]
    have "delivered ch (fst (run (dispatch_step cfg rq) s1 (block_inputs ebs))) = ds @ [e]"
      using Cons.prems(3-6) False eb other(1) by (intro Cons.IH [OF ups s1(2)]) auto
    then show ?thesis using other(3) [OF Cons.prems(3)] by (simp add: eb rn)
  next
    case True
    then have split: "b # filter (concerns cid) (map snd ebs) = ds @ [e]"
      using Cons.prems(4) eb by simp
    show ?thesis
    proof (cases ds)
      case Nil
      then have b: "b = e" "filter (concerns cid) (map snd ebs) = []" using split by simp_all
      obtain t where t: "block_kind b = Some (t, cid)" "t \<in> {Data, Abort, End}" "t \<noteq> Data"
        using Cons.prems(6) b(1) by auto
      note data = dispatch_block_data [OF up Cons.prems(2,3) t(1,2) s1(1)]
      have "ch < next_channel s"
        using map_of_channel [OF Cons.prems(3)] Cons.prems(2) by (simp add: dispatch_inv_def)
      then have "delivered ch (fst (run (dispatch_step cfg rq) s1 (block_inputs ebs))) = []"
        using s1(2,3) data(3) t(3) ups by (intro run_closed) auto
      then show ?thesis unfolding eb rn using data(1) Nil b(1) by simp
    next
      case (Cons d ds')
      then have b: "b = d" "filter (concerns cid) (map snd ebs) = ds' @ [e]" using split by simp_all
      have t: "block_kind b = Some (Data, cid)" using Cons.prems(5) Cons b(1) by simp
      note data = dispatch_block_data [OF up Cons.prems(2,3) t _ s1(1)]
      have "delivered ch (fst (run (dispatch_step cfg rq) s1 (block_inputs ebs))) = ds' @ [e]"
        using Cons.prems(5,6) Cons b(2) data(2) by (intro Cons.IH [OF ups s1(2)]) auto
      then show ?thesis unfolding eb rn using data(1) Cons b(1) by simp
    qed
  qed
qed

text \<open>A whole transfer, anywhere among the blocks of others.\<close>

lemma run_transfer:
  assumes "\<forall>(env, b) \<in> set ebs. all_up env \<and> loggable env b" and "dispatch_inv s"
    and "filter (concerns cid) (map snd ebs) = st # ds @ [e]"
    and "block_kind st = Some (Start, cid)" and "\<forall>b \<in> set ds. block_kind b = Some (Data, cid)"
    and "block_kind e = Some (Abort, cid) \<or> block_kind e = Some (End, cid)"
  shows "\<exists>ch \<ge> next_channel s.
     opened cid (fst (run (dispatch_step cfg rq) s (block_inputs ebs))) = [ch]
   \<and> delivered ch (fst (run (dispatch_step cfg rq) s (block_inputs ebs))) = st # ds @ [e]
   \<and> (\<exists>s'. snd (run (dispatch_step cfg rq) s (block_inputs ebs)) = Ok (Continue s'))"
  using assms
proof (induction ebs arbitrary: s)
  case Nil
  then show ?case by simp
next
  case (Cons eb ebs)
  obtain env b where eb: "eb = (env, b)" by (cases eb)
  with Cons.prems(1) have up: "all_up env" and log: "loggable env b" and ups: "\<forall>(env, b) \<in> set ebs. all_up env \<and> loggable env b" by auto
  from dispatched_exists [OF up Cons.prems(2), of b] obtain s1 where d: "dispatched env b s s1" ..
  note s1 = dispatchedD [OF d] and rn = run_blocks_Cons [OF d log, where cfg = cfg and rq = rq and ebs = ebs]
  show ?case
  proof (cases "concerns cid b")
    case False
    then have "filter (concerns cid) (map snd ebs) = st # ds @ [e]" using Cons.prems(3) eb by simp
    from Cons.IH [OF ups s1(2) this Cons.prems(4-6)] obtain ch where
      ch: "next_channel s1 \<le> ch"
        "opened cid (fst (run (dispatch_step cfg rq) s1 (block_inputs ebs))) = [ch]"
        "delivered ch (fst (run (dispatch_step cfg rq) s1 (block_inputs ebs))) = st # ds @ [e]"
        "\<exists>s'. snd (run (dispatch_step cfg rq) s1 (block_inputs ebs)) = Ok (Continue s')" by blast
    have "delivered ch (fst (dispatch_block env b s)) = []"
      using s1(3) s1(5) [of ch] ch(1) Cons.prems(2) by (fastforce simp: dispatch_inv_def)
    then show ?thesis
      using ch s1(3) dispatch_block_other(2) [OF up Cons.prems(2) False s1(1)]
      by (intro exI [of _ ch]) (simp add: eb rn)
  next
    case True
    then have b: "b = st" and rest: "filter (concerns cid) (map snd ebs) = ds @ [e]"
      using Cons.prems(3) eb by simp_all
    note start = dispatch_block_start [OF up Cons.prems(2) Cons.prems(4) [folded b] s1(1)]
    have del: "delivered (next_channel s) (fst (run (dispatch_step cfg rq) s1 (block_inputs ebs))) = ds @ [e]"
      using Cons.prems(5,6) by (intro run_open [OF ups s1(2) start(2) rest])
    have "block_kind x \<noteq> Some (Start, cid)" if "x \<in> set (map snd ebs)" for x
    proof
      assume k: "block_kind x = Some (Start, cid)"
      then have "concerns cid x" by (simp add: concerns_def)
      then have "x \<in> set (filter (concerns cid) (map snd ebs))" using that by simp
      then have "x \<in> set (ds @ [e])" by (simp only: rest)
      then show False using k Cons.prems(5,6) by auto
    qed
    then have "\<forall>(env, b) \<in> set ebs. all_up env \<and> loggable env b \<and> block_kind b \<noteq> Some (Start, cid)"
      using ups by force
    from run_opened_none [OF this s1(2), of cfg rq] show ?thesis
      unfolding eb rn using start del b by (intro exI [of _ "next_channel s"]) simp
  qed
qed

lemma abort_all_up:
  assumes "9 \<le> unat (transfer_length rq)"
  shows "abort_all rq env ts =
    (map (\<lambda>(cid, ch). Deliver ch (rq_block rq Abort cid [])) (filter (\<lambda>(_, ch). alive env ch) ts), Ok ())"
  by (induction ts) (auto simp: ret_def act_simps say_def rq_block_new_None [OF assms])

lemma block_kind_rq_block [simp]: "block_kind (rq_block rq t cid data) = Some (t, cid)"
  by (simp add: block_kind_def rq_block_def)

definition env_up :: dispatch_env where
  "env_up = \<lparr>now = 0, alive = (\<lambda>_. True), emptied = (\<lambda>_. True), clients_up = True,
     tracing = False, io_text = (\<lambda>_. [])\<rparr>"

definition sample_receive_config :: receive_config where
  "sample_receive_config = \<lparr>r_from = V4 (127, 0, 0, 1) 6000, r_from_mtu = 48, r_batch_receive = None,
     r_reset_timeout = 2000000000, r_nb_decode_threads = 1, r_max_clients = 2, r_flush = False,
     r_abort_timeout = None, r_heartbeat_interval = Some 10000000000, r_cpu_affinity = False, r_hash = True\<rparr>"

text \<open>The heartbeat of a link whose blocks have eight bytes: handled, unless it is logged.\<close>

lemma logged_heartbeat_panics:
  "\<exists>rq b. raptorq_new True sample_lib 40 8 0 0 = Ok rq \<and> block_new Heartbeat rq 0 None = Ok b
    \<and> dispatch_step cfg rq s (env\<lparr>tracing := True\<rparr>, Msg (Some b)) = ([], Panic)
    \<and> dispatch_step cfg rq s (env\<lparr>tracing := False\<rparr>, Msg (Some b)) = ([], Ok (Continue (s\<lparr>last_heartbeat := now env\<rparr>)))"
proof -
  obtain rq where rq: "raptorq_new True sample_lib 40 8 0 0 = Ok rq" "transfer_length rq = 8"
    by (simp add: raptorq_new_def raptorq_consts sub_chk_def rem_chk_def div_chk_def mul_chk_def
        repair_count_def try_from_def sample_lib_def)
  let ?b = "Block (replicate 8 0)"
  have "(try_from (transfer_length rq) :: usize option) = Some 8"
    by (simp add: rq(2) try_from_def)
  moreover have "replicate 8 (0 :: u8) = [0, 0, 0, 0, 0, 0, 0, 0]" by (simp add: numeral_eq_Suc)
  moreover have "to_le 4 (0 :: u32) = [0, 0, 0, 0]" unfolding to_le_4_zero by (simp add: numeral_eq_Suc)
  ultimately have b: "block_new Heartbeat rq 0 None = Ok ?b"
    by (simp add: block_new.simps store_def ID_HEARTBEAT_def Let_def)
  have k: "block_kind ?b = Some (Heartbeat, 0)"
    by (simp add: block_kind_def block_block_type_def block_client_id_def index_def ID_HEARTBEAT_def)
  have "trace_block (env\<lparr>tracing := True\<rparr>) ?b = ([], Panic)"
    by (rule trace_block_panics) (simp add: loggable_def)
  then have "dispatch_step cfg rq s (env\<lparr>tracing := True\<rparr>, Msg (Some ?b)) = ([], Panic)" by (simp add: act_simps)
  moreover have "dispatch_step cfg rq s (env\<lparr>tracing := False\<rparr>, Msg (Some ?b))
      = ([], Ok (Continue (s\<lparr>last_heartbeat := now env\<rparr>)))"
    by (simp add: trace_block_def ret_def act_simps dispatch_block_kinds k)
  ultimately show ?thesis using rq(1) b by blast
qed

section \<open>Properties\<close>

text \<open>Property C9. Demultiplexing. A transfer whose blocks (one \<open>Start\<close>, any \<open>Data\<close>, one \<open>End\<close> or \<open>Abort\<close>) arrive anywhere
  among the blocks of other clients, heartbeats and blocks that cannot be parsed is announced on exactly one
  channel, and this channel receives exactly the blocks of the transfer, in order and nothing else; the worker
  survives all of it.\<close>

theorem dispatch_demultiplexes:
  assumes "\<forall>(env, b) \<in> set ebs. all_up env \<and> loggable env b" and "dispatch_inv s"
    and "filter (concerns cid) (map snd ebs) = st # ds @ [e]"
    and "block_kind st = Some (Start, cid)" and "\<forall>b \<in> set ds. block_kind b = Some (Data, cid)"
    and "block_kind e = Some (Abort, cid) \<or> block_kind e = Some (End, cid)"
  shows "\<exists>ch evs s'. run (dispatch_step cfg rq) s (map (\<lambda>(env, b). (env, Msg (Some b))) ebs) = (evs, Ok (Continue s'))
    \<and> opened cid evs = [ch] \<and> delivered ch evs = st # ds @ [e]"
  using run_transfer [OF assms, of cfg rq] by (metis block_inputs_def prod.collapse)

theorem dispatch_demultiplexes_witness:
  "\<exists>ch evs s'. run (dispatch_step sample_receive_config small_rq) (dispatch_init 0)
      (map (\<lambda>(env, b). (env, Msg (Some b)))
        [(env_up, rq_block small_rq Start 7 []), (env_up, rq_block small_rq Start 8 []),
         (env_up, Block [1, 2]), (env_up, rq_block small_rq End 7 [5])]) = (evs, Ok (Continue s'))
    \<and> opened 7 evs = [ch] \<and> delivered ch evs = [rq_block small_rq Start 7 [], rq_block small_rq End 7 [5]]"
proof -
  let ?ebs = "[(env_up, rq_block small_rq Start 7 []), (env_up, rq_block small_rq Start 8 []),
         (env_up, Block [1, 2]), (env_up, rq_block small_rq End 7 [5])]"
  have 1: "\<forall>(env, b) \<in> set ?ebs. all_up env \<and> loggable env b" by (simp add: all_up_def env_up_def loggable_def)
  have 2: "dispatch_inv (dispatch_init 0)" by (simp add: dispatch_inv_def dispatch_init_def open_channels_def)
  have "block_kind (Block [1, 2]) = None" by (simp add: block_kind_def block_block_type_def)
  then have 3: "filter (concerns 7) (map snd ?ebs)
      = rq_block small_rq Start 7 [] # [] @ [rq_block small_rq End 7 [5]]"
    by (simp add: concerns_def)
  show ?thesis
    using dispatch_demultiplexes [OF 1 2 3, of sample_receive_config small_rq] by simp
qed

text \<open>When the synchronisation is lost every active transfer gets an \<open>Abort\<close> block for its own
  client, and from then on no block reaches its channel any more, whatever follows.\<close>

theorem dispatch_sync_loss_aborts:
  assumes "9 \<le> unat (transfer_length rq)" and "dispatch_inv s" and "all_up env"
    and "(cid, ch) \<in> set (active_transfers s)"
    and "\<forall>(env, b) \<in> set ebs. all_up env \<and> loggable env b"
  shows "delivered ch (fst (run (dispatch_step cfg rq) s
      ((env, Msg None) # map (\<lambda>(env, b). (env, Msg (Some b))) ebs))) = [rq_block rq Abort cid []]"
proof -
  let ?ts = "active_transfers s"
  have "filter (\<lambda>(_, ch). alive env ch) ?ts = ?ts" using assms(3) by (auto simp: all_up_def filter_id_conv)
  then have st: "dispatch_step cfg rq s (env, Msg None) =
      (map (\<lambda>(cid, ch). Deliver ch (rq_block rq Abort cid [])) ?ts, Ok (Continue (s\<lparr>active_transfers := []\<rparr>)))"
    using abort_all_up [OF assms(1), of env ?ts] by (simp add: ret_def)
  have "delivered ch (map (\<lambda>(cid, ch). Deliver ch (rq_block rq Abort cid [])) ts) =
      map (\<lambda>(cid, _). rq_block rq Abort cid []) (filter (\<lambda>(_, c). c = ch) ts)" for ts
    by (induction ts) auto
  moreover have "filter (\<lambda>(_, c). c = ch) ?ts = [(cid, ch)]"
  proof -
    have "distinct (map snd ts) \<Longrightarrow> (cid, ch) \<in> set ts \<Longrightarrow> filter (\<lambda>(_, c). c = ch) ts = [(cid, ch)]" for ts
      by (induction ts) (force simp: filter_empty_conv)+
    moreover have "distinct (map snd ?ts)" using assms(2) by (simp add: dispatch_inv_def)
    ultimately show ?thesis using assms(4) by blast
  qed
  moreover have "dispatch_inv (s\<lparr>active_transfers := []\<rparr>)"
    by (simp add: dispatch_inv_def open_channels_def)
  moreover have "ch \<in> open_channels s" using assms(4) by (force simp: open_channels_def)
  then have "ch < next_channel s" using assms(2) by (simp add: dispatch_inv_def)
  ultimately show ?thesis
    using run_closed [OF assms(5), of "s\<lparr>active_transfers := []\<rparr>" ch cfg rq] st
    by (simp add: block_inputs_def open_channels_def)
qed

theorem dispatch_sync_loss_aborts_witness:
  "delivered 0 (fst (run (dispatch_step sample_receive_config small_rq)
      \<lparr>active_transfers = [(7, 0), (8, 1)], ended_transfers = [], next_channel = 2, last_heartbeat = 0\<rparr>
      [(env_up, Msg None), (env_up, Msg (Some (rq_block small_rq Data 7 [5])))]))
    = [rq_block small_rq Abort 7 []]"
  using dispatch_sync_loss_aborts [of small_rq "\<lparr>active_transfers = [(7, 0), (8, 1)],
      ended_transfers = [], next_channel = 2, last_heartbeat = 0\<rparr>" env_up 7 0
      "[(env_up, rq_block small_rq Data 7 [5])]" sample_receive_config]
  by (simp add: small_rq_def dispatch_inv_def open_channels_def all_up_def env_up_def loggable_def)

text \<open>Property C25. What any decoded block, of whatever bytes and length, does to the worker while the channels are
  up. It survives it and keeps its invariant, and drops a block that is too short for its type, unless the
  log level is \<open>Trace\<close> and the block has less than the nine bytes of a header: then
  the log line that shows the block makes the worker panic.\<close>

theorem dispatch_survives_any_block:
  assumes "all_up env" and "dispatch_inv s"
  shows "if tracing env \<and> length bytes < 9
    then dispatch_step cfg rq s (env, Msg (Some (Block bytes))) = ([], Panic)
    else \<exists>evs s'. dispatch_step cfg rq s (env, Msg (Some (Block bytes))) = (evs, Ok (Continue s')) \<and> dispatch_inv s'
      \<and> (length bytes < 5 \<longrightarrow> evs = [] \<and> s' = s)"
proof (cases "loggable env (Block bytes)")
  case True
  from trace_block_loggable [OF True] obtain evs where evs: "trace_block env (Block bytes) = (evs, Ok ())" by blast
  then have quiet: "\<not> tracing env \<longrightarrow> evs = []" by (auto simp: trace_block_def ret_def)
  from dispatch_block_up [OF assms, of "Block bytes"] obtain s' where
    s': "snd (dispatch_block env (Block bytes) s) = Ok (Continue s')" "dispatch_inv s'" by blast
  have "dispatch_block env (Block bytes) s = ([], Ok (Continue s))" if "length bytes < 5"
    using that by (simp add: dispatch_block_kinds block_kind_def block_block_type_def)
  then show ?thesis
    using True evs quiet s' by (cases "dispatch_block env (Block bytes) s") (auto simp: loggable_def act_simps)
next
  case False
  then show ?thesis using trace_block_panics [OF False] by (simp add: loggable_def act_simps)
qed

theorem dispatch_survives_any_block_witness:
  "(\<exists>evs s'. dispatch_step sample_receive_config small_rq (dispatch_init 0) (env_up, Msg (Some (Block [1, 2, 3])))
    = (evs, Ok (Continue s')) \<and> evs = [])
   \<and> dispatch_step sample_receive_config small_rq (dispatch_init 0)
       (env_up\<lparr>tracing := True\<rparr>, Msg (Some (Block [1, 2, 3]))) = ([], Panic)"
  using dispatch_survives_any_block [of env_up "dispatch_init 0" "[1, 2, 3]" sample_receive_config small_rq]
    dispatch_survives_any_block [of "env_up\<lparr>tracing := True\<rparr>" "dispatch_init 0" "[1, 2, 3]" sample_receive_config small_rq]
  by (auto simp: all_up_def env_up_def dispatch_inv_def dispatch_init_def open_channels_def)

end
