(* ===== verification/Writer.thy ===== *)
theory Writer
  imports Bytes
begin

text \<open>
  Byte sinks and \<open>std::io::BufWriter\<close>, through which the receiver and the file tools write.

  A \<open>sink\<close> is a file or socket: it takes all bytes (\<open>room = None\<close>) or fails after so many more. The
  buffered writer follows the standard library: a write that fits is buffered, one that does not
  first flushes the buffer, and one as large as the buffer goes straight to the sink.
  The locale \<open>byte_writer\<close> is what its users rely on: what was accepted is, in order, what
  reaches the sink by the time of a successful flush.
\<close>

section \<open>Sinks\<close>

record sink =
  sunk :: bytes
  room :: "nat option"
  flush_works :: bool

definition open_sink :: sink where
  "open_sink = \<lparr>sunk = [], room = None, flush_works = True\<rparr>"

definition sink_write_all :: "bytes \<Rightarrow> sink \<Rightarrow> sink \<times> (io_error, unit) res" where
  "sink_write_all d k =
     (case room k of
        None \<Rightarrow> (k\<lparr>sunk := sunk k @ d\<rparr>, Ok ())
      | Some n \<Rightarrow>
          if length d \<le> n then (k\<lparr>sunk := sunk k @ d, room := Some (n - length d)\<rparr>, Ok ())
          else (k\<lparr>sunk := sunk k @ take n d, room := Some 0\<rparr>, Err Io_failed))"

definition sink_flush :: "sink \<Rightarrow> (io_error, unit) res" where
  "sink_flush k = (if flush_works k then Ok () else Err Io_failed)"

definition reliable :: "sink \<Rightarrow> bool" where
  "reliable k \<longleftrightarrow> room k = None \<and> flush_works k"

lemma sink_write_ok:
  "snd (sink_write_all d k) = Ok () \<Longrightarrow> sunk (fst (sink_write_all d k)) = sunk k @ d"
  by (auto simp: sink_write_all_def split: option.splits if_splits)

lemma sink_write_prefix:
  "\<exists>n. sunk (fst (sink_write_all d k)) = sunk k @ take n d"
  by (auto simp: sink_write_all_def split: option.splits intro: exI [of _ "length d"])

lemma sink_write_reliable:
  "reliable k \<Longrightarrow> sink_write_all d k = (k\<lparr>sunk := sunk k @ d\<rparr>, Ok ())"
  by (simp add: sink_write_all_def reliable_def)

section \<open>The buffered writer\<close>

record buf_writer =
  bw_capacity :: nat
  bw_buf :: bytes
  bw_inner :: sink

definition buf_writer_new :: "nat \<Rightarrow> sink \<Rightarrow> buf_writer" where
  "buf_writer_new capacity k = \<lparr>bw_capacity = capacity, bw_buf = [], bw_inner = k\<rparr>"

text \<open>\<open>flush_buf\<close>: what the sink did not take stays in the buffer.\<close>

definition flush_buf :: "buf_writer \<Rightarrow> buf_writer \<times> (io_error, unit) res" where
  "flush_buf w =
     (case sink_write_all (bw_buf w) (bw_inner w) of
        (k, r) \<Rightarrow> (w\<lparr>bw_inner := k, bw_buf := drop (length (sunk k) - length (sunk (bw_inner w))) (bw_buf w)\<rparr>, r))"

definition bw_write_all :: "bytes \<Rightarrow> buf_writer \<Rightarrow> buf_writer \<times> (io_error, unit) res" where
  "bw_write_all d w =
     (let spare = bw_capacity w - length (bw_buf w) in
      if length d < spare then (w\<lparr>bw_buf := bw_buf w @ d\<rparr>, Ok ())
      else
        case (if spare < length d then flush_buf w else (w, Ok ())) of (w, r) \<Rightarrow>
          if r \<noteq> Ok () then (w, r)
          else if bw_capacity w \<le> length d
          then (case sink_write_all d (bw_inner w) of (k, r) \<Rightarrow> (w\<lparr>bw_inner := k\<rparr>, r))
          else (w\<lparr>bw_buf := bw_buf w @ d\<rparr>, Ok ()))"

definition bw_flush :: "buf_writer \<Rightarrow> buf_writer \<times> (io_error, unit) res" where
  "bw_flush w = (case flush_buf w of (w, r) \<Rightarrow> (w, and_then r (\<lambda>_. sink_flush (bw_inner w))))"

definition bw_into_inner :: "buf_writer \<Rightarrow> buf_writer \<times> (io_error, sink) res" where
  "bw_into_inner w = (case flush_buf w of (w, r) \<Rightarrow> (w, and_then r (\<lambda>_. Ok (bw_inner w))))"

text \<open>Dropping the writer flushes the buffer and ignores the outcome.\<close>

definition bw_drop :: "buf_writer \<Rightarrow> sink" where
  "bw_drop w = bw_inner (fst (flush_buf w))"

section \<open>The contract\<close>

locale byte_writer =
  fixes write_all :: "bytes \<Rightarrow> 'w \<Rightarrow> 'w \<times> (io_error, unit) res"
    and flush :: "'w \<Rightarrow> 'w \<times> (io_error, unit) res"
    and accepted :: "'w \<Rightarrow> bytes"   \<comment> \<open>the bytes of all successful writes\<close>
    and landed :: "'w \<Rightarrow> bytes"     \<comment> \<open>what has reached the sink\<close>
    and healthy :: "'w \<Rightarrow> bool"     \<comment> \<open>no call will fail\<close>
  assumes write_accepts: "snd (write_all d w) = Ok () \<Longrightarrow> accepted (fst (write_all d w)) = accepted w @ d"
    and flush_lands: "snd (flush w) = Ok () \<Longrightarrow>
        accepted (fst (flush w)) = accepted w \<and> landed (fst (flush w)) = accepted w"
    and write_healthy: "healthy w \<Longrightarrow> snd (write_all d w) = Ok () \<and> healthy (fst (write_all d w))"
    and flush_healthy: "healthy w \<Longrightarrow> snd (flush w) = Ok () \<and> healthy (fst (flush w))"
begin

lemma write_flush_healthy:
  assumes "healthy w"
  shows "\<exists>w'. write_all d w = (w', Ok ()) \<and> healthy w' \<and> accepted w' = accepted w @ d"
    and "\<exists>w'. flush w = (w', Ok ()) \<and> healthy w' \<and> accepted w' = accepted w \<and> landed w' = accepted w"
proof -
  show "\<exists>w'. write_all d w = (w', Ok ()) \<and> healthy w' \<and> accepted w' = accepted w @ d"
    using write_healthy [OF assms, of d] write_accepts [of d w] by (cases "write_all d w") simp
  show "\<exists>w'. flush w = (w', Ok ()) \<and> healthy w' \<and> accepted w' = accepted w \<and> landed w' = accepted w"
    using flush_healthy [OF assms] flush_lands [of w] by (cases "flush w") simp
qed

text \<open>One piece with its flush, as one step.\<close>

definition put :: "bool \<Rightarrow> bytes \<Rightarrow> 'w \<Rightarrow> 'w \<times> (io_error, unit) res" where
  "put fl d w = (case write_all d w of (w, r) \<Rightarrow>
     if r \<noteq> Ok () then (w, r) else if fl then flush w else (w, Ok ()))"

lemma put_accepts: "snd (put fl d w) = Ok () \<Longrightarrow> accepted (fst (put fl d w)) = accepted w @ d"
proof -
  assume ok: "snd (put fl d w) = Ok ()"
  obtain w1 r1 where w1: "write_all d w = (w1, r1)" by (cases "write_all d w")
  with ok have r1: "r1 = Ok ()" by (cases r1) (auto simp: put_def)
  then have "accepted w1 = accepted w @ d" using write_accepts [of d w] w1 by simp
  then show ?thesis using ok w1 r1 flush_lands [of w1] by (cases fl) (simp_all add: put_def)
qed

lemma put_healthy:
  assumes "healthy w"
  shows "\<exists>w'. put fl d w = (w', Ok ()) \<and> healthy w' \<and> accepted w' = accepted w @ d"
proof -
  from write_flush_healthy(1) [OF assms, of d] obtain w1 where
    w1: "write_all d w = (w1, Ok ())" "healthy w1" "accepted w1 = accepted w @ d" by blast
  from write_flush_healthy(2) [OF w1(2)] obtain w2 where
    "flush w1 = (w2, Ok ())" "healthy w2" "accepted w2 = accepted w1" by blast
  then show ?thesis using w1 by (cases fl) (simp_all add: put_def)
qed

text \<open>Writing a list of pieces, each optionally followed by a flush.\<close>

fun write_pieces :: "bool \<Rightarrow> bytes list \<Rightarrow> 'w \<Rightarrow> 'w \<times> (io_error, unit) res" where
  "write_pieces fl [] w = (w, Ok ())"
| "write_pieces fl (d # ds) w =
     (case put fl d w of (w, r) \<Rightarrow> if r = Ok () then write_pieces fl ds w else (w, r))"

lemma write_pieces_accepts:
  "snd (write_pieces fl ds w) = Ok () \<Longrightarrow> accepted (fst (write_pieces fl ds w)) = accepted w @ concat ds"
proof (induction ds arbitrary: w)
  case Nil
  then show ?case by simp
next
  case (Cons d ds)
  then show ?case
    using put_accepts [of fl d w] by (cases "put fl d w") (simp split: if_splits)
qed

lemma write_pieces_healthy:
  assumes "healthy w"
  shows "\<exists>w'. write_pieces fl ds w = (w', Ok ()) \<and> healthy w' \<and> accepted w' = accepted w @ concat ds"
  using assms
proof (induction ds arbitrary: w)
  case Nil
  then show ?case by simp
next
  case (Cons d ds)
  from put_healthy [OF Cons.prems, of fl d] obtain w1 where
    "put fl d w = (w1, Ok ())" "healthy w1" "accepted w1 = accepted w @ d" by blast
  then show ?case using Cons.IH [of w1] by simp
qed

end

definition bw_accepted :: "buf_writer \<Rightarrow> bytes" where
  "bw_accepted w = sunk (bw_inner w) @ bw_buf w"

definition bw_healthy :: "buf_writer \<Rightarrow> bool" where
  "bw_healthy w \<longleftrightarrow> reliable (bw_inner w)"

lemma flush_buf_accepted: "bw_accepted (fst (flush_buf w)) = bw_accepted w"
proof -
  obtain n where n: "sunk (fst (sink_write_all (bw_buf w) (bw_inner w))) = sunk (bw_inner w) @ take n (bw_buf w)"
    using sink_write_prefix by blast
  then show ?thesis
    by (cases "sink_write_all (bw_buf w) (bw_inner w)")
      (auto simp: flush_buf_def bw_accepted_def min_def)
qed

lemma flush_buf_ok:
  "snd (flush_buf w) = Ok () \<Longrightarrow> bw_buf (fst (flush_buf w)) = [] \<and> sunk (bw_inner (fst (flush_buf w))) = bw_accepted w"
  using sink_write_ok [of "bw_buf w" "bw_inner w"]
  by (cases "sink_write_all (bw_buf w) (bw_inner w)") (auto simp: flush_buf_def bw_accepted_def)

lemma flush_buf_healthy:
  "bw_healthy w \<Longrightarrow> flush_buf w = (w\<lparr>bw_inner := (bw_inner w)\<lparr>sunk := bw_accepted w\<rparr>, bw_buf := []\<rparr>, Ok ())"
  by (simp add: flush_buf_def bw_healthy_def sink_write_reliable bw_accepted_def)

text \<open>A write that is not buffered finds the buffer empty, if the buffer has no room left for it.\<close>

lemma bw_write_accepts:
  assumes "snd (bw_write_all d w) = Ok ()"
  shows "bw_accepted (fst (bw_write_all d w)) = bw_accepted w @ d"
proof -
  define spare where "spare = bw_capacity w - length (bw_buf w)"
  obtain w1 r1 where w1: "(if spare < length d then flush_buf w else (w, Ok ())) = (w1, r1)"
    by (cases "if spare < length d then flush_buf w else (w, Ok ())")
  show ?thesis
  proof (cases "length d < spare")
    case True
    then show ?thesis by (simp add: bw_write_all_def bw_accepted_def spare_def)
  next
    case False
    then have st: "bw_write_all d w = (if r1 \<noteq> Ok () then (w1, r1)
        else if bw_capacity w1 \<le> length d
        then (case sink_write_all d (bw_inner w1) of (k, r) \<Rightarrow> (w1\<lparr>bw_inner := k\<rparr>, r))
        else (w1\<lparr>bw_buf := bw_buf w1 @ d\<rparr>, Ok ()))"
      using w1 by (simp add: bw_write_all_def Let_def flip: spare_def)
    have r1: "r1 = Ok ()" using assms st by (auto split: if_splits)
    have acc: "bw_accepted w1 = bw_accepted w"
      using w1 flush_buf_accepted [of w] by (cases "spare < length d") auto
    have empty: "bw_buf w1 = [] \<or> d = []" if "bw_capacity w1 \<le> length d"
    proof (cases "spare < length d")
      case True
      then show ?thesis using flush_buf_ok [of w] w1 r1 by simp
    next
      case no: False
      then have "w1 = w" "length d = spare" using w1 False by simp_all
      then show ?thesis using that by (cases "bw_buf w") (auto simp: spare_def)
    qed
    show ?thesis
    proof (cases "bw_capacity w1 \<le> length d")
      case True
      then show ?thesis
        using st r1 assms acc empty sink_write_ok [of d "bw_inner w1"]
        by (cases "sink_write_all d (bw_inner w1)") (auto simp: bw_accepted_def)
    next
      case False
      then show ?thesis using st r1 acc by (simp add: bw_accepted_def)
    qed
  qed
qed

interpretation bw: byte_writer bw_write_all bw_flush bw_accepted "\<lambda>w. sunk (bw_inner w)" bw_healthy
proof
  fix d w
  show "snd (bw_write_all d w) = Ok () \<Longrightarrow> bw_accepted (fst (bw_write_all d w)) = bw_accepted w @ d"
    by (rule bw_write_accepts)
  show "snd (bw_flush w) = Ok () \<Longrightarrow>
      bw_accepted (fst (bw_flush w)) = bw_accepted w \<and> sunk (bw_inner (fst (bw_flush w))) = bw_accepted w"
    using flush_buf_accepted [of w] flush_buf_ok [of w]
    by (cases "flush_buf w") (auto simp: bw_flush_def and_then_eq_Ok)
  show "bw_healthy w \<Longrightarrow> snd (bw_write_all d w) = Ok () \<and> bw_healthy (fst (bw_write_all d w))"
    using flush_buf_healthy [of w]
    by (auto simp: bw_write_all_def Let_def bw_healthy_def sink_write_reliable reliable_def)
  show "bw_healthy w \<Longrightarrow> snd (bw_flush w) = Ok () \<and> bw_healthy (fst (bw_flush w))"
    using flush_buf_healthy [of w]
    by (auto simp: bw_flush_def bw_healthy_def sink_flush_def reliable_def)
qed

lemma bw_into_inner_healthy:
  "bw_healthy w \<Longrightarrow> \<exists>w'. bw_into_inner w = (w', Ok ((bw_inner w)\<lparr>sunk := bw_accepted w\<rparr>))"
  by (simp add: bw_into_inner_def flush_buf_healthy)

lemma bw_into_inner_ok:
  "snd (bw_into_inner w) = Ok k \<Longrightarrow> sunk k = bw_accepted w"
  using flush_buf_ok [of w] by (cases "flush_buf w") (auto simp: bw_into_inner_def and_then_eq_Ok)

end
