(* ===== verification/Recv_Client.thy ===== *)
theory Recv_Client
  imports Dispatch Writer
begin

text \<open>
  \<open>src/receive/client.rs\<close> and \<open>src/receive/clients.rs\<close>: the workers that write the payloads of a
  transfer to a client.

  A thread takes an announced transfer, acquires the multiplex semaphore, opens the client through the
  callback \<open>client_new\<close>, and writes the payloads of the blocks of the transfer's channel through a
  buffered writer. \<open>client_end\<close> is told whether the transfer was complete. When the worker fails or
  panics the writer is dropped instead, which still writes out its buffer.
  The sections after the definitions show what a client gets: exactly the payloads, and the good news only
  when they have all reached it.
\<close>

section \<open>The client worker\<close>

datatype rclient_event =
    R_Acquire                                \<comment> \<open>\<open>multiplex_control.wait()\<close>\<close>
  | R_Release                                \<comment> \<open>\<open>multiplex_control.signal()\<close>\<close>
  | R_Logged client_id nat "u128 option"     \<comment> \<open>the closing log line of a transfer\<close>
  | ClientEnd client_id sink bool            \<comment> \<open>the callback \<open>client_end\<close>\<close>
  | Dropped client_id sink                   \<comment> \<open>the client closed by the drop of its writer\<close>

record 'h rclient =
  rc_writer :: buf_writer
  rc_transmitted :: nat
  rc_hasher :: "'h option"

text \<open>
  \<open>?\<close> and panics once the client is open: the writer \<open>w\<close> is dropped. For a panic this is the drop of an unwinding build
  (the default profile); the release profile aborts, and there the process ends with the events before this one.
\<close>

definition or_drop ::
  "client_id \<Rightarrow> buf_writer \<Rightarrow> (receive_error, 'a) res \<Rightarrow> ('a \<Rightarrow> (rclient_event, receive_error, 'b) act) \<Rightarrow>
   (rclient_event, receive_error, 'b) act"
where
  "or_drop cid w r k =
     (case r of
        Ok a \<Rightarrow> k a
      | Err e \<Rightarrow> ([Dropped cid (bw_drop w)], Err e)
      | Panic \<Rightarrow> ([Dropped cid (bw_drop w)], Panic)
      | Diverges \<Rightarrow> ([], Diverges))"

definition rclient_hasher :: "receive_config \<Rightarrow> 'h hasher_lib \<Rightarrow> 'h option" where
  "rclient_hasher cfg hl = (if r_hash cfg then Some (h_default hl) else None)"

text \<open>What comes before the loop; \<open>opened\<close> is the answer of the callback \<open>client_new\<close>.\<close>

definition rclient_init ::
  "bool \<Rightarrow> receive_config \<Rightarrow> 'h hasher_lib \<Rightarrow> ('plan, 'cfg) raptorq \<Rightarrow> client_id \<Rightarrow> (receive_error, sink) res \<Rightarrow>
   (rclient_event, receive_error, 'h rclient) act"
where
  "rclient_init chk cfg hl rq cid client_new =
     bind_act (lift client_new) (\<lambda>client.
     or_drop cid (buf_writer_new 0 client) (and_then (max_data_len chk rq) vec_alloc) (\<lambda>n.
     ret \<lparr>rc_writer = buf_writer_new n client, rc_transmitted = 0, rc_hasher = rclient_hasher cfg hl\<rparr>))"

text \<open>The handling of a payload.\<close>

definition rclient_write ::
  "receive_config \<Rightarrow> 'h hasher_lib \<Rightarrow> bytes \<Rightarrow> 'h rclient \<Rightarrow> 'h rclient \<times> (io_error, unit) res"
where
  "rclient_write cfg hl payload s =
     (if payload = [] then (s, Ok ())
      else
        let s = s\<lparr>rc_hasher := map_option (\<lambda>h. h_write hl h payload) (rc_hasher s),
                  rc_transmitted := rc_transmitted s + length payload\<rparr> in
        case bw_write_all payload (rc_writer s) of (w, r) \<Rightarrow>
          if r = Ok () \<and> r_flush cfg
          then (case bw_flush w of (w, r) \<Rightarrow> (s\<lparr>rc_writer := w\<rparr>, r))
          else (s\<lparr>rc_writer := w\<rparr>, r))"

definition into_inner_error :: receive_error where
  "into_inner_error = R_Other ''failed to retrieve client inner''" \<comment> \<open>followed by the I/O error\<close>

definition rclient_end ::
  "client_id \<Rightarrow> buf_writer \<Rightarrow> bool \<Rightarrow> (rclient_event, receive_error, ('h rclient, unit) flow) act"
where
  "rclient_end cid w ok =
     (case bw_into_inner w of (w, r) \<Rightarrow>
        or_drop cid w (map_err (\<lambda>_. into_inner_error) r) (\<lambda>client.
        bind_act (say (ClientEnd cid client ok)) (\<lambda>_. ret (Return ()))))"

text \<open>The \<open>match\<close> on the type of the block.\<close>

definition rclient_close ::
  "'h hasher_lib \<Rightarrow> client_id \<Rightarrow> block_type \<Rightarrow> 'h rclient \<Rightarrow>
   (rclient_event, receive_error, ('h rclient, unit) flow) act"
where
  "rclient_close hl cid block_type s =
     (case block_type of
        Abort \<Rightarrow> rclient_end cid (rc_writer s) False
      | End \<Rightarrow>
          bind_act (say (R_Logged cid (rc_transmitted s) (map_option (h_finish_ext hl) (rc_hasher s)))) (\<lambda>_.
          case bw_flush (rc_writer s) of (w, r) \<Rightarrow>
            or_drop cid w (map_err R_Io r) (\<lambda>_. rclient_end cid w True))
      | _ \<Rightarrow> ret (Continue s))"

fun rclient_step ::
  "receive_config \<Rightarrow> 'h hasher_lib \<Rightarrow> client_id \<Rightarrow> 'h rclient \<Rightarrow> block recv \<Rightarrow>
   (rclient_event, receive_error, ('h rclient, unit) flow) act"
where
  "rclient_step cfg hl cid s (Msg block) =
     or_drop cid (rc_writer s) (map_err R_Protocol (block_block_type block)) (\<lambda>block_type.
     or_drop cid (rc_writer s) (block_payload block) (\<lambda>payload.
     case rclient_write cfg hl payload s of (s, r) \<Rightarrow>
       or_drop cid (rc_writer s) (map_err R_Io r) (\<lambda>_. rclient_close hl cid block_type s)))"
| "rclient_step cfg hl cid s Timeout =
     (case r_abort_timeout cfg of
        None \<Rightarrow> ret (Continue s)       \<comment> \<open>\<open>recv\<close> has no timeout\<close>
      | Some _ \<Rightarrow> or_drop cid (rc_writer s) (Err (R_ReceiveTimeout TimedOut)) ret)"
| "rclient_step cfg hl cid s Disconnected =
     or_drop cid (rc_writer s)
       (Err (case r_abort_timeout cfg of None \<Rightarrow> R_Receive | Some _ \<Rightarrow> R_ReceiveTimeout ChannelGone)) ret"

definition rclient_start ::
  "bool \<Rightarrow> receive_config \<Rightarrow> 'h hasher_lib \<Rightarrow> ('plan, 'cfg) raptorq \<Rightarrow> client_id \<Rightarrow> (receive_error, sink) res \<Rightarrow>
   block recv list \<Rightarrow> (rclient_event, receive_error, ('h rclient, unit) flow) act"
where
  "rclient_start chk cfg hl rq cid client_new inputs =
     bind_act (rclient_init chk cfg hl rq cid client_new) (\<lambda>s. run (rclient_step cfg hl cid) s inputs)"

section \<open>The worker that waits for transfers\<close>

text \<open>
  Its loop state: waiting in \<open>for_clients.recv()\<close>, or inside \<open>client::start\<close>. An input is an announced
  transfer with the answer of \<open>client_new\<close>, or what the channel of the transfer being served answers.
\<close>

datatype 'h clients_pc = RWaiting | RServing client_id "'h rclient"

datatype clients_input = Announced "(client_id \<times> (receive_error, sink) res) recv" | Block_in "block recv"

text \<open>After \<open>client::start\<close>: release the semaphore; an error is only logged.\<close>

definition rclient_done ::
  "(rclient_event, receive_error, 'a) act \<Rightarrow> ('a \<Rightarrow> (rclient_event, receive_error, 'b) act) \<Rightarrow>
   (rclient_event, receive_error, 'b) act \<Rightarrow> (rclient_event, receive_error, 'b) act"
where
  "rclient_done m cont next =
     (case m of (os, r) \<Rightarrow>
       (case r of
          Ok a \<Rightarrow> bind_act (os, Ok ()) (\<lambda>_. cont a)
        | Err e \<Rightarrow> bind_act (os @ [R_Release], Ok ()) (\<lambda>_. next)
        | Panic \<Rightarrow> (os, Panic)
        | Diverges \<Rightarrow> (os, Diverges)))"

fun clients_step ::
  "bool \<Rightarrow> receive_config \<Rightarrow> 'h hasher_lib \<Rightarrow> ('plan, 'cfg) raptorq \<Rightarrow> 'h clients_pc \<Rightarrow> clients_input \<Rightarrow>
   (rclient_event, receive_error, ('h clients_pc, unit) flow) act"
where
  "clients_step chk cfg hl rq RWaiting (Announced (Msg (cid, client_new))) =
     bind_act (say R_Acquire) (\<lambda>_.
     rclient_done (rclient_init chk cfg hl rq cid client_new)
       (\<lambda>s. ret (Continue (RServing cid s))) (ret (Continue RWaiting)))"
| "clients_step chk cfg hl rq RWaiting (Announced Disconnected) = lift (Err R_Receive)"
| "clients_step chk cfg hl rq (RServing cid s) (Block_in m) =
     rclient_done (rclient_step cfg hl cid s m)
       (\<lambda>f. case f of
          Continue s' \<Rightarrow> ret (Continue (RServing cid s'))
        | Return _ \<Rightarrow> bind_act (say R_Release) (\<lambda>_. ret (Continue RWaiting)))
       (ret (Continue RWaiting))"
| "clients_step chk cfg hl rq st input = ret (Continue st)" \<comment> \<open>no such answer in this state\<close>

declare clients_step.simps [simp del] rclient_step.simps [simp del]

section \<open>What is accepted\<close>

text \<open>The payload a message carries, and whether it closes the transfer, and how.\<close>

definition payload_in :: "block recv \<Rightarrow> bytes" where
  "payload_in m = (case m of Msg b \<Rightarrow> (case (block_payload b :: (receive_error, bytes) res) of Ok d \<Rightarrow> d | _ \<Rightarrow> []) | _ \<Rightarrow> [])"

definition closing :: "block recv \<Rightarrow> bool option" where
  "closing m = (case m of
     Msg b \<Rightarrow> (case block_block_type b of Ok Abort \<Rightarrow> Some False | Ok End \<Rightarrow> Some True | _ \<Rightarrow> None)
   | _ \<Rightarrow> None)"

definition ended :: "rclient_event list \<Rightarrow> (client_id \<times> sink \<times> bool) list" where
  "ended evs = concat (map (\<lambda>e. case e of ClientEnd c k ok \<Rightarrow> [(c, k, ok)] | _ \<Rightarrow> []) evs)"

lemma ended_simps [simp]:
  "ended [] = []"
  "ended (ClientEnd c k ok # evs) = (c, k, ok) # ended evs"
  "ended (R_Acquire # evs) = ended evs"
  "ended (R_Release # evs) = ended evs"
  "ended (R_Logged c n h # evs) = ended evs"
  "ended (Dropped c k # evs) = ended evs"
  "ended (xs @ ys) = ended xs @ ended ys"
  by (simp_all add: ended_def)

lemma ended_member: "(c, k, ok) \<in> set (ended evs) \<longleftrightarrow> ClientEnd c k ok \<in> set evs"
  by (force simp: ended_def split: rclient_event.splits)

abbreviation accepted_by :: "'h rclient \<Rightarrow> bytes" where
  "accepted_by s \<equiv> bw_accepted (rc_writer s)"

text \<open>The write is one \<open>put\<close> of the buffered writer's contract.\<close>

lemma rclient_write_put:
  assumes "d \<noteq> []"
  shows "rclient_write cfg hl d s =
    (s\<lparr>rc_hasher := map_option (\<lambda>h. h_write hl h d) (rc_hasher s),
       rc_transmitted := rc_transmitted s + length d,
       rc_writer := fst (bw.put (r_flush cfg) d (rc_writer s))\<rparr>, snd (bw.put (r_flush cfg) d (rc_writer s)))"
  using assms
  by (auto simp: rclient_write_def bw.put_def Let_def split: prod.splits)

lemma rclient_write_accepts:
  "snd (rclient_write cfg hl d s) = Ok () \<Longrightarrow> accepted_by (fst (rclient_write cfg hl d s)) = accepted_by s @ d"
  using bw.put_accepts [of "r_flush cfg" d "rc_writer s"]
  by (cases "d = []") (simp_all add: rclient_write_put, simp add: rclient_write_def)

lemma rclient_write_healthy:
  assumes "bw_healthy (rc_writer s)"
  shows "\<exists>w. rclient_write cfg hl d s =
      (s\<lparr>rc_hasher := map_option (\<lambda>h. if d = [] then h else h_write hl h d) (rc_hasher s),
         rc_transmitted := rc_transmitted s + length d, rc_writer := w\<rparr>, Ok ())
    \<and> bw_healthy w \<and> bw_accepted w = accepted_by s @ d"
proof (cases "d = []")
  case True
  with assms show ?thesis
    by (intro exI [of _ "rc_writer s"]) (simp add: rclient_write_def option.map_ident)
next
  case False
  from bw.put_healthy [OF assms, of "r_flush cfg" d] obtain w where
    "bw.put (r_flush cfg) d (rc_writer s) = (w, Ok ())" "bw_healthy w" "bw_accepted w = accepted_by s @ d"
    by blast
  with False show ?thesis by (intro exI [of _ w]) (simp add: rclient_write_put)
qed

text \<open>How a step can end.\<close>

lemma or_drop_ended: "(\<And>a. r = Ok a \<Longrightarrow> ended (fst (k a)) = []) \<Longrightarrow> ended (fst (or_drop c w r k)) = []"
  by (cases r) (simp_all add: or_drop_def)

lemma or_drop_Ok [simp]: "or_drop c w (Ok a) k = k a"
  by (simp add: or_drop_def)

lemma or_drop_fails:
  "\<forall>a. r \<noteq> Ok a \<Longrightarrow> ended (fst (or_drop c w r k)) = [] \<and> (\<forall>a. snd (or_drop c w r k) \<noteq> Ok a)"
  by (cases r) (auto simp: or_drop_def)

lemma map_err_Ok [simp]: "map_err f r = Ok a \<longleftrightarrow> r = Ok a"
  by (cases r) simp_all

lemma rclient_end_sound:
  assumes "rclient_end cid w ok = (evs, r)"
  shows "(\<exists>k. ended evs = [(cid, k, ok)] \<and> sunk k = bw_accepted w \<and> r = Ok (Return ()))
    \<or> ended evs = [] \<and> (\<forall>f. r \<noteq> Ok f)"
proof -
  obtain w' r' where w': "bw_into_inner w = (w', r')" by (cases "bw_into_inner w")
  show ?thesis
  proof (cases "\<exists>k. r' = Ok k")
    case True
    then obtain k where k: "r' = Ok k" by blast
    then have "sunk k = bw_accepted w" using bw_into_inner_ok [of w k] w' by simp
    then show ?thesis using assms w' k by (auto simp: rclient_end_def say_def ret_def)
  next
    case False
    then show ?thesis
      using assms w' or_drop_fails [of "map_err (\<lambda>_. into_inner_error) r'"]
      by (metis (no_types, lifting) rclient_end_def case_prod_conv fst_conv map_err_Ok snd_conv)
  qed
qed

lemma rclient_close_sound:
  fixes s :: "'h rclient"
  assumes "rclient_close hl cid t s = (evs, r)"
  shows "(t \<noteq> Abort \<and> t \<noteq> End \<and> r = Ok (Continue s) \<and> evs = [])
    \<or> (\<exists>k ok. (t = (if ok then End else Abort)) \<and> r = Ok (Return ()) \<and> ended evs = [(cid, k, ok)] \<and> sunk k = accepted_by s)
    \<or> ended evs = [] \<and> (\<forall>f. r \<noteq> Ok f)"
proof (cases t)
  case Abort
  then show ?thesis
    using assms rclient_end_sound [of cid "rc_writer s" False evs r] by (auto simp: rclient_close_def)
next
  case End
  obtain w r1 where w: "bw_flush (rc_writer s) = (w, r1)" by (cases "bw_flush (rc_writer s)")
  obtain e2 and r2 :: "(receive_error, ('h rclient, unit) flow) res"
    where e2: "or_drop cid w (map_err R_Io r1) (\<lambda>_. rclient_end cid w True) = (e2, r2)"
    by (metis prod.exhaust)
  then have evs: "ended evs = ended e2" "r = r2"
    using assms w End by (auto simp: rclient_close_def say_def)
  show ?thesis
  proof (cases "r1 = Ok ()")
    case True
    then have "bw_accepted w = accepted_by s" using bw.flush_lands [of "rc_writer s"] w by simp
    then show ?thesis using rclient_end_sound [of cid w True e2 r2] e2 evs True End by auto
  next
    case False
    then have "ended (fst (e2, r2)) = [] \<and> (\<forall>f. snd (e2, r2) \<noteq> Ok f)"
      unfolding e2 [symmetric] by (intro or_drop_fails) auto
    then show ?thesis using evs by simp
  qed
qed (use assms in \<open>auto simp: rclient_close_def ret_def\<close>)

definition step_sound ::
  "client_id \<Rightarrow> 'h rclient \<Rightarrow> block recv \<Rightarrow> rclient_event list \<Rightarrow> (receive_error, ('h rclient, unit) flow) res \<Rightarrow> bool"
where
  "step_sound cid s m evs r \<longleftrightarrow>
     (\<exists>s'. r = Ok (Continue s') \<and> ended evs = [] \<and> accepted_by s' = accepted_by s @ payload_in m \<and> closing m = None)
   \<or> (\<exists>ok k. r = Ok (Return ()) \<and> closing m = Some ok \<and> ended evs = [(cid, k, ok)]
        \<and> sunk k = accepted_by s @ payload_in m)
   \<or> ended evs = [] \<and> (\<forall>f. r \<noteq> Ok f)"

lemma step_sound_fails: "\<forall>a. r \<noteq> Ok a \<Longrightarrow> step_sound cid s m (fst (or_drop c w r k)) (snd (or_drop c w r k))"
  using or_drop_fails [of r c w k] by (simp add: step_sound_def)

lemma rclient_step_sound: "step_sound cid s m (fst (rclient_step cfg hl cid s m)) (snd (rclient_step cfg hl cid s m))"
proof (cases m)
  case (Msg b)
  consider (bad_type) "\<forall>t. block_block_type b \<noteq> Ok t"
    | (bad_payload) t where "block_block_type b = Ok t" "\<forall>d. (block_payload b :: (receive_error, bytes) res) \<noteq> Ok d"
    | (good) t d where "block_block_type b = Ok t" "(block_payload b :: (receive_error, bytes) res) = Ok d"
    by blast
  then show ?thesis
  proof cases
    case bad_type
    then show ?thesis unfolding Msg rclient_step.simps by (intro step_sound_fails) simp
  next
    case bad_payload
    then show ?thesis
      unfolding Msg rclient_step.simps bad_payload(1) map_err.simps or_drop_Ok
      by (intro step_sound_fails)
  next
    case good
    obtain s1 r1 where s1: "rclient_write cfg hl d s = (s1, r1)" by (cases "rclient_write cfg hl d s")
    show ?thesis
    proof (cases "r1 = Ok ()")
      case True
      then have "accepted_by s1 = accepted_by s @ d"
        using rclient_write_accepts [of cfg hl d s] s1 by simp
      then show ?thesis
        using rclient_close_sound [of hl cid t s1] good s1 True
        by (cases "rclient_close hl cid t s1")
          (auto simp: Msg rclient_step.simps step_sound_def payload_in_def closing_def
            split: if_splits block_type.splits)
    next
      case False
      then show ?thesis
        unfolding Msg rclient_step.simps good map_err.simps or_drop_Ok s1 prod.case
        by (intro step_sound_fails) auto
    qed
  qed
qed (simp_all add: rclient_step.simps step_sound_def payload_in_def closing_def ret_def or_drop_def
      split: option.splits)

text \<open>A whole run.\<close>

lemma rclient_run_sound:
  assumes "run (rclient_step cfg hl cid) s ms = (evs, r)" and "ended evs \<noteq> []"
  shows "\<exists>ms1 m ms2 ok k. ms = ms1 @ m # ms2 \<and> (\<forall>m \<in> set ms1. closing m = None) \<and> closing m = Some ok
    \<and> ended evs = [(cid, k, ok)] \<and> sunk k = accepted_by s @ concat (map payload_in (ms1 @ [m])) \<and> r = Ok (Return ())"
  using assms
proof (induction ms arbitrary: s evs)
  case Nil
  then show ?case by (simp add: ret_def)
next
  case (Cons m ms)
  obtain e1 r1 where st: "rclient_step cfg hl cid s m = (e1, r1)" by (cases "rclient_step cfg hl cid s m")
  from rclient_step_sound [of cid s m cfg hl] have snd: "step_sound cid s m e1 r1" by (simp add: st)
  then consider (go) s' where "r1 = Ok (Continue s')" "ended e1 = []" "closing m = None"
      "accepted_by s' = accepted_by s @ payload_in m"
    | (stop) ok k where "r1 = Ok (Return ())" "closing m = Some ok" "ended e1 = [(cid, k, ok)]"
      "sunk k = accepted_by s @ payload_in m"
    | (fail) "ended e1 = []" "\<forall>f. r1 \<noteq> Ok f"
    unfolding step_sound_def by blast
  then show ?case
  proof cases
    case go
    obtain e2 r2 where rn: "run (rclient_step cfg hl cid) s' ms = (e2, r2)"
      by (cases "run (rclient_step cfg hl cid) s' ms")
    with Cons.prems st go have evs: "evs = e1 @ e2" "r = r2" by auto
    then have "ended e2 \<noteq> []" using go Cons.prems(2) by simp
    from Cons.IH [OF _ this] rn evs obtain ms1 m' ms2 ok k where
      ih: "ms = ms1 @ m' # ms2" "\<forall>m \<in> set ms1. closing m = None" "closing m' = Some ok"
        "ended e2 = [(cid, k, ok)]" "sunk k = accepted_by s' @ concat (map payload_in (ms1 @ [m']))" "r = Ok (Return ())"
      by blast
    show ?thesis
      by (intro exI [of _ "m # ms1"] exI [of _ m'] exI [of _ ms2] exI [of _ ok] exI [of _ k])
        (use ih go evs in simp)
  next
    case stop
    with Cons.prems st have "evs = e1" "r = Ok (Return ())" by (auto simp: ret_def)
    then show ?thesis
      by (intro exI [of _ "[]"] exI [of _ m] exI [of _ ms] exI [of _ ok] exI [of _ k]) (use stop in simp)
  next
    case fail
    with Cons.prems st show ?thesis by (cases r1) auto
  qed
qed

text \<open>A client that takes everything.\<close>

definition payloads_absorbed :: "'h hasher_lib \<Rightarrow> bytes list \<Rightarrow> 'h option \<Rightarrow> 'h option" where
  "payloads_absorbed hl ds h = map_option (\<lambda>h. foldl (h_write hl) h (filter (\<lambda>d. d \<noteq> []) ds)) h"

lemma payloads_absorbed_Cons:
  "payloads_absorbed hl (d # ds) h =
     payloads_absorbed hl ds (map_option (\<lambda>h. if d = [] then h else h_write hl h d) h)"
  by (cases h) (simp_all add: payloads_absorbed_def)

lemma rclient_run_healthy:
  assumes "bw_healthy (rc_writer s)"
    and "\<forall>(t, d) \<in> set tds. t \<noteq> Abort \<and> t \<noteq> End \<and> length d < 2 ^ 32"
  shows "\<exists>w. run (rclient_step cfg hl cid) s (map (\<lambda>(t, d). Msg (rq_block rq t cid d)) tds) =
      ([], Ok (Continue \<lparr>rc_writer = w, rc_transmitted = rc_transmitted s + length (concat (map snd tds)),
          rc_hasher = payloads_absorbed hl (map snd tds) (rc_hasher s)\<rparr>))
    \<and> bw_healthy w \<and> bw_accepted w = accepted_by s @ concat (map snd tds)"
  using assms
proof (induction tds arbitrary: s)
  case Nil
  then show ?case
    by (intro exI [of _ "rc_writer s"]) (cases s, simp add: ret_def payloads_absorbed_def option.map_ident)
next
  case (Cons td tds)
  obtain t d where td: "td = (t, d)" by (cases td)
  with Cons.prems(2) have t: "t \<noteq> Abort" "t \<noteq> End" "length d < 2 ^ 32" by auto
  from rclient_write_healthy [OF Cons.prems(1), of cfg hl d] obtain w1 where
    w1: "rclient_write cfg hl d s =
      (s\<lparr>rc_hasher := map_option (\<lambda>h. if d = [] then h else h_write hl h d) (rc_hasher s),
         rc_transmitted := rc_transmitted s + length d, rc_writer := w1\<rparr>, Ok ())"
      "bw_healthy w1" "bw_accepted w1 = accepted_by s @ d" by blast
  define s1 where "s1 = s\<lparr>rc_hasher := map_option (\<lambda>h. if d = [] then h else h_write hl h d) (rc_hasher s),
         rc_transmitted := rc_transmitted s + length d, rc_writer := w1\<rparr>"
  have "rclient_step cfg hl cid s (Msg (rq_block rq t cid d)) = ([], Ok (Continue s1))"
    using t w1(1) by (cases t) (simp_all add: rclient_step.simps rq_block_def rclient_close_def ret_def s1_def)
  moreover from Cons.IH [of s1] w1 Cons.prems(2) td obtain w where
    "run (rclient_step cfg hl cid) s1 (map (\<lambda>(t, d). Msg (rq_block rq t cid d)) tds) =
      ([], Ok (Continue \<lparr>rc_writer = w, rc_transmitted = rc_transmitted s1 + length (concat (map snd tds)),
          rc_hasher = payloads_absorbed hl (map snd tds) (rc_hasher s1)\<rparr>))"
    "bw_healthy w" "bw_accepted w = accepted_by s1 @ concat (map snd tds)"
    by (auto simp: s1_def)
  ultimately show ?case
    using w1(3) by (intro exI [of _ w]) (simp add: td s1_def payloads_absorbed_Cons)
qed

lemma rclient_end_healthy:
  assumes "bw_healthy w"
  shows "rclient_end cid w ok = ([ClientEnd cid (open_sink\<lparr>sunk := bw_accepted w\<rparr>) ok], Ok (Return ()))"
proof -
  have "(bw_inner w)\<lparr>sunk := bw_accepted w\<rparr> = open_sink\<lparr>sunk := bw_accepted w\<rparr>"
    using assms by (cases "bw_inner w") (simp add: bw_healthy_def reliable_def open_sink_def)
  then show ?thesis
    using bw_into_inner_healthy [OF assms] by (auto simp: rclient_end_def say_def ret_def)
qed

lemma rclient_close_healthy:
  assumes "bw_healthy (rc_writer s)"
  shows "rclient_close hl cid (if ok then End else Abort) s =
     ((if ok then [R_Logged cid (rc_transmitted s) (map_option (h_finish_ext hl) (rc_hasher s))] else [])
      @ [ClientEnd cid (open_sink\<lparr>sunk := accepted_by s\<rparr>) ok], Ok (Return ()))"
proof -
  from bw.write_flush_healthy(2) [OF assms] obtain w where
    "bw_flush (rc_writer s) = (w, Ok ())" "bw_healthy w" "bw_accepted w = accepted_by s" by blast
  then show ?thesis
    using assms by (simp add: rclient_close_def rclient_end_healthy say_def)
qed

lemma rclient_last_healthy:
  assumes "bw_healthy (rc_writer s)" and "length d < 2 ^ 32"
  shows "rclient_step cfg hl cid s (Msg (rq_block rq (if ok then End else Abort) cid d)) =
     ((if ok then [R_Logged cid (rc_transmitted s + length d)
          (map_option (h_finish_ext hl) (payloads_absorbed hl [d] (rc_hasher s)))] else [])
      @ [ClientEnd cid (open_sink\<lparr>sunk := accepted_by s @ d\<rparr>) ok], Ok (Return ()))"
proof -
  from rclient_write_healthy [OF assms(1), of cfg hl d] obtain w1 where
    w1: "rclient_write cfg hl d s =
      (s\<lparr>rc_hasher := map_option (\<lambda>h. if d = [] then h else h_write hl h d) (rc_hasher s),
         rc_transmitted := rc_transmitted s + length d, rc_writer := w1\<rparr>, Ok ())"
      "bw_healthy w1" "bw_accepted w1 = accepted_by s @ d" by blast
  then show ?thesis
    using assms(2) rclient_close_healthy [of "s\<lparr>rc_hasher := map_option (\<lambda>h. if d = [] then h else h_write hl h d) (rc_hasher s),
         rc_transmitted := rc_transmitted s + length d, rc_writer := w1\<rparr>" hl cid ok]
    by (simp add: rclient_step.simps rq_block_def payloads_absorbed_Cons)
      (simp add: payloads_absorbed_def option.map_comp comp_def)
qed

text \<open>Opening the client, and the thread around a transfer.\<close>

lemma rclient_init_ok:
  assumes "9 \<le> unat (transfer_length rq)"
  shows "rclient_init chk cfg hl rq cid (Ok k) =
    ([], Ok \<lparr>rc_writer = buf_writer_new (unat (transfer_length rq) - 9) k, rc_transmitted = 0,
        rc_hasher = rclient_hasher cfg hl\<rparr>)"
proof -
  obtain n where "max_data_len chk rq = (Ok n :: (receive_error, usize) res)"
      "unat n = unat (transfer_length rq) - 9"
    using max_data_len_exact [OF assms, of chk] by blast
  moreover have "unat (transfer_length rq) - 9 < 2 ^ 63"
    using unat_u32_less [of "transfer_length rq"] by simp
  ultimately show ?thesis
    by (simp add: rclient_init_def act_simps ret_def vec_alloc_def)
qed

lemma buf_writer_new_accepted [simp]:
  "bw_accepted (buf_writer_new n k) = sunk k" "bw_healthy (buf_writer_new n k) = reliable k"
  by (simp_all add: buf_writer_new_def bw_accepted_def bw_healthy_def)

text \<open>The events of a complete transfer.\<close>

definition transfer_events ::
  "receive_config \<Rightarrow> 'h hasher_lib \<Rightarrow> client_id \<Rightarrow> sink \<Rightarrow> bytes list \<Rightarrow> bool \<Rightarrow> rclient_event list"
where
  "transfer_events cfg hl cid k ds ok =
     (if ok then [R_Logged cid (length (concat ds))
         (map_option (h_finish_ext hl) (payloads_absorbed hl ds (rclient_hasher cfg hl)))] else [])
     @ [ClientEnd cid (open_sink\<lparr>sunk := sunk k @ concat ds\<rparr>) ok]"

lemma rclient_transfer:
  assumes "9 \<le> unat (transfer_length rq)" and "reliable k"
    and "\<forall>(t, d) \<in> set tds. t \<noteq> Abort \<and> t \<noteq> End \<and> length d < 2 ^ 32" and "length d < 2 ^ 32"
  shows "\<exists>s. rclient_init chk cfg hl rq cid (Ok k) = ([], Ok s) \<and>
    run (rclient_step cfg hl cid) s
      (map (\<lambda>(t, d). Msg (rq_block rq t cid d)) (tds @ [(if ok then End else Abort, d)]))
    = (transfer_events cfg hl cid k (map snd tds @ [d]) ok, Ok (Return ()))"
proof -
  define s where "s = \<lparr>rc_writer = buf_writer_new (unat (transfer_length rq) - 9) k, rc_transmitted = 0,
        rc_hasher = rclient_hasher cfg hl\<rparr>"
  from rclient_run_healthy [of s tds cfg hl cid rq] assms(2,3) obtain w where
    rn: "run (rclient_step cfg hl cid) s (map (\<lambda>(t, d). Msg (rq_block rq t cid d)) tds) =
      ([], Ok (Continue \<lparr>rc_writer = w, rc_transmitted = length (concat (map snd tds)),
          rc_hasher = payloads_absorbed hl (map snd tds) (rclient_hasher cfg hl)\<rparr>))"
    and w: "bw_healthy w" "bw_accepted w = sunk k @ concat (map snd tds)"
    by (auto simp: s_def)
  have "payloads_absorbed hl [d] (payloads_absorbed hl ds h) = payloads_absorbed hl (ds @ [d]) h" for ds h
    by (cases h) (simp_all add: payloads_absorbed_def)
  then show ?thesis
    using rclient_init_ok [OF assms(1)] rclient_last_healthy [of "\<lparr>rc_writer = w,
        rc_transmitted = length (concat (map snd tds)),
        rc_hasher = payloads_absorbed hl (map snd tds) (rclient_hasher cfg hl)\<rparr>" d cfg hl cid rq ok] w assms(4)
    by (intro exI [of _ s])
      (simp add: run_append [OF rn] ret_def transfer_events_def, simp add: s_def)
qed

section \<open>The thread around a transfer\<close>

definition clients_served ::
  "client_id \<Rightarrow> (rclient_event, receive_error, ('h rclient, unit) flow) act \<Rightarrow>
   (rclient_event, receive_error, ('h clients_pc, unit) flow) act"
where
  "clients_served cid m = (case m of (os, r) \<Rightarrow> (case r of
       Ok (Continue s) \<Rightarrow> (os, Ok (Continue (RServing cid s)))
     | Ok (Return _) \<Rightarrow> (os @ [R_Release], Ok (Continue RWaiting))
     | Err e \<Rightarrow> (os @ [R_Release], Ok (Continue RWaiting))
     | Panic \<Rightarrow> (os, Panic)
     | Diverges \<Rightarrow> (os, Diverges)))"

lemma clients_waiting:
  "run (clients_step chk cfg hl rq) RWaiting (map Block_in ms) = ([], Ok (Continue RWaiting))"
  by (induction ms) (auto simp: clients_step.simps ret_def)

lemma clients_serving:
  "run (clients_step chk cfg hl rq) (RServing cid s) (map Block_in ms)
     = clients_served cid (run (rclient_step cfg hl cid) s ms)"
proof (induction ms arbitrary: s)
  case Nil
  then show ?case by (simp add: clients_served_def ret_def)
next
  case (Cons m ms)
  obtain os r where st: "rclient_step cfg hl cid s m = (os, r)" by (cases "rclient_step cfg hl cid s m")
  show ?case
  proof (cases r)
    case (Ok f)
    then show ?thesis
    proof (cases f)
      case (Continue s')
      with Ok st show ?thesis
        by (cases "run (rclient_step cfg hl cid) s' ms")
          (simp add: clients_step.simps rclient_done_def Cons.IH clients_served_def ret_def
            split: res.splits flow.splits)
    next
      case (Return u)
      with Ok st show ?thesis
        by (simp add: clients_step.simps rclient_done_def say_def ret_def clients_served_def clients_waiting)
    qed
  qed (use st in \<open>simp_all add: clients_step.simps rclient_done_def clients_served_def clients_waiting ret_def\<close>)
qed

lemma clients_run_transfer:
  assumes "rclient_init chk cfg hl rq cid (Ok k) = ([], Ok s)"
  shows "run (clients_step chk cfg hl rq) RWaiting (Announced (Msg (cid, Ok k)) # map Block_in ms)
    = (let out = clients_served cid (run (rclient_step cfg hl cid) s ms) in (R_Acquire # fst out, snd out))"
  using assms
  by (simp add: clients_step.simps rclient_done_def say_def ret_def clients_serving Let_def)

definition rpermits :: "rclient_event list \<Rightarrow> int" where
  "rpermits os = int (count_list os R_Acquire) - int (count_list os R_Release)"

lemma rpermits_simps [simp]:
  "rpermits [] = 0"
  "rpermits (R_Acquire # os) = rpermits os + 1"
  "rpermits (R_Release # os) = rpermits os - 1"
  "rpermits (R_Logged c n h # os) = rpermits os"
  "rpermits (ClientEnd c k ok # os) = rpermits os"
  "rpermits (Dropped c k # os) = rpermits os"
  "rpermits (os @ os') = rpermits os + rpermits os'"
  by (simp_all add: rpermits_def)

fun rheld :: "'h clients_pc \<Rightarrow> int" where
  "rheld RWaiting = 0"
| "rheld (RServing cid s) = 1"

lemma or_drop_permits: "(\<And>a. r = Ok a \<Longrightarrow> rpermits (fst (k a)) = 0) \<Longrightarrow> rpermits (fst (or_drop c w r k)) = 0"
  by (cases r) (simp_all add: or_drop_def)

lemma rclient_end_permits: "rpermits (fst (rclient_end cid w ok)) = 0"
  by (auto simp: rclient_end_def say_def ret_def split: prod.split intro!: or_drop_permits)

lemma rclient_close_permits: "rpermits (fst (rclient_close hl cid t s)) = 0"
  by (auto simp: rclient_close_def say_def ret_def rclient_end_permits split: prod.split block_type.split
      intro!: or_drop_permits)

lemma rclient_step_permits: "rpermits (fst (rclient_step cfg hl cid s m)) = 0"
  by (cases m)
    (auto simp: rclient_step.simps ret_def rclient_close_permits split: prod.split option.split
      intro!: or_drop_permits)

lemma rclient_init_permits: "rpermits (fst (rclient_init chk cfg hl rq cid c)) = 0"
  by (cases c) (auto simp: rclient_init_def lift_def ret_def intro!: or_drop_permits)

lemma rclient_done_permits:
  assumes "rpermits (fst m) = 0"
    and "\<And>a. snd (cont a) = Ok (Continue st) \<Longrightarrow> rpermits (fst (cont a)) = rheld st - 1"
    and "next = ret (Continue RWaiting)"
    and "snd (rclient_done m cont next) = Ok (Continue st)"
  shows "rpermits (fst (rclient_done m cont next)) = rheld st - 1"
  using assms by (cases m; cases "snd m") (auto simp: rclient_done_def ret_def)

lemma clients_step_permits:
  assumes "snd (clients_step chk cfg hl rq st i) = Ok (Continue st')"
  shows "rpermits (fst (clients_step chk cfg hl rq st i)) = rheld st' - rheld st"
  using assms
proof (induction chk cfg hl rq st i rule: clients_step.induct)
  case (1 chk cfg hl rq cid c)
  then have "snd (rclient_done (rclient_init chk cfg hl rq cid c)
      (\<lambda>s. ret (Continue (RServing cid s))) (ret (Continue RWaiting)))
      = (Ok (Continue st') :: (_, (_, unit) flow) res)"
    by (simp add: clients_step.simps say_def)
  then have "rpermits (fst (rclient_done (rclient_init chk cfg hl rq cid c)
      (\<lambda>s. ret (Continue (RServing cid s)))
      (ret (Continue RWaiting)) :: (_, _, (_, unit) flow) act)) = rheld st' - 1"
    by (intro rclient_done_permits [OF rclient_init_permits _ refl]) (auto simp: ret_def)
  then show ?case by (simp add: clients_step.simps say_def)
next
  case (3 chk cfg hl rq cid s m)
  show ?case
    unfolding clients_step.simps
    by (subst rclient_done_permits [OF rclient_step_permits _ refl 3 [unfolded clients_step.simps]])
      (auto simp: say_def ret_def split: flow.splits)
qed (auto simp: clients_step.simps ret_def lift_def)

interpretation clients_permits: permit_holder "clients_step chk cfg hl rq" rpermits rheld for chk cfg hl rq
  by unfold_locales (auto simp: clients_step_permits)

lemma clients_transfer:
  assumes "9 \<le> unat (transfer_length rq)" and "reliable k"
    and "\<forall>d \<in> set (chunks @ [rest]). length d < 2 ^ 32"
  shows "run (clients_step chk cfg hl rq) RWaiting
      (Announced (Msg (cid, Ok k)) # map (\<lambda>b. Block_in (Msg b))
        (rq_block rq Start cid [] # map (rq_block rq Data cid) chunks
          @ [rq_block rq (if ok then End else Abort) cid rest]))
    = (R_Acquire # transfer_events cfg hl cid k (chunks @ [rest]) ok @ [R_Release], Ok (Continue RWaiting))"
proof -
  let ?tds = "(Start, []) # map (Pair Data) chunks"
  have "transfer_events cfg hl cid k ([] # ds) ok = transfer_events cfg hl cid k ds ok" for ds
    by (cases "rclient_hasher cfg hl") (simp_all add: transfer_events_def payloads_absorbed_def)
  moreover from rclient_transfer [OF assms(1,2), of ?tds rest chk cfg hl cid ok] assms(3) obtain s where
      "rclient_init chk cfg hl rq cid (Ok k) = ([], Ok s)"
      "run (rclient_step cfg hl cid) s (map (\<lambda>(t, d). Msg (rq_block rq t cid d)) (?tds @ [(if ok then End else Abort, rest)]))
       = (transfer_events cfg hl cid k (map snd ?tds @ [rest]) ok, Ok (Return ()))"
    by auto
  ultimately show ?thesis
    using clients_run_transfer [of chk cfg hl rq cid k s "map (\<lambda>(t, d). Msg (rq_block rq t cid d))
        (?tds @ [(if ok then End else Abort, rest)])"]
    by (simp add: clients_served_def Let_def comp_def)
qed

section \<open>Properties\<close>

text \<open>Property C26. A transfer that reaches a client thread block by block is written to a client that takes
  everything: the client is opened under the semaphore, gets exactly the payloads in their order, and is closed by
  \<open>client_end\<close>, with \<open>true\<close> after an \<open>End\<close> block and \<open>false\<close> after an \<open>Abort\<close> block. The closing log line of a
  complete transfer has the number of bytes and the hash of the payloads.\<close>

theorem receiver_writes_transfer:
  assumes "9 \<le> unat (transfer_length rq)" and "reliable k"
    and "\<forall>d \<in> set (chunks @ [rest]). length d < 2 ^ 32"
  shows "run (clients_step chk cfg hl rq) RWaiting
      (Announced (Msg (cid, Ok k)) # map (\<lambda>b. Block_in (Msg b))
        (rq_block rq Start cid [] # map (rq_block rq Data cid) chunks
          @ [rq_block rq (if ok then End else Abort) cid rest]))
    = (R_Acquire # transfer_events cfg hl cid k (chunks @ [rest]) ok @ [R_Release], Ok (Continue RWaiting))"
  using assms by (rule clients_transfer)

theorem receiver_writes_transfer_witness:
  "fst (run (clients_step True sample_receive_config sample_hasher small_rq) RWaiting
      (Announced (Msg (7, Ok open_sink)) # map (\<lambda>b. Block_in (Msg b))
        [rq_block small_rq Start 7 [], rq_block small_rq Data 7 [1, 2], rq_block small_rq End 7 [3]]))
    = [R_Acquire, R_Logged 7 3 (Some 1026), ClientEnd 7 (open_sink\<lparr>sunk := [1, 2, 3]\<rparr>) True, R_Release]"
  using receiver_writes_transfer [of small_rq open_sink "[[1, 2]]" "[3]" True sample_receive_config sample_hasher 7 True]
  by (simp add: small_rq_def reliable_def open_sink_def transfer_events_def payloads_absorbed_def
      rclient_hasher_def sample_receive_config_def sample_hasher_def)

lemma rclient_start_sound:
  assumes "rclient_start chk cfg hl rq cid (Ok k) ms = (evs, r)" and "ClientEnd c k' ok \<in> set evs"
  shows "c = cid \<and> r = Ok (Return ()) \<and> ended evs = [(cid, k', ok)] \<and>
    (\<exists>before b after. ms = before @ Msg b # after
      \<and> block_block_type b = Ok (if ok then End else Abort)
      \<and> sunk k' = sunk k @ concat (map payload_in (before @ [Msg b])))"
proof -
  have mem: "(c, k', ok) \<in> set (ended evs)" using assms(2) by (simp add: ended_member)
  obtain e1 r1 where e1: "rclient_init chk cfg hl rq cid (Ok k) = (e1, r1)"
    by (cases "rclient_init chk cfg hl rq cid (Ok k)")
  have e1s: "ended e1 = []" "\<forall>s. r1 = Ok s \<longrightarrow> e1 = [] \<and> accepted_by s = sunk k"
    using e1 by (auto simp: rclient_init_def lift_def ret_def or_drop_def split: res.splits)
  then obtain s where s: "r1 = Ok s"
    using assms(1) mem e1 by (cases r1) (auto simp: rclient_start_def)
  then have rn: "run (rclient_step cfg hl cid) s ms = (evs, r)" and acc: "accepted_by s = sunk k"
    using assms(1) e1 e1s by (auto simp: rclient_start_def)
  from mem have "ended evs \<noteq> []" by auto
  from rclient_run_sound [OF rn this] obtain ms1 m ms2 ok' k2 where
    "ms = ms1 @ m # ms2" "closing m = Some ok'" "ended evs = [(cid, k2, ok')]"
    "sunk k2 = sunk k @ concat (map payload_in (ms1 @ [m]))" "r = Ok (Return ())"
    unfolding acc by blast
  moreover from this mem have "c = cid" "k' = k2" "ok = ok'" by simp_all
  moreover from \<open>closing m = Some ok'\<close> obtain b where
    "m = Msg b" "block_block_type b = Ok (if ok' then End else Abort)"
    by (cases m) (auto simp: closing_def split: res.splits block_type.splits)
  ultimately show ?thesis by blast
qed

text \<open>Property C27. \<open>client_end\<close> tells the truth, for any client, failing ones too, and any blocks, corrupt ones
  too: it is called at most once, as the last thing that happens, with \<open>true\<close> only after an \<open>End\<close> block and \<open>false\<close>
  only after an \<open>Abort\<close> block, and by then the payloads of all blocks up to this one have reached the client.\<close>

theorem client_end_truthful:
  assumes "rclient_start chk cfg hl rq cid (Ok k) ms = (evs, r)" and "ClientEnd c k' ok \<in> set evs"
  shows "c = cid \<and> r = Ok (Return ()) \<and> ended evs = [(cid, k', ok)] \<and>
    (\<exists>before b after. ms = before @ Msg b # after
      \<and> block_block_type b = Ok (if ok then End else Abort)
      \<and> sunk k' = sunk k @ concat (map payload_in (before @ [Msg b])))"
  by (rule rclient_start_sound [OF assms])

theorem client_end_truthful_witness:
  "\<exists>evs r. rclient_start True sample_receive_config sample_hasher small_rq 7 (Ok open_sink)
      [Msg (rq_block small_rq Start 7 []), Msg (rq_block small_rq End 7 [3])] = (evs, r)
    \<and> ended evs = [(7, open_sink\<lparr>sunk := [3]\<rparr>, True)]"
proof -
  from rclient_transfer [of small_rq open_sink "[(Start, [])]" "[3]" True sample_receive_config sample_hasher 7 True]
  obtain s where "rclient_init True sample_receive_config sample_hasher small_rq 7 (Ok open_sink) = ([], Ok s)"
      "run (rclient_step sample_receive_config sample_hasher 7) s
        [Msg (rq_block small_rq Start 7 []), Msg (rq_block small_rq End 7 [3])]
       = (transfer_events sample_receive_config sample_hasher 7 open_sink [[], [3]] True, Ok (Return ()))"
    by (auto simp: small_rq_def reliable_def open_sink_def)
  then have st: "rclient_start True sample_receive_config sample_hasher small_rq 7 (Ok open_sink)
      [Msg (rq_block small_rq Start 7 []), Msg (rq_block small_rq End 7 [3])]
      = (transfer_events sample_receive_config sample_hasher 7 open_sink [[], [3]] True, Ok (Return ()))"
    by (simp add: rclient_start_def)
  have "ClientEnd 7 (open_sink\<lparr>sunk := [3]\<rparr>) True
      \<in> set (transfer_events sample_receive_config sample_hasher 7 open_sink [[], [3]] True)"
    by (simp add: transfer_events_def open_sink_def)
  from client_end_truthful [OF st this] st show ?thesis by blast
qed

lemma bw_drop_healthy: "bw_healthy w \<Longrightarrow> bw_drop w = open_sink\<lparr>sunk := bw_accepted w\<rparr>"
  by (cases "bw_inner w")
    (simp add: bw_drop_def flush_buf_healthy, simp add: bw_healthy_def reliable_def open_sink_def)

lemma bw_drop_new [simp]: "bw_drop (buf_writer_new n k) = k"
  by (cases "room k") (simp_all add: bw_drop_def buf_writer_new_def flush_buf_def sink_write_all_def)

text \<open>Property C28. A transfer that is cut off, because its channel is silent for \<open>abort_timeout\<close> or because the
  dispatcher has dropped it, ends without a call of \<open>client_end\<close>: the client is just closed, with the payloads
  received so far in it, and the thread gives the permit back and takes the next transfer.\<close>

theorem cut_off_transfer_closed:
  assumes "9 \<le> unat (transfer_length rq)" and "reliable k" and "\<forall>d \<in> set chunks. length d < 2 ^ 32"
    and "m = Disconnected \<or> m = Timeout \<and> r_abort_timeout cfg \<noteq> None"
  shows "run (clients_step chk cfg hl rq) RWaiting
      (Announced (Msg (cid, Ok k)) # map (\<lambda>b. Block_in (Msg b))
        (rq_block rq Start cid [] # map (rq_block rq Data cid) chunks) @ [Block_in m])
    = ([R_Acquire, Dropped cid (open_sink\<lparr>sunk := sunk k @ concat chunks\<rparr>), R_Release], Ok (Continue RWaiting))"
proof -
  define s where "s = \<lparr>rc_writer = buf_writer_new (unat (transfer_length rq) - 9) k, rc_transmitted = 0,
        rc_hasher = rclient_hasher cfg hl\<rparr>"
  let ?tds = "(Start, []) # map (Pair Data) chunks"
  from rclient_run_healthy [of s ?tds cfg hl cid rq] assms(2,3) obtain w where
    rn: "run (rclient_step cfg hl cid) s (map (\<lambda>(t, d). Msg (rq_block rq t cid d)) ?tds) =
      ([], Ok (Continue \<lparr>rc_writer = w, rc_transmitted = length (concat (map snd ?tds)),
          rc_hasher = payloads_absorbed hl (map snd ?tds) (rclient_hasher cfg hl)\<rparr>))"
    and w: "bw_healthy w" "bw_accepted w = sunk k @ concat chunks"
    by (force simp: s_def comp_def)
  define s' where "s' = \<lparr>rc_writer = w, rc_transmitted = length (concat (map snd ?tds)),
          rc_hasher = payloads_absorbed hl (map snd ?tds) (rclient_hasher cfg hl)\<rparr>"
  have "\<exists>e. rclient_step cfg hl cid s' m = ([Dropped cid (open_sink\<lparr>sunk := sunk k @ concat chunks\<rparr>)], Err e)"
    using assms(4) w by (auto simp: rclient_step.simps s'_def or_drop_def bw_drop_healthy)
  then have "\<exists>e. run (rclient_step cfg hl cid) s (map (\<lambda>(t, d). Msg (rq_block rq t cid d)) ?tds @ [m])
      = ([Dropped cid (open_sink\<lparr>sunk := sunk k @ concat chunks\<rparr>)], Err e)"
    unfolding run_append [OF rn [folded s'_def]] by auto
  then obtain e where
    "run (rclient_step cfg hl cid) s (map (\<lambda>(t, d). Msg (rq_block rq t cid d)) ?tds @ [m])
      = ([Dropped cid (open_sink\<lparr>sunk := sunk k @ concat chunks\<rparr>)], Err e)" ..
  then show ?thesis
    using clients_run_transfer [OF rclient_init_ok [OF assms(1), of chk cfg hl cid k, folded s_def],
        of "map (\<lambda>(t, d). Msg (rq_block rq t cid d)) ?tds @ [m]"]
    by (simp add: clients_served_def Let_def comp_def)
qed

theorem cut_off_transfer_closed_witness:
  "fst (run (clients_step True (sample_receive_config\<lparr>r_abort_timeout := Some 1\<rparr>) sample_hasher small_rq) RWaiting
      [Announced (Msg (7, Ok open_sink)), Block_in (Msg (rq_block small_rq Start 7 [])),
       Block_in (Msg (rq_block small_rq Data 7 [1, 2])), Block_in Timeout])
    = [R_Acquire, Dropped 7 (open_sink\<lparr>sunk := [1, 2]\<rparr>), R_Release]"
  using cut_off_transfer_closed [of small_rq open_sink "[[1, 2]]" Timeout "sample_receive_config\<lparr>r_abort_timeout := Some 1\<rparr>"
      True sample_hasher 7]
  by (simp add: small_rq_def reliable_def open_sink_def)

text \<open>Property C29. A block whose length field exceeds the block, which the receiver does not check, kills the thread
  that gets it: the payload slice panics, and as the panic skips \<open>multiplex_control.signal()\<close> the permit of the
  thread is never given back. \<open>max_clients\<close> such blocks leave no thread and no permit. In the release profile a panic
  aborts: there one such block ends the whole process, after the same events up to the panic.\<close>

theorem corrupt_length_kills_thread:
  assumes "9 \<le> unat (transfer_length rq)"
    and "block_block_type b = Ok t" and "block_payload_len b = (Ok len :: (receive_error, u32) res)"
    and "length (serialized b) < 9 + unat len"
  shows "run (clients_step chk cfg hl rq) RWaiting (Announced (Msg (cid, Ok k)) # Block_in (Msg b) # later)
    = ([R_Acquire, Dropped cid k], Panic)"
proof -
  have "(block_payload b :: (receive_error, bytes) res) = Panic"
    using assms(3,4) by (simp add: block_payload_def SERIALIZE_OVERHEAD_def slice_def)
  then have "rclient_step cfg hl cid \<lparr>rc_writer = buf_writer_new n k, rc_transmitted = 0, rc_hasher = h\<rparr> (Msg b)
      = ([Dropped cid k], Panic)" for n h
    using assms(2) by (simp add: rclient_step.simps or_drop_def)
  then show ?thesis
    by (simp add: clients_step.simps rclient_init_ok [OF assms(1)] rclient_done_def say_def ret_def)
qed

theorem corrupt_length_kills_thread_witness:
  "run (clients_step True sample_receive_config sample_hasher small_rq) RWaiting
      [Announced (Msg (7, Ok open_sink)), Block_in (Msg (Block [7, 7, 7, 7, 2, 24, 0, 0, 0]))]
    = ([R_Acquire, Dropped 7 open_sink], Panic)"
  using corrupt_length_kills_thread [of small_rq "Block [7, 7, 7, 7, 2, 24, 0, 0, 0]" Data 24
      True sample_receive_config sample_hasher 7 open_sink "[]"]
  by (simp add: small_rq_def block_block_type_def block_payload_len_def index_def ID_HEARTBEAT_def ID_START_def
      ID_DATA_def)

text \<open>Property C30. However transfers come, go, fail and time out, a client thread that is waiting holds no permit of
  the multiplex semaphore, and one that serves a transfer holds exactly one, as long as it lives.\<close>

theorem clients_semaphore_balanced:
  assumes "run (clients_step chk cfg hl rq) RWaiting inputs = (os, Ok (Continue st'))"
  shows "int (count_list os R_Acquire) - int (count_list os R_Release)
    = (case st' of RWaiting \<Rightarrow> 0 | RServing _ _ \<Rightarrow> 1)"
  using clients_permits.run_permits [of chk cfg hl rq RWaiting inputs st'] assms
  by (cases st') (auto simp: rpermits_def)

theorem clients_semaphore_balanced_witness:
  "\<exists>os. run (clients_step True sample_receive_config sample_hasher small_rq) RWaiting
      [Announced (Msg (7, Err R_Receive))] = (os, Ok (Continue RWaiting))
    \<and> int (count_list os R_Acquire) - int (count_list os R_Release) = 0"
proof -
  have "run (clients_step True sample_receive_config sample_hasher small_rq) RWaiting
      [Announced (Msg (7, Err R_Receive))] = ([R_Acquire, R_Release], Ok (Continue RWaiting))"
    by (simp add: clients_step.simps rclient_init_def lift_def rclient_done_def say_def ret_def)
  from clients_semaphore_balanced [OF this] this show ?thesis by auto
qed

end
