(* ===== verification/Diode.thy ===== *)
theory Diode
  imports Recv_Client
begin

text \<open>
  The whole diode: the sender's pipeline, the link, and the receiver's pipeline, composed as the channels
  compose the workers. A channel is its history: what one worker has sent is what the next one takes. The
  pools of encoding and decoding threads run under any schedule; that of the decoding threads runs up to the point where no
  thread can move.

  \<open>sender_run\<close> gives the datagrams that the sender has put on the wire, with their destination; \<open>receiver_run\<close> starts with
  datagrams at the socket of the receiver. \<open>link\<close> says which of the datagrams sent arrive, and when: it names their
  positions on the wire, so that what arrives is whatever the sender has sent there. Datagrams are regrouped, reordered
  within the window of the reblock worker, repeated, and lost as long as enough packets of each block arrive for its
  decoding. The receiver is not left without a datagram for the reset timeout. \<open>sound_code\<close> is what the program relies on
  in the \<open>raptorq\<close> crate: packets can be read back and name their block, and decoding some packets of a
  block gives that block or nothing.
\<close>

section \<open>The two machines and the link\<close>

definition sender_socket :: "send_config \<Rightarrow> udp_sender" where
  "sender_socket cfg = udp_send_new (s_to cfg) (s_batch_send cfg)"

text \<open>
  The messages of the UDP worker are those of the encoding threads, among them any number of stop messages. The
  kernel answers as it likes, and the threads need not have come to rest; if \<open>complete\<close>, they have, without a stop message,
  and the kernel takes everything.
\<close>

definition sender_run ::
  "bool \<Rightarrow> send_config \<Rightarrow> ('plan, 'cfg, 'pkt) raptorq_lib \<Rightarrow> ('plan, 'cfg) raptorq \<Rightarrow> bool \<Rightarrow> block list \<Rightarrow>
   (bytes \<times> bytes) list \<Rightarrow> bool"
where
  "sender_run chk cfg lib rq complete bs sent \<longleftrightarrow> (\<exists>jobs s stops ms inputs.
     fst (ordering_start (map (\<lambda>b. (\<lambda>_. True, Msg (Some b))) bs)) = (map ToEncoding jobs :: 'pkt pipe_event list)
   \<and> (pool_step lib rq True)\<^sup>*\<^sup>* (pool_start (s_nb_encode_threads cfg) jobs) s
   \<and> ms \<in> shuffles (to_send s) (replicate stops None)
   \<and> map fst inputs = map Msg ms
   \<and> (complete \<longrightarrow> \<not> (\<exists>s'. pool_step lib rq True s s') \<and> stops = 0
        \<and> inputs = map (taken lib (sender_socket cfg)) (to_send s))
   \<and> sent = map (Pair (us_dest (sender_socket cfg)))
        (fst (run (send_udp_step chk cfg lib (sender_socket cfg)) Running inputs)))"

text \<open>The packets of the blocks, each with the number of its block.\<close>

definition tagged ::
  "('plan, 'cfg, 'pkt) raptorq_lib \<Rightarrow> ('plan, 'cfg) raptorq \<Rightarrow> block list \<Rightarrow> (int \<times> 'pkt) list"
where
  "tagged lib rq bs = concat (map (\<lambda>i. map (Pair (int i)) (encoded lib rq bs ! i)) [0..<length bs])"

definition sound_code :: "('plan, 'cfg, 'pkt) raptorq_lib \<Rightarrow> ('plan, 'cfg) raptorq \<Rightarrow> bool" where
  "sound_code lib rq \<longleftrightarrow> (\<forall>i data. length data = unat (transfer_length rq) \<longrightarrow>
     (\<forall>p \<in> set (encode lib rq i data). rq_deserialize lib (rq_serialize lib p) = Some p
        \<and> rq_block_number lib p = i)
   \<and> (\<forall>ps d. set ps \<subseteq> set (encode lib rq i data) \<longrightarrow> decode lib rq i ps = Some d \<longrightarrow> d = data))"

text \<open>
  The packets that arrive when the calls of \<open>recv\<close> take the datagrams at the positions \<open>ns\<close> of the wire. The number beside a
  packet says to which block its position belongs, when every block takes as many datagrams as it has packets.
\<close>

definition arrivals_at ::
  "('plan, 'cfg, 'pkt) raptorq_lib \<Rightarrow> ('plan, 'cfg) raptorq \<Rightarrow> block list \<Rightarrow> (bytes \<times> bytes) list \<Rightarrow> nat list list \<Rightarrow>
   (int \<times> 'pkt) list list"
where
  "arrivals_at lib rq bs sent ns =
     map (map (\<lambda>n. (fst (tagged lib rq bs ! n), the (rq_deserialize lib (snd (sent ! n)))))) ns"

text \<open>From block \<open>b\<close> on the blocks can be decoded from what arrives in time.\<close>

definition decodable_from ::
  "('plan, 'cfg, 'pkt) raptorq_lib \<Rightarrow> ('plan, 'cfg) raptorq \<Rightarrow> nat \<Rightarrow> block list \<Rightarrow> nat \<Rightarrow> (int \<times> 'pkt) list list \<Rightarrow> bool"
where
  "decodable_from lib rq min_nb bs b as \<longleftrightarrow>
     (\<exists>p a as'. as = ((int b, p) # a) # as')
   \<and> timely min_nb (reorder_init (int b)) as
   \<and> (\<forall>i. b \<le> i \<and> i < length bs \<longrightarrow> min_nb \<le> length (arrivals_of (int i) (concat as))
        \<and> (\<forall>ps rest. arrivals_of (int i) (concat as) = ps @ rest \<longrightarrow> min_nb \<le> length ps \<longrightarrow>
             decode lib rq (of_nat i) ps \<noteq> None))"

text \<open>
  The link brings datagrams to the address \<open>listen\<close>, at most \<open>mtu\<close> bytes long and as many per call of \<open>recv\<close> as its batch
  takes; those that were sent to another address it brings elsewhere.
\<close>

definition link ::
  "('plan, 'cfg, 'pkt) raptorq_lib \<Rightarrow> ('plan, 'cfg) raptorq \<Rightarrow> socket_addr \<Rightarrow> u16 \<Rightarrow> u32 option \<Rightarrow> nat \<Rightarrow> block list \<Rightarrow>
   (bytes \<times> bytes) list \<Rightarrow> nat \<Rightarrow> nat list list \<Rightarrow> bool"
where
  "link lib rq listen mtu batch min_nb bs sent b ns \<longleftrightarrow>
     (\<forall>n \<in> set (concat ns). n < length sent \<and> fst (sent ! n) = sockaddr listen \<and> length (snd (sent ! n)) \<le> unat mtu)
   \<and> (\<forall>g \<in> set ns. g \<noteq> [] \<and> length g \<le> receive_batch batch)
   \<and> decodable_from lib rq min_nb bs b (arrivals_at lib rq bs sent ns)"

definition on_wire :: "(bytes \<times> bytes) list \<Rightarrow> nat list list \<Rightarrow> (bytes \<times> bytes) list list" where
  "on_wire sent ns = map (map ((!) sent)) ns"

text \<open>The UDP worker of the receiver gets what is addressed to it, and sleeps when there is nothing.\<close>

definition received :: "receive_config \<Rightarrow> (bytes \<times> bytes) list list \<Rightarrow> datagrams list" where
  "received cfg flights =
     (let r = udp_receive_new (r_from_mtu cfg) (r_batch_receive cfg);
          waiting = filter (\<lambda>ds. ds \<noteq> []) (map (\<lambda>f. map snd (filter (\<lambda>d. fst d = sockaddr (r_from cfg)) f)) flights) in
      fst (run recv_udp_step r (map (\<lambda>ds. (\<lambda>_. True, udp_kernel r ds)) waiting)))"

definition receiver_threads ::
  "bool \<Rightarrow> receive_config \<Rightarrow> ('plan, 'cfg, 'pkt) raptorq_lib \<Rightarrow> ('plan, 'cfg) raptorq \<Rightarrow> datagrams list \<Rightarrow>
   dispatch_event list \<Rightarrow> bool"
where
  "receiver_threads chk cfg lib rq dss devs \<longleftrightarrow> (\<exists>t jobs d ebs now0.
     fst (reblock_start chk lib rq (map (\<lambda>ds. (\<lambda>_. True, Msg ds)) dss)) = SetTurn t # map ToDecode jobs
   \<and> (dec_step lib rq True)\<^sup>*\<^sup>* (dec_start (r_nb_decode_threads cfg) t jobs) d
   \<and> \<not> (\<exists>d'. dec_step lib rq True d d')
   \<and> to_dispatch d = map (Some \<circ> snd) ebs \<and> (\<forall>(env, b) \<in> set ebs. all_up env)
   \<and> devs = fst (run (dispatch_step cfg rq) (dispatch_init now0) (map (\<lambda>(env, b). (env, Msg (Some b))) ebs)))"

definition receiver_run ::
  "bool \<Rightarrow> receive_config \<Rightarrow> ('plan, 'cfg, 'pkt) raptorq_lib \<Rightarrow> ('plan, 'cfg) raptorq \<Rightarrow> (bytes \<times> bytes) list list \<Rightarrow>
   dispatch_event list \<Rightarrow> bool"
where
  "receiver_run chk cfg lib rq flights devs \<longleftrightarrow> receiver_threads chk cfg lib rq (received cfg flights) devs"

text \<open>The blocks among the events of a client worker.\<close>

definition ordered_blocks :: "send_event list \<Rightarrow> block list" where
  "ordered_blocks evs = concat (map (\<lambda>e. case e of Ordered (Some b) \<Rightarrow> [b] | _ \<Rightarrow> []) evs)"

section \<open>The sender\<close>

lemma length_encoded [simp]: "length (encoded lib rq bs) = length bs"
  by (simp add: encoded_def)

lemma nth_encoded:
  "i < length bs \<Longrightarrow> encoded lib rq bs ! i = encode lib rq (of_nat i) (serialized (bs ! i))"
  by (simp add: encoded_def nth_numbered)

lemma wire_tagged: "wire lib (encoded lib rq bs) = map (rq_serialize lib \<circ> snd) (tagged lib rq bs)"
proof -
  have "map snd (tagged lib rq bs) = concat (map (\<lambda>i. encoded lib rq bs ! i) [0..<length bs])"
    by (simp add: tagged_def map_concat comp_def)
  also have "map (\<lambda>i. encoded lib rq bs ! i) [0..<length bs] = encoded lib rq bs"
    using map_nth [of "encoded lib rq bs"] by simp
  finally have "concat (encoded lib rq bs) = map snd (tagged lib rq bs)" by simp
  then show ?thesis by (simp add: wire_def flip: map_concat)
qed

lemma pool_never_starts:
  assumes "(pool_step lib rq True)\<^sup>*\<^sup>* (pool_start 0 jobs) s"
  shows "to_send s = []"
proof -
  have "threads s = [] \<and> to_send s = []"
    using assms
    by (induction rule: rtranclp_induct) (auto simp: pool_start_def pool_step_iff enc_thread_step_def)
  then show ?thesis by simp
qed

text \<open>Whatever happens, the wire carries a beginning of the packets, addressed to the receiver.\<close>

lemma sender_sends:
  fixes lib :: "('plan, 'cfg, 'pkt) raptorq_lib"
  assumes "sender_run chk cfg lib rq complete bs sent" and "\<forall>b \<in> set bs. 4 \<le> length (serialized b)"
  shows "\<exists>k. sent = map (Pair (sockaddr (s_to cfg))) (take k (map (rq_serialize lib \<circ> snd) (tagged lib rq bs)))"
    and "complete \<Longrightarrow> 0 < s_nb_encode_threads cfg \<Longrightarrow> s_batch_send cfg \<noteq> Some 0 \<Longrightarrow> small_packets lib (encoded lib rq bs) \<Longrightarrow>
      sent = map (Pair (sockaddr (s_to cfg))) (map (rq_serialize lib \<circ> snd) (tagged lib rq bs))"
proof -
  let ?u = "sender_socket cfg"
  have dest: "us_dest ?u = sockaddr (s_to cfg)" by (simp add: sender_socket_def udp_send_new_def)
  from assms(1) obtain jobs s stops ms inputs where
    j: "fst (ordering_start (map (\<lambda>b. (\<lambda>_. True, Msg (Some b))) bs)) = (map ToEncoding jobs :: 'pkt pipe_event list)"
    and run: "(pool_step lib rq True)\<^sup>*\<^sup>* (pool_start (s_nb_encode_threads cfg) jobs) s"
    and ms: "ms \<in> shuffles (to_send s) (replicate stops None)" and inputs: "map fst inputs = map Msg ms"
    and complete: "complete \<Longrightarrow> \<not> (\<exists>s'. pool_step lib rq True s s') \<and> inputs = map (taken lib ?u) (to_send s)"
    and sent: "sent = map (Pair (us_dest ?u)) (fst (run (send_udp_step chk cfg lib ?u) Running inputs))"
    unfolding sender_run_def by blast
  note run = run [unfolded ordering_jobs_unique [OF j]]
  have "\<exists>e. to_send s = map Some (take e (encoded lib rq bs))"
  proof (cases "s_nb_encode_threads cfg = 0")
    case True
    then have "to_send s = map Some (take 0 (encoded lib rq bs))" using pool_never_starts [of lib rq "numbered_jobs bs" s] run by simp
    then show ?thesis ..
  next
    case False
    then show ?thesis using pool_results(1) [OF run assms(2)] by (auto simp: word_greater_zero_iff)
  qed
  then obtain e where "to_send s = map Some (take e (encoded lib rq bs))" ..
  then have somes: "somes ms = take e (encoded lib rq bs)" using shuffled_stops(1) ms by metis
  obtain k where "fst (run (send_udp_step chk cfg lib ?u) Running inputs) = take k (wire lib (take e (encoded lib rq bs)))"
    using send_udp_prefix [OF inputs, of chk cfg lib ?u Running] unfolding somes by blast
  moreover have "wire lib (take e (encoded lib rq bs)) = take (length (wire lib (take e (encoded lib rq bs)))) (wire lib (encoded lib rq bs))"
    by (subst (3) append_take_drop_id [of e, symmetric]) (simp add: wire_def del: append_take_drop_id)
  ultimately obtain k' where "fst (run (send_udp_step chk cfg lib ?u) Running inputs) = take k' (wire lib (encoded lib rq bs))"
    by (metis take_take)
  then show "\<exists>k. sent = map (Pair (sockaddr (s_to cfg))) (take k (map (rq_serialize lib \<circ> snd) (tagged lib rq bs)))"
    unfolding sent dest wire_tagged by (intro exI [of _ k']) simp
  assume all: "complete" "0 < s_nb_encode_threads cfg" "s_batch_send cfg \<noteq> Some 0" "small_packets lib (encoded lib rq bs)"
  have "to_send s = map Some (encoded lib rq bs)"
    using pool_results(2) [OF run assms(2) all(2)] complete [OF all(1)] by blast
  then have "run (send_udp_step chk cfg lib ?u) Running inputs = (wire lib (encoded lib rq bs), Ok (Continue Running))"
    using send_udp_stops [of lib "to_send s" "s_batch_send cfg" 0 cfg chk "s_to cfg"] all complete [OF all(1)]
    by (simp add: sender_socket_def count_list_map_Some pc_after_def word_less_nat_alt)
  then show "sent = map (Pair (sockaddr (s_to cfg))) (map (rq_serialize lib \<circ> snd) (tagged lib rq bs))"
    unfolding sent dest wire_tagged [symmetric] by simp
qed

lemma sender_run_exists:
  fixes lib :: "('plan, 'cfg, 'pkt) raptorq_lib"
  assumes "\<forall>b \<in> set bs. 4 \<le> length (serialized b)" and "0 < s_nb_encode_threads cfg"
  shows "\<exists>sent. sender_run chk cfg lib rq True bs sent"
proof -
  from encoders.completes [OF pool_start_fit [OF assms]] obtain s where
    s: "(pool_step lib rq True)\<^sup>*\<^sup>* (pool_start (s_nb_encode_threads cfg) (numbered_jobs bs)) s"
      "\<not> (\<exists>s'. pool_step lib rq True s s')" by blast
  have "to_send s \<in> shuffles (to_send s) (replicate 0 None)" by simp
  moreover have "map fst (map (taken lib (sender_socket cfg)) (to_send s)) = map Msg (to_send s)"
    by (simp add: taken_def)
  ultimately show ?thesis unfolding sender_run_def using ordering_jobs [of bs] s by blast
qed

section \<open>The receiver\<close>

lemma tagged_member:
  assumes "(i, p) \<in> set (tagged lib rq bs)"
  shows "\<exists>k < length bs. i = int k \<and> p \<in> set (encode lib rq (of_nat k) (serialized (bs ! k)))"
  using assms by (auto simp: tagged_def nth_encoded)

lemma tagged_member_nat:
  "(int k, p) \<in> set (tagged lib rq bs) \<Longrightarrow>
   k < length bs \<and> p \<in> set (encode lib rq (of_nat k) (serialized (bs ! k)))"
  by (drule tagged_member) auto

lemma arrivals_of_member: "p \<in> set (arrivals_of i as) \<Longrightarrow> (i, p) \<in> set as"
  by (auto simp: arrivals_of_def)

lemma sound_codeD:
  assumes "sound_code lib rq" and "length data = unat (transfer_length rq)"
  shows "p \<in> set (encode lib rq i data) \<Longrightarrow> rq_deserialize lib (rq_serialize lib p) = Some p"
    and "p \<in> set (encode lib rq i data) \<Longrightarrow> rq_block_number lib p = i"
    and "set ps \<subseteq> set (encode lib rq i data) \<Longrightarrow> decode lib rq i ps = Some d \<Longrightarrow> d = data"
  using assms by (auto simp: sound_code_def)

text \<open>
  What the reblock worker gets: the datagrams \<open>dss\<close> are the packets \<open>as\<close> of the blocks \<open>bs\<close>, decodable from block \<open>b\<close> on.
\<close>

definition arrives ::
  "('plan, 'cfg, 'pkt) raptorq_lib \<Rightarrow> ('plan, 'cfg) raptorq \<Rightarrow> nat \<Rightarrow> block list \<Rightarrow> nat \<Rightarrow>
   (int \<times> 'pkt) list list \<Rightarrow> datagrams list \<Rightarrow> bool"
where
  "arrives lib rq min_nb bs b as dss \<longleftrightarrow>
     map datagram_list dss = map (map (rq_serialize lib \<circ> snd)) as
   \<and> set (concat as) \<subseteq> set (tagged lib rq bs)
   \<and> decodable_from lib rq min_nb bs b as"

lemma arrives_unfold:
  "arrives lib rq min_nb bs b as dss \<longleftrightarrow>
     map datagram_list dss = map (map (rq_serialize lib \<circ> snd)) as
   \<and> set (concat as) \<subseteq> set (tagged lib rq bs)
   \<and> (\<exists>p a as'. as = ((int b, p) # a) # as')
   \<and> timely min_nb (reorder_init (int b)) as
   \<and> (\<forall>i. b \<le> i \<and> i < length bs \<longrightarrow> min_nb \<le> length (arrivals_of (int i) (concat as))
        \<and> (\<forall>ps rest. arrivals_of (int i) (concat as) = ps @ rest \<longrightarrow> min_nb \<le> length ps \<longrightarrow>
             decode lib rq (of_nat i) ps \<noteq> None))"
  by (simp add: arrives_def decodable_from_def)

lemma received_list:
  assumes "\<forall>f \<in> set flights. f \<noteq> [] \<and> length f \<le> receive_batch (r_batch_receive cfg)
      \<and> (\<forall>d \<in> set f. fst d = sockaddr (r_from cfg) \<and> length (snd d) \<le> unat (r_from_mtu cfg))"
  shows "map datagram_list (received cfg flights) = map (map snd) flights"
proof -
  define r where "r = udp_receive_new (r_from_mtu cfg) (r_batch_receive cfg)"
  have mine: "filter (\<lambda>ds. ds \<noteq> []) (map (\<lambda>f. map snd (filter (\<lambda>d. fst d = sockaddr (r_from cfg)) f)) flights) = map (map snd) flights"
    using assms
  proof (induction flights)
    case Nil
    then show ?case by simp
  next
    case (Cons f flights)
    then have "filter (\<lambda>d. fst d = sockaddr (r_from cfg)) f = f" by (simp add: filter_id_conv)
    with Cons show ?case by simp
  qed
  have "map datagram_list (fst (run recv_udp_step r (map (\<lambda>ds. (\<lambda>_. True, udp_kernel r ds)) (map (map snd) flights))))
      = map (map snd) flights"
    using assms
  proof (induction flights)
    case Nil
    then show ?case by (simp add: ret_def)
  next
    case (Cons f flights)
    have "map snd f \<noteq> []" using Cons.prems by simp
    from udp_recv_kernel [OF this, of "r_from_mtu cfg" "r_batch_receive cfg", folded r_def] obtain m where
      m: "udp_recv r (udp_kernel r (map snd f)) = Ok m"
        "datagram_list m = map (take (unat (r_from_mtu cfg))) (take (receive_batch (r_batch_receive cfg)) (map snd f))" by blast
    have "datagram_list m = map snd f" using m(2) Cons.prems by simp
    then show ?case using Cons m(1) by (simp add: emit_def ret_def lift_def)
  qed
  then show ?thesis unfolding received_def Let_def r_def [symmetric] mine .
qed

text \<open>Over the link the receiver gets the packets of the sender's blocks.\<close>

lemma link_arrives:
  fixes lib :: "('plan, 'cfg, 'pkt) raptorq_lib"
  assumes code: "sound_code lib rq" and blocks: "\<forall>b \<in> set bs. length (serialized b) = unat (transfer_length rq)"
    and sent: "sent = map (Pair dest) (take k (map (rq_serialize lib \<circ> snd) (tagged lib rq bs)))"
    and link: "link lib rq (r_from cfg) (r_from_mtu cfg) (r_batch_receive cfg) min_nb bs sent b ns"
  shows "arrives lib rq min_nb bs b (arrivals_at lib rq bs sent ns) (received cfg (on_wire sent ns))"
proof -
  note L = link [unfolded link_def]
  have at: "(fst (tagged lib rq bs ! n), the (rq_deserialize lib (snd (sent ! n)))) = tagged lib rq bs ! n
      \<and> snd (sent ! n) = rq_serialize lib (snd (tagged lib rq bs ! n)) \<and> tagged lib rq bs ! n \<in> set (tagged lib rq bs)"
    if "n \<in> set (concat ns)" for n
  proof -
    have n: "n < length (tagged lib rq bs)" "n < k" using L that sent by auto
    then have eq: "snd (sent ! n) = rq_serialize lib (snd (tagged lib rq bs ! n))" by (simp add: sent)
    obtain i p where ip: "tagged lib rq bs ! n = (i, p)" by (cases "tagged lib rq bs ! n")
    have mem: "tagged lib rq bs ! n \<in> set (tagged lib rq bs)" using n by simp
    with tagged_member [of i p lib rq bs] ip obtain j where
      "j < length bs" "p \<in> set (encode lib rq (of_nat j) (serialized (bs ! j)))" by auto
    moreover from this blocks have "length (serialized (bs ! j)) = unat (transfer_length rq)" by simp
    ultimately have "rq_deserialize lib (rq_serialize lib p) = Some p" using sound_codeD(1) [OF code] by blast
    then show ?thesis using eq mem by (simp add: ip)
  qed
  have as: "arrivals_at lib rq bs sent ns = map (map ((!) (tagged lib rq bs))) ns"
    unfolding arrivals_at_def by (intro map_cong refl) (use at in auto)
  have "\<forall>f \<in> set (on_wire sent ns). f \<noteq> [] \<and> length f \<le> receive_batch (r_batch_receive cfg)
      \<and> (\<forall>d \<in> set f. fst d = sockaddr (r_from cfg) \<and> length (snd d) \<le> unat (r_from_mtu cfg))"
    using L by (auto simp: on_wire_def)
  from received_list [OF this] have "map datagram_list (received cfg (on_wire sent ns)) = map (map snd) (on_wire sent ns)" .
  also have "\<dots> = map (map (rq_serialize lib \<circ> snd)) (map (map ((!) (tagged lib rq bs))) ns)"
    unfolding on_wire_def map_map comp_def by (intro map_cong refl) (use at in auto)
  finally have "map datagram_list (received cfg (on_wire sent ns))
      = map (map (rq_serialize lib \<circ> snd)) (map (map ((!) (tagged lib rq bs))) ns)" .
  moreover have "set (concat (map (map ((!) (tagged lib rq bs))) ns)) \<subseteq> set (tagged lib rq bs)"
    using at by (auto simp del: set_concat simp flip: map_concat)
  ultimately show ?thesis
    using L unfolding arrives_def as by blast
qed

lemma arrives_reads:
  assumes "sound_code lib rq" and "\<forall>b \<in> set bs. length (serialized b) = unat (transfer_length rq)"
    and "arrives lib rq min_nb bs b as dss"
  shows "list_all2 (\<lambda>ds arrivals. list_all2 (reads_as lib) (datagram_list ds) arrivals) dss as"
proof -
  have rd: "reads_as lib (rq_serialize lib (snd a)) a" if "a \<in> set (concat as)" for a
  proof -
    obtain i p where a: "a = (i, p)" by (cases a)
    have "(i, p) \<in> set (tagged lib rq bs)" using that a assms(3) by (auto simp: arrives_unfold)
    from tagged_member [OF this] obtain k where
      "k < length bs" "i = int k" "p \<in> set (encode lib rq (of_nat k) (serialized (bs ! k)))" by blast
    moreover from this assms(2) have "length (serialized (bs ! k)) = unat (transfer_length rq)" by simp
    ultimately show ?thesis
      using sound_codeD(1,2) [OF assms(1), of "serialized (bs ! k)" p "of_nat k"] a
      by (simp add: reads_as_def)
  qed
  have eq: "map datagram_list dss = map (map (rq_serialize lib \<circ> snd)) as" using assms(3) by (simp add: arrives_unfold)
  then have len: "length dss = length as" by (metis length_map)
  show ?thesis
  proof (rule list_all2_all_nthI [OF len])
    fix n assume n: "n < length dss"
    have "datagram_list (dss ! n) = map (rq_serialize lib \<circ> snd) (as ! n)"
      using eq n len by (metis nth_map)
    moreover have "set (as ! n) \<subseteq> set (concat as)"
      using n len unfolding set_concat by (intro Union_upper imageI nth_mem) simp
    ultimately show "list_all2 (reads_as lib) (datagram_list (dss ! n)) (as ! n)"
      using rd by (auto simp: list_all2_map1 intro!: list.rel_refl_strong)
  qed
qed

lemma arrives_first:
  assumes "arrives lib rq min_nb bs b as dss"
  shows "b < length bs" and "\<exists>p a as' ds dss'. as = ((int b, p) # a) # as' \<and> dss = ds # dss'"
proof -
  from assms obtain p a as' where as: "as = ((int b, p) # a) # as'" by (auto simp: arrives_unfold)
  have "(int b, p) \<in> set (tagged lib rq bs)" using assms as by (auto simp: arrives_unfold)
  from tagged_member [OF this] show "b < length bs" by auto
  have "dss \<noteq> []" using assms as by (auto simp: arrives_unfold)
  then show "\<exists>p a as' ds dss'. as = ((int b, p) # a) # as' \<and> dss = ds # dss'"
    using as by (cases dss) auto
qed

text \<open>Every block from \<open>b\<close> on is handed to the decoders, and decodes to what was sent.\<close>

definition handed_on ::
  "('plan, 'cfg, 'pkt) raptorq_lib \<Rightarrow> ('plan, 'cfg) raptorq \<Rightarrow> block list \<Rightarrow> nat \<Rightarrow> 'pkt list list \<Rightarrow> bool"
where
  "handed_on lib rq bs b pss \<longleftrightarrow> length pss = length bs - b
     \<and> (\<forall>k < length pss. decode lib rq (of_nat (b + k)) (pss ! k) = Some (serialized (bs ! (b + k))))"

lemma handed_on_decoded:
  assumes "handed_on lib rq bs b pss"
  shows "\<forall>m \<in> set (block_jobs (of_nat b) pss). decodable lib rq m" and "decoded lib rq (of_nat b) pss = drop b bs"
proof -
  note h = assms [unfolded handed_on_def]
  have dec: "decode lib rq (of_nat b + of_nat k) (pss ! k) = Some (serialized (bs ! (b + k)))" if "k < length pss" for k
    using h that by (metis of_nat_add)
  show "\<forall>m \<in> set (block_jobs (of_nat b) pss). decodable lib rq m"
  proof
    fix m assume "m \<in> set (block_jobs (of_nat b) pss)"
    then obtain k where "k < length pss" "m = block_jobs (of_nat b) pss ! k"
      by (auto simp: in_set_conv_nth block_jobs_def)
    then show "decodable lib rq m" using dec by (simp add: nth_block_jobs decodable_def)
  qed
  show "decoded lib rq (of_nat b) pss = drop b bs"
    by (rule nth_equalityI) (use h dec in \<open>auto simp: decoded_def nth_numbered\<close>)
qed

lemma arrives_reblocked:
  assumes "sound_code lib rq" and "\<forall>b \<in> set bs. length (serialized b) = unat (transfer_length rq)"
    and "0 < min_nb" and lk: "arrives lib rq min_nb bs b as dss"
  shows "\<exists>pss r. run (reblock_step lib min_nb) reblock_init (map (\<lambda>ds. (\<lambda>_. True, Msg ds)) dss)
      = (SetTurn (of_nat b) # map ToDecode (block_jobs (of_nat b) pss), r) \<and> handed_on lib rq bs b pss"
proof -
  from arrives_first(2) [OF lk] obtain p a as' ds dss' where
    as: "as = ((int b, p) # a) # as'" and dss: "dss = ds # dss'" by blast
  note L = lk [unfolded arrives_unfold]
  have tm: "timely min_nb (reorder_init (int b)) as" using L by blast
  from reblock_reassembles [OF assms(3) _ arrives_reads [OF assms(1,2) lk, unfolded as dss] tm [unfolded as],
      folded as dss, of reblock_init]
  obtain outs s' where
    rn: "run (reblock_step lib min_nb) reblock_init (map (\<lambda>ds. (\<lambda>_. True, Msg ds)) dss)
      = (SetTurn (of_int (int b)) # map (\<lambda>(b, ps). ToDecode (Reassembled (of_int b) ps)) outs, Ok (Continue s'))"
    and num: "map fst outs = map (\<lambda>k. int b + int k) [0..<length outs]"
    and got: "\<forall>(i, ps) \<in> set outs. min_nb \<le> length ps \<and> (\<exists>rest. arrivals_of i (concat as) = ps @ rest)"
    and len: "\<forall>k. k < length outs \<longleftrightarrow> (\<forall>j \<le> k. min_nb \<le> length (arrivals_of (int b + int j) (concat as)))"
    by (auto simp: reblock_init_def)
  have recover: "decode lib rq (of_nat i) ps \<noteq> None"
    if "b \<le> i" "i < length bs" "arrivals_of (int i) (concat as) = ps @ rest" "min_nb \<le> length ps" for i ps rest
    using L that by blast
  have lens: "length outs = length bs - b"
  proof (rule antisym)
    have "b + k < length bs" if "k < length outs" for k
    proof -
      have "min_nb \<le> length (arrivals_of (int b + int k) (concat as))" using len that by blast
      then have "arrivals_of (int b + int k) (concat as) \<noteq> []" using assms(3) by auto
      then obtain p where "(int b + int k, p) \<in> set (concat as)"
        using arrivals_of_member by (metis last_in_set)
      then have "(int (b + k), p) \<in> set (tagged lib rq bs)" using L by auto
      from tagged_member [OF this] show ?thesis by auto
    qed
    from this [of "length outs - 1"] show "length outs \<le> length bs - b" by (cases "length outs") auto
    have enough: "min_nb \<le> length (arrivals_of (int i) (concat as))" if "b \<le> i" "i < length bs" for i
      using L that by blast
    have "length bs - b - 1 < length outs" if "b < length bs"
    proof -
      have "min_nb \<le> length (arrivals_of (int b + int j) (concat as))" if "j \<le> length bs - b - 1" for j
        using enough [of "b + j"] \<open>b < length bs\<close> that by simp
      then show ?thesis using len by blast
    qed
    then show "length bs - b \<le> length outs" using arrives_first(1) [OF lk] by simp
  qed
  have out: "fst (outs ! k) = int (b + k)" if "k < length outs" for k
    using num that by (metis (no_types, lifting) add_0 diff_zero length_upt nth_map nth_upt of_nat_add)
  have jobs: "map (\<lambda>(b, ps). Reassembled (of_int b) ps) outs = block_jobs (of_nat b) (map snd outs)"
    by (rule nth_equalityI) (auto simp: nth_block_jobs out case_prod_beta, simp_all add: block_jobs_def)
  have "handed_on lib rq bs b (map snd outs)"
    unfolding handed_on_def
  proof (intro conjI allI impI)
    show "length (map snd outs) = length bs - b" by (simp add: lens)
    fix k assume "k < length (map snd outs)"
    then have k: "k < length outs" "b + k < length bs" using lens by simp_all
    obtain rest where pre: "min_nb \<le> length (snd (outs ! k))"
        "arrivals_of (int (b + k)) (concat as) = snd (outs ! k) @ rest"
      using got nth_mem [OF k(1)] out [OF k(1)] by (auto simp: case_prod_beta)
    have "decode lib rq (of_nat (b + k)) (snd (outs ! k)) \<noteq> None"
      by (rule recover [OF _ k(2) pre(2,1)]) simp
    then obtain d where d: "decode lib rq (of_nat (b + k)) (snd (outs ! k)) = Some d" by blast
    have "set (snd (outs ! k)) \<subseteq> set (encode lib rq (of_nat (b + k)) (serialized (bs ! (b + k))))"
    proof
      fix p assume "p \<in> set (snd (outs ! k))"
      then have "p \<in> set (arrivals_of (int (b + k)) (concat as))" unfolding pre(2) by simp
      from arrivals_of_member [OF this] L have "(int (b + k), p) \<in> set (tagged lib rq bs)" by blast
      then show "p \<in> set (encode lib rq (of_nat (b + k)) (serialized (bs ! (b + k))))"
        by (rule tagged_member_nat [THEN conjunct2])
    qed
    from sound_codeD(3) [OF assms(1) _ this d] assms(2) k(2) d
    show "decode lib rq (of_nat (b + k)) (map snd outs ! k) = Some (serialized (bs ! (b + k)))"
      using k(1) by simp
  qed
  then show ?thesis
    using rn jobs [symmetric] by (intro exI [of _ "map snd outs"]) (auto simp: case_prod_unfold)
qed

lemma reblock_start_run:
  assumes "min_nb_packets chk rq = (Ok m :: (receive_error, u16) res)"
  shows "reblock_start chk lib rq inputs = run (reblock_step lib (unat m)) reblock_init inputs"
  by (simp add: reblock_start_def assms act_simps)

lemma receiver_dispatches:
  fixes lib :: "('plan, 'cfg, 'pkt) raptorq_lib"
  assumes "sound_code lib rq" and "\<forall>b \<in> set bs. length (serialized b) = unat (transfer_length rq)"
    and "min_nb_packets chk rq = (Ok m :: (receive_error, u16) res)" and "0 < m"
    and "arrives lib rq (unat m) bs b as dss" and "0 < r_nb_decode_threads cfg"
    and "receiver_threads chk cfg lib rq dss devs"
  shows "\<exists>ebs now0. map snd ebs = drop b bs \<and> (\<forall>(env, b) \<in> set ebs. all_up env)
    \<and> devs = fst (run (dispatch_step cfg rq) (dispatch_init now0) (block_inputs ebs))"
proof -
  from assms(7) obtain t jobs d ebs now0 where
    r: "fst (reblock_start chk lib rq (map (\<lambda>ds. (\<lambda>_. True, Msg ds)) dss)) = SetTurn t # map ToDecode jobs"
    and run: "(dec_step lib rq True)\<^sup>*\<^sup>* (dec_start (r_nb_decode_threads cfg) t jobs) d"
    and stuck: "\<not> (\<exists>d'. dec_step lib rq True d d')"
    and d: "to_dispatch d = map (Some \<circ> snd) ebs" "\<forall>(env, b) \<in> set ebs. all_up env"
      "devs = fst (run (dispatch_step cfg rq) (dispatch_init now0) (map (\<lambda>(env, b). (env, Msg (Some b))) ebs))"
    unfolding receiver_threads_def by blast
  have "0 < unat m" using assms(4) by (simp add: word_less_nat_alt)
  from arrives_reblocked [OF assms(1,2) this assms(5)] obtain pss x where
    p: "run (reblock_step lib (unat m)) reblock_init (map (\<lambda>ds. (\<lambda>_. True, Msg ds)) dss)
      = (SetTurn (of_nat b) # map ToDecode (block_jobs (of_nat b) pss), x)" and h: "handed_on lib rq bs b pss"
    by blast
  have "SetTurn t # map ToDecode jobs = SetTurn (of_nat b) # map ToDecode (block_jobs (of_nat b) pss)"
    using r unfolding reblock_start_run [OF assms(3)] p fst_conv by (rule sym)
  then have eq: "SetTurn t = (SetTurn (of_nat b) :: 'pkt reblock_event)
      \<and> map ToDecode jobs = map ToDecode (block_jobs (of_nat b) pss)"
    unfolding list.inject .
  have "inj (ToDecode :: 'pkt reassembled \<Rightarrow> _)" by (simp add: inj_def)
  with eq have "jobs = block_jobs (of_nat b) pss" by (simp only: inj_map_eq_map)
  moreover from eq have "t = of_nat b" by simp
  ultimately have "jobs = block_jobs (of_nat b) pss" "t = of_nat b" .
  from dec_results(2) [OF handed_on_decoded(1) [OF h] assms(6) run [unfolded this] stuck]
  have "map (Some \<circ> snd) ebs = map Some (drop b bs)" using d(1) handed_on_decoded(2) [OF h] by simp
  then have "map Some (map snd ebs) = map Some (drop b bs)" by simp
  then have "map snd ebs = drop b bs" by (simp only: inj_map_eq_map inj_Some)
  then show ?thesis using d(2,3) by (auto simp: block_inputs_def)
qed

lemma receiver_delivers:
  assumes "sound_code lib rq" and "\<forall>b \<in> set bs. length (serialized b) = unat (transfer_length rq)"
    and "min_nb_packets chk rq = (Ok m :: (receive_error, u16) res)" and "0 < m"
    and "arrives lib rq (unat m) bs b as dss" and "0 < r_nb_decode_threads cfg"
    and "receiver_threads chk cfg lib rq dss devs" and "9 \<le> unat (transfer_length rq)"
    and "filter (concerns cid) (drop b bs) = st # ds @ [e]"
    and "block_kind st = Some (Start, cid)" and "\<forall>b \<in> set ds. block_kind b = Some (Data, cid)"
    and "block_kind e = Some (Abort, cid) \<or> block_kind e = Some (End, cid)"
  shows "\<exists>ch. opened cid devs = [ch] \<and> delivered ch devs = st # ds @ [e]"
proof -
  from receiver_dispatches [OF assms(1-7)] obtain ebs now0 where
    ebs: "map snd ebs = drop b bs" "\<forall>(env, b) \<in> set ebs. all_up env"
      "devs = fst (run (dispatch_step cfg rq) (dispatch_init now0) (block_inputs ebs))" by blast
  have "dispatch_inv (dispatch_init now0)" by (simp add: dispatch_inv_def dispatch_init_def open_channels_def)
  moreover have "\<forall>(env, b) \<in> set ebs. all_up env \<and> loggable env b"
  proof (clarify, intro conjI)
    fix env b' assume eb: "(env, b') \<in> set ebs"
    then show "all_up env" using ebs(2) by blast
    from eb have "b' \<in> set (map snd ebs)" by force
    then have "b' \<in> set bs" unfolding ebs(1) by (rule in_set_dropD)
    then show "loggable env b'" using assms(2,8) by (simp add: loggable_def)
  qed
  ultimately show ?thesis
    using run_transfer [of ebs "dispatch_init now0" cid st ds e cfg rq] assms(9-12)
    unfolding ebs(1,3) by blast
qed

lemma receiver_threads_exist:
  assumes "sound_code lib rq" and "\<forall>b \<in> set bs. length (serialized b) = unat (transfer_length rq)"
    and "min_nb_packets chk rq = (Ok m :: (receive_error, u16) res)" and "0 < m"
    and "arrives lib rq (unat m) bs b as dss" and "0 < r_nb_decode_threads cfg"
  shows "\<exists>devs. receiver_threads chk cfg lib rq dss devs"
proof -
  have "0 < unat m" using assms(4) by (simp add: word_less_nat_alt)
  from arrives_reblocked [OF assms(1,2) this assms(5)] obtain pss x where
    p: "run (reblock_step lib (unat m)) reblock_init (map (\<lambda>ds. (\<lambda>_. True, Msg ds)) dss)
      = (SetTurn (of_nat b) # map ToDecode (block_jobs (of_nat b) pss), x)" and h: "handed_on lib rq bs b pss"
    by blast
  from decoders.completes [OF dec_start_ok(1) [OF handed_on_decoded(1) [OF h] assms(6)]] obtain d where
    d: "(dec_step lib rq True)\<^sup>*\<^sup>* (dec_start (r_nb_decode_threads cfg) (of_nat b) (block_jobs (of_nat b) pss)) d"
      "\<not> (\<exists>d'. dec_step lib rq True d d')" by blast
  from dec_results(2) [OF handed_on_decoded(1) [OF h] assms(6) d]
  have "to_dispatch d = map (Some \<circ> snd) (map (Pair env_up) (decoded lib rq (of_nat b) pss))" by simp
  moreover have "\<forall>(env, b) \<in> set (map (Pair env_up) (decoded lib rq (of_nat b) pss)). all_up env"
    by (auto simp: all_up_def env_up_def)
  ultimately show ?thesis
    unfolding receiver_threads_def reblock_start_run [OF assms(3)] p fst_conv using d by blast
qed

section \<open>A transfer\<close>

lemma diode_arrives:
  assumes "sound_code lib rq" and "10 \<le> unat (transfer_length rq)"
    and "\<forall>b \<in> set bs. length (serialized b) = unat (transfer_length rq)"
    and "sender_run chk scfg lib rq complete bs sent"
    and "link lib rq (r_from rcfg) (r_from_mtu rcfg) (r_batch_receive rcfg) min_nb bs sent b ns"
    and "receiver_run chk rcfg lib rq (on_wire sent ns) devs"
  shows "\<exists>as dss. arrives lib rq min_nb bs b as dss \<and> receiver_threads chk rcfg lib rq dss devs"
proof -
  have "\<forall>b \<in> set bs. 4 \<le> length (serialized b)" using assms(2,3) by simp
  from sender_sends(1) [OF assms(4) this] obtain k where
    "sent = map (Pair (sockaddr (s_to scfg))) (take k (map (rq_serialize lib \<circ> snd) (tagged lib rq bs)))" ..
  from link_arrives [OF assms(1,3) this assms(5)] assms(6) show ?thesis unfolding receiver_run_def by blast
qed

text \<open>Such a receiver exists, over every link.\<close>

lemma receiver_run_exists:
  assumes "sound_code lib rq" and "10 \<le> unat (transfer_length rq)"
    and "\<forall>b \<in> set bs. length (serialized b) = unat (transfer_length rq)"
    and "sender_run chk scfg lib rq complete bs sent"
    and "link lib rq (r_from rcfg) (r_from_mtu rcfg) (r_batch_receive rcfg) (unat m) bs sent b ns"
    and "min_nb_packets chk rq = (Ok m :: (receive_error, u16) res)" and "0 < m" and "0 < r_nb_decode_threads rcfg"
  shows "\<exists>devs. receiver_run chk rcfg lib rq (on_wire sent ns) devs"
proof -
  have "\<forall>b \<in> set bs. 4 \<le> length (serialized b)" using assms(2,3) by simp
  from sender_sends(1) [OF assms(4) this] obtain k where
    "sent = map (Pair (sockaddr (s_to scfg))) (take k (map (rq_serialize lib \<circ> snd) (tagged lib rq bs)))" ..
  from receiver_threads_exist [OF assms(1,3,6,7) link_arrives [OF assms(1,3) this assms(5)] assms(8)]
  show ?thesis unfolding receiver_run_def .
qed

lemma ordered_blocks_transfer:
  "ordered_blocks (Ordered (Some b) # map (\<lambda>c. Ordered (Some (f c))) cs @ [Ordered (Some e), Logged c n h])
    = b # map f cs @ [e]"
  by (induction cs) (simp_all add: ordered_blocks_def)

text \<open>The two ends hash the same bytes, if hashing nothing changes nothing.\<close>

lemma same_hash:
  assumes "\<And>x. h_write hl x [] = x"
  shows "absorbed hl ds h = map_option (h_finish_ext hl) (payloads_absorbed hl ds h)"
proof -
  have "foldl (h_write hl) x ds = foldl (h_write hl) x (filter (\<lambda>d. d \<noteq> []) ds)" for x
    by (induction ds arbitrary: x) (simp_all add: assms)
  then show ?thesis by (simp add: absorbed_def payloads_absorbed_def option.map_comp comp_def)
qed

section \<open>A transfer\<close>

lemma diode_transfer:
  fixes lib :: "('plan, 'cfg, 'pkt) raptorq_lib" and hl :: "'h hasher_lib"
  assumes code: "sound_code lib rq"
    and geometry: "10 \<le> unat (transfer_length rq)" "min_nb_packets chk rq = (Ok m :: (receive_error, u16) res)" "0 < m"
    and blocks: "\<forall>b \<in> set bs. length (serialized b) = unat (transfer_length rq)"
    and sender: "sender_run chk scfg lib rq complete bs sent"
    and client: "\<not> broken client" "length (pending client) < length ks"
      "filter (concerns cid) (drop b bs) = ordered_blocks (fst (client_start chk scfg hl rq cid client
         (\<lambda>_. True) (map (Pair (\<lambda>_. True)) ks)))"
    and link: "link lib rq (r_from rcfg) (r_from_mtu rcfg) (r_batch_receive rcfg) (unat m) bs sent b ns"
    and receiver: "receiver_run chk rcfg lib rq (on_wire sent ns) devs" "0 < r_nb_decode_threads rcfg" "reliable k"
  shows "(complete \<and> 0 < s_nb_encode_threads scfg \<and> s_batch_send scfg \<noteq> Some 0 \<and> small_packets lib (encoded lib rq bs) \<longrightarrow>
      sent = map (Pair (sockaddr (s_to scfg))) (map (rq_serialize lib \<circ> snd) (tagged lib rq bs)))
    \<and> (\<exists>ch hash. opened cid devs = [ch]
      \<and> run (clients_step chk rcfg hl rq) RWaiting
          (Announced (Msg (cid, Ok k)) # map (\<lambda>b. Block_in (Msg b)) (delivered ch devs))
        = ([R_Acquire, R_Logged cid (length (pending client)) hash,
            ClientEnd cid (open_sink\<lparr>sunk := sunk k @ pending client\<rparr>) True, R_Release], Ok (Continue RWaiting))
      \<and> (hash = None \<longleftrightarrow> \<not> r_hash rcfg)
      \<and> (s_hash scfg = r_hash rcfg \<longrightarrow> (\<forall>x. h_write hl x [] = x) \<longrightarrow>
          Logged cid (length (pending client)) hash \<in> set (fst (client_start chk scfg hl rq cid client
            (\<lambda>_. True) (map (Pair (\<lambda>_. True)) ks)))))"
proof
  have "\<forall>b \<in> set bs. 4 \<le> length (serialized b)" using blocks geometry(1) by simp
  then show "complete \<and> 0 < s_nb_encode_threads scfg \<and> s_batch_send scfg \<noteq> Some 0 \<and> small_packets lib (encoded lib rq bs) \<longrightarrow>
      sent = map (Pair (sockaddr (s_to scfg))) (map (rq_serialize lib \<circ> snd) (tagged lib rq bs))"
    using sender_sends(2) [OF sender] by blast
  from diode_arrives [OF code geometry(1) blocks sender link receiver(1)] obtain as dss where
    arr: "arrives lib rq (unat m) bs b as dss" and threads: "receiver_threads chk rcfg lib rq dss devs" by blast
  from client_start_blocks [OF geometry(1) client(1,2), of scfg chk hl cid] obtain chunks rest where
    data: "concat chunks @ rest = pending client" "cut_ok (s_flush scfg) (unat (transfer_length rq) - 9) chunks rest"
    and run: "client_start chk scfg hl rq cid client (\<lambda>_. True) (map (Pair (\<lambda>_. True)) ks) =
        (Ordered (Some (rq_block rq Start cid [])) # map (\<lambda>c. Ordered (Some (rq_block rq Data cid c))) chunks
           @ [Ordered (Some (rq_block rq End cid rest)),
              Logged cid (length (pending client)) (absorbed hl (chunks @ [rest]) (initial_hasher scfg hl))],
         Ok (Return ()))" by blast
  have own: "filter (concerns cid) (drop b bs) =
      rq_block rq Start cid [] # map (rq_block rq Data cid) chunks @ [rq_block rq End cid rest]"
    unfolding client(3) run fst_conv by (rule ordered_blocks_transfer)
  have small: "\<forall>d \<in> set (chunks @ [rest]). length d < 2 ^ 32"
    using data(2) unat_u32_less [of "transfer_length rq"] by (fastforce simp: cut_ok_def)
  have nine: "9 \<le> unat (transfer_length rq)" using geometry(1) by simp
  from receiver_delivers [OF code blocks geometry(2,3) arr receiver(2) threads nine own] obtain ch where
    ch: "opened cid devs = [ch]" "delivered ch devs =
      rq_block rq Start cid [] # map (rq_block rq Data cid) chunks @ [rq_block rq End cid rest]" by auto
  define hash where "hash = map_option (h_finish_ext hl) (payloads_absorbed hl (chunks @ [rest]) (rclient_hasher rcfg hl))"
  have none: "hash = None \<longleftrightarrow> \<not> r_hash rcfg"
    by (simp add: hash_def payloads_absorbed_def rclient_hasher_def)
  have "transfer_events rcfg hl cid k (chunks @ [rest]) True =
      [R_Logged cid (length (pending client)) hash, ClientEnd cid (open_sink\<lparr>sunk := sunk k @ pending client\<rparr>) True]"
    by (simp add: transfer_events_def hash_def flip: data(1))
  then have out: "run (clients_step chk rcfg hl rq) RWaiting
      (Announced (Msg (cid, Ok k)) # map (\<lambda>b. Block_in (Msg b)) (delivered ch devs))
    = ([R_Acquire, R_Logged cid (length (pending client)) hash,
        ClientEnd cid (open_sink\<lparr>sunk := sunk k @ pending client\<rparr>) True, R_Release], Ok (Continue RWaiting))"
    using clients_transfer [OF _ receiver(3) small, of rq chk rcfg hl cid True] geometry(1) by (simp add: ch(2))
  have "Logged cid (length (pending client)) hash \<in> set (fst (client_start chk scfg hl rq cid client
      (\<lambda>_. True) (map (Pair (\<lambda>_. True)) ks)))" if "s_hash scfg = r_hash rcfg" "\<forall>x. h_write hl x [] = x"
  proof -
    have "initial_hasher scfg hl = rclient_hasher rcfg hl"
      using that(1) by (simp add: initial_hasher_def rclient_hasher_def)
    then show ?thesis using same_hash [of hl] that(2) by (simp add: run hash_def)
  qed
  then show "\<exists>ch hash. opened cid devs = [ch]
      \<and> run (clients_step chk rcfg hl rq) RWaiting
          (Announced (Msg (cid, Ok k)) # map (\<lambda>b. Block_in (Msg b)) (delivered ch devs))
        = ([R_Acquire, R_Logged cid (length (pending client)) hash,
            ClientEnd cid (open_sink\<lparr>sunk := sunk k @ pending client\<rparr>) True, R_Release], Ok (Continue RWaiting))
      \<and> (hash = None \<longleftrightarrow> \<not> r_hash rcfg)
      \<and> (s_hash scfg = r_hash rcfg \<longrightarrow> (\<forall>x. h_write hl x [] = x) \<longrightarrow>
          Logged cid (length (pending client)) hash \<in> set (fst (client_start chk scfg hl rq cid client
            (\<lambda>_. True) (map (Pair (\<lambda>_. True)) ks))))"
    using ch(1) out none by blast
qed

text \<open>A transfer as a server thread of the sender serves it, whether the client's connection breaks or not.\<close>

lemma served_blocks:
  assumes "10 \<le> unat (transfer_length rq)" and "length (pending client) < length ks"
  shows "\<exists>chunks rest lost. concat (chunks @ [rest]) @ lost = pending client
    \<and> cut_ok (s_flush scfg) (unat (transfer_length rq) - 9) chunks (rest @ lost)
    \<and> (\<forall>d \<in> set (chunks @ [rest]). length d < 2 ^ 32)
    \<and> (if broken client then length lost < unat (transfer_length rq) - 9 else lost = [])
    \<and> ordered_blocks (fst (run (server_step chk scfg hl rq) (Waiting, cid)
        ((\<lambda>_. True, Accept (Msg (Some client))) # map (\<lambda>k. (\<lambda>_. True, Ready k)) ks)))
      = rq_block rq Start cid [] # map (rq_block rq Data cid) chunks
          @ [rq_block rq (if \<not> broken client then End else Abort) cid rest]"
proof -
  from server_serves_client [OF assms, of scfg chk hl cid] obtain chunks rest where
    data: "concat chunks @ rest = pending client" "cut_ok (s_flush scfg) (unat (transfer_length rq) - 9) chunks rest"
    and run: "run (server_step chk scfg hl rq) (Waiting, cid)
        ((\<lambda>_. True, Accept (Msg (Some client))) # map (\<lambda>k. (\<lambda>_. True, Ready k)) ks)
      = (let out = (served rq cid (unat (transfer_length rq) - 9) (cid + 1)
             (transfer_outcome rq cid (broken client) chunks rest (length (pending client))
               (absorbed hl (chunks @ [rest]) (initial_hasher scfg hl)))
             :: (send_event, send_error, (_ server_pc \<times> u32, unit) flow) act)
         in ([Acquire, Ordered (Some (rq_block rq Start cid []))] @ fst out, snd out))" by blast
  have ordered: "ordered_blocks (map (\<lambda>c. Ordered (Some (f c))) cs @ evs) = map f cs @ ordered_blocks evs"
    for f :: "bytes \<Rightarrow> block" and cs evs
    by (induction cs) (simp_all add: ordered_blocks_def)
  have small: "\<forall>d \<in> set (chunks @ [rest]). length d < 2 ^ 32"
    using data(2) unat_u32_less [of "transfer_length rq"] by (fastforce simp: cut_ok_def)
  show ?thesis
  proof (cases "broken client")
    case True
    have "ordered_blocks (fst (run (server_step chk scfg hl rq) (Waiting, cid)
        ((\<lambda>_. True, Accept (Msg (Some client))) # map (\<lambda>k. (\<lambda>_. True, Ready k)) ks)))
      = rq_block rq Start cid [] # map (rq_block rq Data cid) chunks @ [rq_block rq Abort cid []]"
      unfolding run using True ordered [of "rq_block rq Data cid" chunks]
      by (simp add: Let_def transfer_outcome_def served_def) (simp add: ordered_blocks_def)
    then show ?thesis
      using True data small by (intro exI [of _ chunks] exI [of _ "[]"] exI [of _ rest]) (auto simp: cut_ok_def)
  next
    case False
    have "ordered_blocks (fst (run (server_step chk scfg hl rq) (Waiting, cid)
        ((\<lambda>_. True, Accept (Msg (Some client))) # map (\<lambda>k. (\<lambda>_. True, Ready k)) ks)))
      = rq_block rq Start cid [] # map (rq_block rq Data cid) chunks @ [rq_block rq End cid rest]"
      unfolding run using False ordered [of "rq_block rq Data cid" chunks]
      by (simp add: Let_def transfer_outcome_def served_def body_events_def) (simp add: ordered_blocks_def)
    then show ?thesis
      using False data small by (intro exI [of _ chunks] exI [of _ rest] exI [of _ "[]"]) auto
  qed
qed

lemma diode_serves:
  fixes lib :: "('plan, 'cfg, 'pkt) raptorq_lib" and hl :: "'h hasher_lib"
  assumes code: "sound_code lib rq"
    and geometry: "10 \<le> unat (transfer_length rq)" "min_nb_packets chk rq = (Ok m :: (receive_error, u16) res)" "0 < m"
    and blocks: "\<forall>b \<in> set bs. length (serialized b) = unat (transfer_length rq)"
    and client: "length (pending client) < length ks"
      "filter (concerns cid) (drop b bs) = ordered_blocks (fst (run (server_step chk scfg hl rq) (Waiting, cid)
        ((\<lambda>_. True, Accept (Msg (Some client))) # map (\<lambda>k. (\<lambda>_. True, Ready k)) ks)))"
    and sender: "sender_run chk scfg lib rq complete bs sent"
    and link: "link lib rq (r_from rcfg) (r_from_mtu rcfg) (r_batch_receive rcfg) (unat m) bs sent b ns"
    and receiver: "receiver_run chk rcfg lib rq (on_wire sent ns) devs" "0 < r_nb_decode_threads rcfg" "reliable k"
  shows "\<exists>ch got lost hash. got @ lost = pending client
    \<and> (if broken client then length lost < unat (transfer_length rq) - 9 else lost = [])
    \<and> opened cid devs = [ch]
    \<and> run (clients_step chk rcfg hl rq) RWaiting
          (Announced (Msg (cid, Ok k)) # map (\<lambda>b. Block_in (Msg b)) (delivered ch devs))
        = (R_Acquire # (if broken client then [] else [R_Logged cid (length got) hash])
             @ [ClientEnd cid (open_sink\<lparr>sunk := sunk k @ got\<rparr>) (\<not> broken client), R_Release],
           Ok (Continue RWaiting))"
proof -
  from diode_arrives [OF code geometry(1) blocks sender link receiver(1)] obtain as dss where
    arr: "arrives lib rq (unat m) bs b as dss" and threads: "receiver_threads chk rcfg lib rq dss devs" by blast
  from served_blocks [OF geometry(1) client(1), of scfg chk hl cid] obtain chunks rest lost where
    data: "concat (chunks @ [rest]) @ lost = pending client" "\<forall>d \<in> set (chunks @ [rest]). length d < 2 ^ 32"
      "if broken client then length lost < unat (transfer_length rq) - 9 else lost = []"
    and own: "filter (concerns cid) (drop b bs) = rq_block rq Start cid [] # map (rq_block rq Data cid) chunks
          @ [rq_block rq (if \<not> broken client then End else Abort) cid rest]"
    unfolding client(2) by blast
  have nine: "9 \<le> unat (transfer_length rq)" using geometry(1) by simp
  from receiver_delivers [OF code blocks geometry(2,3) arr receiver(2) threads nine own] obtain ch where
    ch: "opened cid devs = [ch]" "delivered ch devs = rq_block rq Start cid [] # map (rq_block rq Data cid) chunks
          @ [rq_block rq (if \<not> broken client then End else Abort) cid rest]"
    by (cases "broken client") auto
  let ?got = "concat (chunks @ [rest])"
  have "run (clients_step chk rcfg hl rq) RWaiting
      (Announced (Msg (cid, Ok k)) # map (\<lambda>b. Block_in (Msg b)) (delivered ch devs))
    = (R_Acquire # transfer_events rcfg hl cid k (chunks @ [rest]) (\<not> broken client) @ [R_Release], Ok (Continue RWaiting))"
    unfolding ch(2) by (rule clients_transfer [OF nine receiver(3) data(2)])
  moreover have "transfer_events rcfg hl cid k (chunks @ [rest]) (\<not> broken client) =
      (if broken client then [] else [R_Logged cid (length ?got)
         (map_option (h_finish_ext hl) (payloads_absorbed hl (chunks @ [rest]) (rclient_hasher rcfg hl)))])
      @ [ClientEnd cid (open_sink\<lparr>sunk := sunk k @ ?got\<rparr>) (\<not> broken client)]"
    by (simp only: transfer_events_def) simp
  ultimately show ?thesis
    using data(1,3) ch(1) by (intro exI [of _ ch] exI [of _ ?got] exI [of _ lost]) auto
qed

section \<open>Concrete runs for the witnesses\<close>

text \<open>Links whose blocks are two packets of the sample code, and a transfer that fits one block.\<close>

definition pair_rq :: "(unit, u64 \<times> u16) raptorq \<Rightarrow> bool" where
  "pair_rq rq \<longleftrightarrow> unat (fst (config rq)) div unat (snd (config rq)) = 2 \<and> symbol_count rq = 2
     \<and> nb_repair_packets rq = 0 \<and> min_nb_repair_packets rq = 0"

definition pair_blocks :: "(unit, u64 \<times> u16) raptorq \<Rightarrow> client_id \<Rightarrow> block_type \<Rightarrow> bytes \<Rightarrow> block list" where
  "pair_blocks rq cid t d = [rq_block rq Start cid [], rq_block rq t cid d]"

definition pair_arrivals :: "(unit, u64 \<times> u16) raptorq \<Rightarrow> client_id \<Rightarrow> block_type \<Rightarrow> bytes \<Rightarrow> (int \<times> sample_packet) list" where
  "pair_arrivals rq cid t d = tagged sample_lib rq (pair_blocks rq cid t d)"

lemma pair_encode: "pair_rq rq \<Longrightarrow> encode sample_lib rq i d = [(i, 0, d), (i, 1, d)]"
  by (simp add: encode_def sample_lib_def pair_rq_def upt_rec)

lemma pair_sound:
  assumes "pair_rq rq"
  shows "sound_code sample_lib rq"
  unfolding sound_code_def pair_encode [OF assms]
  by (auto simp: sample_lib_def decode_def split: list.splits)

lemma pair_tagged:
  "pair_rq rq \<Longrightarrow> pair_arrivals rq cid t d =
    [(0, 0, 0, serialized (rq_block rq Start cid [])), (0, 0, 1, serialized (rq_block rq Start cid [])),
     (1, 1, 0, serialized (rq_block rq t cid d)), (1, 1, 1, serialized (rq_block rq t cid d))]"
  by (simp add: pair_arrivals_def tagged_def encoded_def pair_blocks_def pair_encode)

lemma pair_lengths:
  assumes "length d + 9 \<le> unat (transfer_length rq)"
  shows "\<forall>b \<in> set (pair_blocks rq cid t d). length (serialized b) = unat (transfer_length rq)"
  using assms by (auto simp: pair_blocks_def rq_block_def length_block_layout)

lemma pair_small:
  assumes "pair_rq rq" and "length d + 9 \<le> unat (transfer_length rq)" and "unat (transfer_length rq) < 2 ^ 31"
  shows "small_packets sample_lib (encoded sample_lib rq (pair_blocks rq cid t d))"
proof -
  have "length (rq_serialize sample_lib (i, j, e)) = 5 + length e" for i j e
    by (simp add: sample_lib_def)
  then show ?thesis
    using pair_lengths [OF assms(2)] assms(3)
    by (auto simp: small_packets_def encoded_def pair_encode [OF assms(1)] pair_blocks_def)
qed

lemma pair_min: "pair_rq rq \<Longrightarrow> min_nb_packets chk rq = Ok 2"
  by (simp add: min_nb_packets_def pair_rq_def add_chk_def)

definition pair_sent :: "socket_addr \<Rightarrow> (unit, u64 \<times> u16) raptorq \<Rightarrow> client_id \<Rightarrow> block_type \<Rightarrow> bytes \<Rightarrow> (bytes \<times> bytes) list" where
  "pair_sent a rq cid t d = map (Pair (sockaddr a)) (map (rq_serialize sample_lib \<circ> snd) (pair_arrivals rq cid t d))"

text \<open>Every datagram arrives, each with a call of its own.\<close>

definition pair_positions :: "nat list list" where
  "pair_positions = [[0], [1], [2], [3]]"

lemma pair_link:
  assumes "pair_rq rq" and "length d + 9 \<le> unat (transfer_length rq)" and "unat (transfer_length rq) + 5 \<le> unat mtu"
  shows "link sample_lib rq listen mtu None 2 (pair_blocks rq cid t d) (pair_sent listen rq cid t d) 0 pair_positions"
proof -
  note tg = pair_tagged [OF assms(1), of cid t d]
  have two: "length (pair_blocks rq cid t d) = 2" by (simp add: pair_blocks_def)
  have upt: "[0..<127] = 0 # 1 # 2 # [3..<127]" by (simp add: upt_conv_Cons)
  have round: "rq_deserialize sample_lib (rq_serialize sample_lib p) = Some p" for p
    by (cases p) (simp add: sample_lib_def)
  have as: "arrivals_at sample_lib rq (pair_blocks rq cid t d) (pair_sent listen rq cid t d) pair_positions
      = map (\<lambda>p. [p]) (pair_arrivals rq cid t d)"
    unfolding arrivals_at_def pair_sent_def pair_positions_def pair_arrivals_def [symmetric] tg by (simp add: round)
  have "length (arrivals_of (int i) (pair_arrivals rq cid t d)) = 2" if "i < 2" for i
    using that by (auto simp: tg arrivals_of_def less_2_cases_iff)
  moreover have "decode sample_lib rq i (p # ps) \<noteq> None" for i p ps
    by (simp add: decode_def sample_lib_def split: prod.splits)
  then have "2 \<le> length ps \<Longrightarrow> decode sample_lib rq i ps \<noteq> None" for i ps
    by (cases ps) auto
  moreover have "timely 2 (reorder_init (int 0)) (map (\<lambda>p. [p]) (pair_arrivals rq cid t d))"
    by (simp add: tg on_time_def reorder_init_def reorder_step_def reorder_push_def full_blocks_def upt Let_def)
  moreover have "concat (map (\<lambda>p. [p]) xs) = xs" for xs :: "'z list" by (induction xs) auto
  ultimately have "decodable_from sample_lib rq 2 (pair_blocks rq cid t d) 0 (map (\<lambda>p. [p]) (pair_arrivals rq cid t d))"
    by (simp add: decodable_from_def two) (simp add: tg)
  moreover have "length (snd ds) \<le> unat mtu \<and> fst ds = sockaddr listen" if "ds \<in> set (pair_sent listen rq cid t d)" for ds
  proof -
    have "length (rq_serialize sample_lib (i, j, e)) = 5 + length e" for i j e by (simp add: sample_lib_def)
    then show ?thesis
      using that assms(2,3) by (auto simp: pair_sent_def tg rq_block_def length_block_layout)
  qed
  moreover have "length (pair_sent listen rq cid t d) = 4" by (simp add: pair_sent_def tg)
  ultimately show ?thesis
    unfolding link_def as by (auto simp: pair_positions_def receive_batch_def less_Suc_eq)
qed

text \<open>The sender of the sample configuration does send them.\<close>

lemma pair_sender:
  assumes "pair_rq rq" and "length d + 9 \<le> unat (transfer_length rq)" and "unat (transfer_length rq) < 2 ^ 31"
    and "0 < s_nb_encode_threads cfg" and "s_batch_send cfg \<noteq> Some 0"
  shows "sender_run chk cfg sample_lib rq True (pair_blocks rq cid t d) (pair_sent (s_to cfg) rq cid t d)"
proof -
  have len: "\<forall>b \<in> set (pair_blocks rq cid t d). 4 \<le> length (serialized b)"
    using pair_lengths [OF assms(2)] assms(2) by simp
  from sender_run_exists [OF len assms(4)] obtain sent where
    sent: "sender_run chk cfg sample_lib rq True (pair_blocks rq cid t d) sent" by blast
  from sender_sends(2) [OF this len _ assms(4,5) pair_small [OF assms(1-3)]]
  have "sent = pair_sent (s_to cfg) rq cid t d" by (simp add: pair_sent_def pair_arrivals_def)
  with sent show ?thesis by simp
qed

lemma pair_receiver:
  assumes "pair_rq rq" and "length d + 9 \<le> unat (transfer_length rq)" and "unat (transfer_length rq) + 5 \<le> unat (r_from_mtu rcfg)"
    and "r_batch_receive rcfg = None" and "0 < r_nb_decode_threads rcfg" and "10 \<le> unat (transfer_length rq)"
    and "sender_run chk scfg sample_lib rq complete (pair_blocks rq cid t d) (pair_sent (r_from rcfg) rq cid t d)"
  shows "\<exists>devs. receiver_run chk rcfg sample_lib rq (on_wire (pair_sent (r_from rcfg) rq cid t d) pair_positions) devs"
proof -
  have "link sample_lib rq (r_from rcfg) (r_from_mtu rcfg) (r_batch_receive rcfg) (unat (2 :: u16)) (pair_blocks rq cid t d)
      (pair_sent (r_from rcfg) rq cid t d) 0 pair_positions"
    using pair_link [OF assms(1-3)] assms(4) by simp
  from receiver_run_exists [OF pair_sound [OF assms(1)] assms(6) pair_lengths [OF assms(2)] assms(7) this
      pair_min [OF assms(1)] _ assms(5)] show ?thesis by simp
qed

text \<open>A sender, a link and a receiver that go with each other.\<close>

lemma pair_world:
  assumes "pair_rq rq" and "10 \<le> unat (transfer_length rq)" and "length d + 9 \<le> unat (transfer_length rq)"
    and "unat (transfer_length rq) + 5 \<le> unat (r_from_mtu rcfg)" and "r_from rcfg = s_to scfg" and "r_batch_receive rcfg = None"
    and "0 < r_nb_decode_threads rcfg" and "0 < s_nb_encode_threads scfg" and "s_batch_send scfg \<noteq> Some 0"
  shows "sender_run chk scfg sample_lib rq True (pair_blocks rq cid t d) (pair_sent (s_to scfg) rq cid t d)"
    and "link sample_lib rq (r_from rcfg) (r_from_mtu rcfg) (r_batch_receive rcfg) (unat (2 :: u16)) (pair_blocks rq cid t d)
      (pair_sent (s_to scfg) rq cid t d) 0 pair_positions"
    and "\<exists>devs. receiver_run chk rcfg sample_lib rq (on_wire (pair_sent (s_to scfg) rq cid t d) pair_positions) devs"
proof -
  have "unat (transfer_length rq) < 2 ^ 31" using assms(4) unat_u16_less [of "r_from_mtu rcfg"] by simp
  then show sent: "sender_run chk scfg sample_lib rq True (pair_blocks rq cid t d) (pair_sent (s_to scfg) rq cid t d)"
    by (rule pair_sender [OF assms(1,3) _ assms(8,9)])
  show "link sample_lib rq (r_from rcfg) (r_from_mtu rcfg) (r_batch_receive rcfg) (unat (2 :: u16)) (pair_blocks rq cid t d)
      (pair_sent (s_to scfg) rq cid t d) 0 pair_positions"
    using pair_link [OF assms(1,3,4), of "r_from rcfg" cid t] assms(5,6) by simp
  show "\<exists>devs. receiver_run chk rcfg sample_lib rq (on_wire (pair_sent (s_to scfg) rq cid t d) pair_positions) devs"
    using pair_receiver [OF assms(1,3,4,6,7,2)] sent unfolding assms(5) .
qed

lemma short_transfer:
  assumes "\<not> s_flush cfg" and "length (pending client) + 9 < unat (transfer_length rq)"
    and "\<not> broken client" and "length (pending client) < length ks"
  shows "ordered_blocks (fst (client_start chk cfg hl rq cid client (\<lambda>_. True) (map (Pair (\<lambda>_. True)) ks)))
    = [rq_block rq Start cid [], rq_block rq End cid (pending client)]"
proof -
  from client_start_blocks [of rq client ks cfg chk hl cid] assms
  obtain chunks rest where d: "concat chunks @ rest = pending client"
      "cut_ok False (unat (transfer_length rq) - 9) chunks rest"
    and run: "client_start chk cfg hl rq cid client (\<lambda>_. True) (map (Pair (\<lambda>_. True)) ks) =
        (Ordered (Some (rq_block rq Start cid [])) # map (\<lambda>c. Ordered (Some (rq_block rq Data cid c))) chunks
           @ [Ordered (Some (rq_block rq End cid rest)),
              Logged cid (length (pending client)) (absorbed hl (chunks @ [rest]) (initial_hasher cfg hl))],
         Ok (Return ()))"
    by auto
  have "pieces (unat (transfer_length rq) - 9) (pending client) = (chunks, rest)"
    using cut_unique [OF d(2)] d(1) assms(2) by simp
  then have "chunks = []" "rest = pending client" using assms(2) by (simp_all add: pieces_short)
  then show ?thesis unfolding run fst_conv by (simp add: ordered_blocks_def)
qed

lemma short_served:
  assumes "\<not> s_flush scfg" and "length (pending client) + 9 < unat (transfer_length rq)"
    and "\<not> broken client" and "length (pending client) < length ks"
  shows "ordered_blocks (fst (run (server_step chk scfg hl rq) (Waiting, cid)
        ((\<lambda>_. True, Accept (Msg (Some client))) # map (\<lambda>k. (\<lambda>_. True, Ready k)) ks)))
    = [rq_block rq Start cid [], rq_block rq End cid (pending client)]"
proof -
  have "10 \<le> unat (transfer_length rq)" using assms(2) by simp
  from served_blocks [OF this assms(4), of scfg chk hl cid] assms(1,3) obtain chunks rest where
    d: "concat chunks @ rest = pending client" "cut_ok False (unat (transfer_length rq) - 9) chunks rest"
    and run: "ordered_blocks (fst (run (server_step chk scfg hl rq) (Waiting, cid)
        ((\<lambda>_. True, Accept (Msg (Some client))) # map (\<lambda>k. (\<lambda>_. True, Ready k)) ks)))
      = rq_block rq Start cid [] # map (rq_block rq Data cid) chunks @ [rq_block rq End cid rest]"
    by (auto simp del: run.simps list.map)
  have "pieces (unat (transfer_length rq) - 9) (pending client) = (chunks, rest)"
    using cut_unique [OF d(2)] d(1) by simp
  then have "chunks = []" "rest = pending client" using assms(2) by (simp_all add: pieces_short)
  then show ?thesis unfolding run by simp
qed

text \<open>Client 7 sends three bytes over the small link: two blocks.\<close>

definition sample_blocks :: "block list" where
  "sample_blocks = pair_blocks small_rq 7 End [1, 2, 3]"

lemma small_pair: "pair_rq small_rq"
  by (simp add: pair_rq_def small_rq_def)

lemmas sample_encode = pair_encode [OF small_pair]
lemmas sample_sound = pair_sound [OF small_pair]
lemmas sample_min = pair_min [OF small_pair]

lemma sample_lengths: "\<forall>b \<in> set sample_blocks. length (serialized b) = unat (transfer_length small_rq)"
  unfolding sample_blocks_def by (rule pair_lengths) (simp add: small_rq_def)

lemma sample_small: "small_packets sample_lib (encoded sample_lib small_rq sample_blocks)"
  unfolding sample_blocks_def by (rule pair_small [OF small_pair]) (simp_all add: small_rq_def)

lemma sample_transfer:
  "\<not> s_flush cfg \<Longrightarrow> ordered_blocks (fst (client_start chk cfg sample_hasher small_rq 7
      \<lparr>pending = [1, 2, 3], broken = False\<rparr> (\<lambda>_. True) (map (Pair (\<lambda>_. True)) [3, 1, 1, 1]))) = sample_blocks"
  using short_transfer [of cfg "\<lparr>pending = [1, 2, 3], broken = False\<rparr>" small_rq "[3, 1, 1, 1]" chk sample_hasher 7]
  by (simp add: sample_blocks_def pair_blocks_def small_rq_def)

end
