(* ===== verification/Logger.thy ===== *)
theory Logger
  imports Bytes
begin

text \<open>
  \<open>init_logger\<close> of \<open>src/lib.rs\<close>, which every program calls first. The logging crates \<open>log\<close> and \<open>simplelog\<close> are
  third-party code: their enumerations are named here, and what their calls answer is an input. The event is the
  logger that gets installed.
\<close>

datatype level_filter = L_Off | L_Error | L_Warn | L_Info | L_Debug | L_Trace

text \<open>The levels are ordered as in \<open>log\<close>: what is logged at a level is logged at every later one.\<close>

primrec verbosity :: "level_filter \<Rightarrow> nat" where
  "verbosity L_Off = 0"
| "verbosity L_Error = 1"
| "verbosity L_Warn = 2"
| "verbosity L_Info = 3"
| "verbosity L_Debug = 4"
| "verbosity L_Trace = 5"

lemma verbosity_inject: "verbosity a = verbosity b \<longleftrightarrow> a = b"
  by (cases a; cases b) simp_all

instantiation level_filter :: linorder
begin

definition less_eq_level_filter :: "level_filter \<Rightarrow> level_filter \<Rightarrow> bool" where
  "less_eq_level_filter a b \<longleftrightarrow> verbosity a \<le> verbosity b"

definition less_level_filter :: "level_filter \<Rightarrow> level_filter \<Rightarrow> bool" where
  "less_level_filter a b \<longleftrightarrow> verbosity a < verbosity b"

instance
  by standard (auto simp: less_eq_level_filter_def less_level_filter_def simp flip: verbosity_inject)

end

datatype level_padding = Padding_Left | Padding_Right | Padding_Off
datatype thread_log_mode = Thread_IDs | Thread_Names | Thread_Both
datatype time_format = Rfc2822 | Rfc3339 | Custom_format string
datatype terminal_mode = To_stdout | To_stderr | Mixed
datatype color_choice = Color_always | Color_always_ansi | Color_auto | Color_never

record log_config =
  lc_level_padding :: level_padding
  lc_target_level :: level_filter
  lc_thread_level :: level_filter
  lc_thread_mode :: thread_log_mode
  lc_time_format :: time_format
  lc_local_time :: bool

datatype logger =
    WriteLogger level_filter log_config bytes
  | TermLogger level_filter log_config terminal_mode color_choice

text \<open>
  The answers: whether the local time zone is known, and the errors, if any, of opening the log file and of
  installing a logger. When the zone is not known the builder goes on as it was.
\<close>

record logger_env =
  le_local_offset :: bool
  le_open :: "bytes \<Rightarrow> string option"
  le_install :: "logger \<Rightarrow> string option"

definition answered :: "string option \<Rightarrow> (string, unit) res" where
  "answered e = (case e of None \<Rightarrow> Ok () | Some text \<Rightarrow> Err text)"

definition init_logger ::
  "logger_env \<Rightarrow> level_filter \<Rightarrow> bytes option \<Rightarrow> bool \<Rightarrow> (logger, string, unit) act"
where
  "init_logger env level_filter log_file stderr_only =
     (let terminal_mode = (if stderr_only then To_stderr else Mixed);
          cfg = \<lparr>lc_level_padding = Padding_Right, lc_target_level = L_Off, lc_thread_level = level_filter,
            lc_thread_mode = Thread_Names, lc_time_format = Rfc2822, lc_local_time = le_local_offset env\<rparr>;
          install = (\<lambda>l. bind_act (lift (answered (le_install env l))) (\<lambda>_. ([l], Ok ()))) in
      case log_file of
        Some path \<Rightarrow> bind_act (lift (answered (le_open env path))) (\<lambda>_. install (WriteLogger level_filter cfg path))
      | None \<Rightarrow> install (TermLogger level_filter cfg terminal_mode Color_auto))"

text \<open>What \<open>main\<close> learns of it.\<close>

definition logger_started :: "logger_env \<Rightarrow> level_filter \<Rightarrow> bytes option \<Rightarrow> bool \<Rightarrow> (string, unit) res" where
  "logger_started env level_filter log_file stderr_only = snd (init_logger env level_filter log_file stderr_only)"

text \<open>It succeeds exactly when one logger is installed, and this one has the level and the target asked for.\<close>

lemma init_logger_installs:
  "init_logger env level_filter log_file stderr_only = (ls, r) \<Longrightarrow>
   (case r of
      Ok _ \<Rightarrow> \<exists>cfg. lc_thread_level cfg = level_filter \<and> ls =
        [case log_file of None \<Rightarrow> TermLogger level_filter cfg (if stderr_only then To_stderr else Mixed) Color_auto
         | Some path \<Rightarrow> WriteLogger level_filter cfg path]
    | Err _ \<Rightarrow> ls = []
    | _ \<Rightarrow> False)"
  by (auto simp: init_logger_def answered_def act_simps lift_def Let_def split: option.splits if_splits)

lemma logger_started_outcome: "logger_started env level_filter log_file stderr_only \<in> {Ok ()} \<union> range Err"
  using init_logger_installs [of env level_filter log_file stderr_only]
  by (cases "init_logger env level_filter log_file stderr_only"; cases "logger_started env level_filter log_file stderr_only")
    (auto simp: logger_started_def)

text \<open>A world in which nothing fails.\<close>

definition working_logger :: logger_env where
  "working_logger = \<lparr>le_local_offset = True, le_open = (\<lambda>_. None), le_install = (\<lambda>_. None)\<rparr>"

lemma working_logger_starts [simp]: "logger_started working_logger level_filter log_file stderr_only = Ok ()"
  by (cases log_file)
    (simp_all add: logger_started_def init_logger_def working_logger_def answered_def lift_def Let_def act_simps)

end
