(* ===== verification/Programs.thy ===== *)
theory Programs
  imports Diode Logger
begin

text \<open>
  The programs in \<open>src/bin\<close> that run a sender or a receiver: \<open>diode-send\<close>, \<open>diode-receive\<close>,
  \<open>diode-oneshot-send\<close> and \<open>diode-oneshot-receive\<close>.

  A record holds the arguments that \<open>main\<close> uses, as the command line parser of the \<open>clap\<close> crate delivers
  them; the defaults are those of its annotations. What the system answers
  (sockets, threads, the semaphore, the logger) is an input. A \<open>main\<close> that logs an error and returns is an
  \<open>Err\<close>; the process then still exits with status 0. The events are the threads that it starts and the
  messages that it sends.
\<close>

section \<open>Durations\<close>

datatype parse_int_error = PE_Empty | PE_InvalidDigit | PE_PosOverflow

text \<open>\<open>str::parse::<u64>\<close>.\<close>

definition digit_of :: "char \<Rightarrow> nat option" where
  "digit_of c = (let n = of_char c in if 48 \<le> n \<and> n \<le> 57 then Some (n - 48) else None)"

fun parse_digits :: "nat \<Rightarrow> string \<Rightarrow> (parse_int_error, nat) res" where
  "parse_digits acc [] = Ok acc"
| "parse_digits acc (c # cs) =
     (case digit_of c of
        None \<Rightarrow> Err PE_InvalidDigit
      | Some d \<Rightarrow> if 2 ^ 64 \<le> acc * 10 + d then Err PE_PosOverflow else parse_digits (acc * 10 + d) cs)"

fun parse_u64 :: "string \<Rightarrow> (parse_int_error, nat) res" where
  "parse_u64 [] = Err PE_Empty"
| "parse_u64 [c] = parse_digits 0 [c]"
| "parse_u64 (c # cs) = (if c = CHR ''+'' then parse_digits 0 cs else parse_digits 0 (c # cs))"

text \<open>In nanoseconds, as durations are counted throughout.\<close>

definition parse_duration_seconds :: "string \<Rightarrow> (parse_int_error, nat) res" where
  "parse_duration_seconds input = and_then (parse_u64 input) (\<lambda>n. Ok (n * 10 ^ 9))"

definition default_duration :: "string \<Rightarrow> nat option" where
  "default_duration input = (case parse_duration_seconds input of Ok d \<Rightarrow> Some d | _ \<Rightarrow> None)"

section \<open>Addresses on the command line\<close>

text \<open>At least one of the listeners of \<open>diode-send\<close>, exactly one of the clients of the others.\<close>

record listeners =
  ls_from_tcp :: "socket_addr option"
  ls_from_unix :: "bytes option"

record clients_arg =
  ca_to_tcp :: "socket_addr option"
  ca_to_unix :: "bytes option"

definition listeners_group :: "listeners \<Rightarrow> bool" where
  "listeners_group l \<longleftrightarrow> ls_from_tcp l \<noteq> None \<or> ls_from_unix l \<noteq> None"

definition clients_group :: "clients_arg \<Rightarrow> bool" where
  "clients_group c \<longleftrightarrow> (ca_to_tcp c = None) \<noteq> (ca_to_unix c = None)"

definition UNSPECIFIED :: socket_addr where "UNSPECIFIED = V4 (0, 0, 0, 0) 0"

section \<open>\<open>diode-send\<close>\<close>

record send_args =
  as_log_level :: level_filter
  as_log_file :: "bytes option"
  as_from :: listeners
  as_max_clients :: u32
  as_encode_threads :: u8
  as_heartbeat :: "nat option"
  as_flush :: bool
  as_to :: socket_addr
  as_to_bind :: socket_addr
  as_to_mtu :: u16
  as_batch :: "u32 option"
  as_block :: u32
  as_repair :: u32
  as_cpu_affinity :: bool
  as_hash :: bool

definition send_args_default :: "listeners \<Rightarrow> socket_addr \<Rightarrow> send_args" where
  "send_args_default from_arg to_arg =
     \<lparr>as_log_level = L_Info, as_log_file = None, as_from = from_arg, as_max_clients = 2, as_encode_threads = 1, as_heartbeat = default_duration ''5'',
      as_flush = False, as_to = to_arg, as_to_bind = UNSPECIFIED, as_to_mtu = 1500, as_batch = None,
      as_block = 734928, as_repair = 2, as_cpu_affinity = False, as_hash = False\<rparr>"

text \<open>The clients, and \<open>read\<close> on them.\<close>

datatype 'c client = Tcp_client 'c | Unix_client 'c

fun client_read :: "nat \<Rightarrow> nat \<Rightarrow> stream client \<Rightarrow> (io_error, bytes \<times> stream client) res" where
  "client_read ready n (Tcp_client s) = and_then (read ready n s) (\<lambda>(data, s). Ok (data, Tcp_client s))"
| "client_read ready n (Unix_client s) = and_then (read ready n s) (\<lambda>(data, s). Ok (data, Unix_client s))"

text \<open>
  The two listener threads: an input is whether the client channel is open and the answer of \<open>accept\<close>. A client that
  cannot be queued is logged and dropped.
\<close>

definition listener_step ::
  "('c \<Rightarrow> 'c client) \<Rightarrow> ('c client option \<Rightarrow> bool) \<times> (io_error, 'c) res \<Rightarrow>
   ('c client option, unit, (unit, unit) flow) act"
where
  "listener_step wrap input =
     (case input of (up, answer) \<Rightarrow>
        (case answer of
           Ok c \<Rightarrow> (fst (new_client up (wrap c)), Ok (Continue ()))
         | Err _ \<Rightarrow> ret (Return ())
         | Panic \<Rightarrow> lift Panic
         | Diverges \<Rightarrow> lift Diverges))"

definition unix_listener_loop where
  "unix_listener_loop inputs = run (\<lambda>_. listener_step Unix_client) () inputs"

definition tcp_listener_loop where
  "tcp_listener_loop inputs = run (\<lambda>_. listener_step Tcp_client) () inputs"

datatype main_error = M_Logger string | M_Protocol protocol_error | M_Send send_error | M_Receive receive_error | M_Listener string

datatype 'core send_thread =
    Tcp_server socket_addr
  | Unix_server bytes
  | Send_worker send_worker "'core option"

record 'core send_env =
  se_logger :: logger_env
  se_semaphore :: bool
  se_bind_tcp :: "socket_addr \<Rightarrow> bool"
  se_exists :: "bytes \<Rightarrow> bool"
  se_bind_unix :: "bytes \<Rightarrow> bool"
  se_spawn_listener :: "'core send_thread \<Rightarrow> bool"
  se_spawn_worker :: "send_worker \<Rightarrow> bool"
  se_core_ids :: "'core list option"

definition send_args_config :: "send_args \<Rightarrow> send_config" where
  "send_args_config args =
     \<lparr>s_max_clients = as_max_clients args, s_flush = as_flush args, s_nb_encode_threads = as_encode_threads args,
      s_heartbeat_interval = as_heartbeat args, s_to = as_to args, s_to_bind = as_to_bind args,
      s_to_mtu = as_to_mtu args, s_batch_send = as_batch args, s_cpu_affinity = as_cpu_affinity args,
      s_hash = as_hash args\<rparr>"

definition bind_tcp_listener :: "('core) send_env \<Rightarrow> socket_addr option \<Rightarrow> (main_error, 'core send_thread list) res" where
  "bind_tcp_listener env addr =
     (case addr of
        None \<Rightarrow> Ok []
      | Some a \<Rightarrow> if se_bind_tcp env a then Ok [Tcp_server a] else Err (M_Listener ''failed to bind TCP''))"

definition bind_unix_listener :: "('core) send_env \<Rightarrow> bytes option \<Rightarrow> (main_error, 'core send_thread list) res" where
  "bind_unix_listener env path =
     (case path of
        None \<Rightarrow> Ok []
      | Some p \<Rightarrow>
          if se_exists env p then Err (M_Listener ''Unix socket path already exists'')
          else if se_bind_unix env p then Ok [Unix_server p] else Err (M_Listener ''failed to bind Unix''))"

text \<open>In the scope: the listeners, one after the other (\<open>expect\<close> panics), then \<open>start\<close>, whose error is logged.\<close>

fun spawn_listeners ::
  "('core send_thread \<Rightarrow> bool) \<Rightarrow> 'core send_thread list \<Rightarrow> ('core send_thread, main_error, unit) act"
where
  "spawn_listeners spawned [] = ret ()"
| "spawn_listeners spawned (l # ls) =
     (if spawned l then bind_act ([l], Ok ()) (\<lambda>_. spawn_listeners spawned ls) else lift Panic)"

definition map_events :: "('o \<Rightarrow> 'p) \<Rightarrow> ('o, 'e, 'a) act \<Rightarrow> ('p, 'e, 'a) act" where
  "map_events f m = (map f (fst m), snd m)"

definition diode_send_main ::
  "bool \<Rightarrow> ('plan, 'cfg, 'pkt) raptorq_lib \<Rightarrow> send_args \<Rightarrow> 'core send_env \<Rightarrow> ('core send_thread, main_error, unit) act"
where
  "diode_send_main chk lib args env =
     bind_act (lift (map_err M_Logger (logger_started (se_logger env) (as_log_level args) (as_log_file args) False))) (\<lambda>_.
     bind_act (lift (map_err M_Protocol (raptorq_new chk lib (as_to_mtu args) (as_block args) (as_repair args) 0))) (\<lambda>rq.
     bind_act (lift (map_err M_Send (sender_new (se_semaphore env) (send_args_config args)))) (\<lambda>sender.
     bind_act (lift (bind_tcp_listener env (ls_from_tcp (as_from args)))) (\<lambda>tcp_listener.
     bind_act (lift (bind_unix_listener env (ls_from_unix (as_from args)))) (\<lambda>unix_listener.
     bind_act (spawn_listeners (se_spawn_listener env) (tcp_listener @ unix_listener)) (\<lambda>_.
     map_events (\<lambda>(w, core). Send_worker w core)
       (act_map_err M_Send (sender_start chk (sd_config sender) rq (se_spawn_worker env) (se_core_ids env)))))))))"

section \<open>\<open>diode-oneshot-send\<close>\<close>

record oneshot_send_args =
  os_log_level :: level_filter
  os_encode_threads :: u8
  os_flush :: bool
  os_to :: socket_addr
  os_to_bind :: socket_addr
  os_to_mtu :: u16
  os_batch :: "u32 option"
  os_block :: u32
  os_repair :: u32
  os_cpu_affinity :: bool
  os_hash :: bool

definition oneshot_send_args_default :: "socket_addr \<Rightarrow> oneshot_send_args" where
  "oneshot_send_args_default to_arg =
     \<lparr>os_log_level = L_Info, os_encode_threads = 1, os_flush = False, os_to = to_arg, os_to_bind = UNSPECIFIED, os_to_mtu = 1500,
      os_batch = None, os_block = 734928, os_repair = 2, os_cpu_affinity = False, os_hash = False\<rparr>"

definition oneshot_send_config :: "oneshot_send_args \<Rightarrow> send_config" where
  "oneshot_send_config args =
     \<lparr>s_max_clients = 1, s_flush = os_flush args, s_nb_encode_threads = os_encode_threads args,
      s_heartbeat_interval = None, s_to = os_to args, s_to_bind = os_to_bind args, s_to_mtu = os_to_mtu args,
      s_batch_send = os_batch args, s_cpu_affinity = os_cpu_affinity args, s_hash = os_hash args\<rparr>"

text \<open>
  The standard input is the only client; \<open>stop\<close> follows it. Errors of \<open>start\<close> and \<open>stop\<close> are logged, one of \<open>new_client\<close>
  gives the exit status 1. The two messages block while the channel is full; \<open>up\<close> tells whether it is open.
\<close>

datatype ('core, 'c) oneshot_event = Oneshot_worker send_worker "'core option" | Queued "'c option"

definition diode_oneshot_send_main ::
  "bool \<Rightarrow> ('plan, 'cfg, 'pkt) raptorq_lib \<Rightarrow> oneshot_send_args \<Rightarrow> logger_env \<Rightarrow> bool \<Rightarrow> (send_worker \<Rightarrow> bool) \<Rightarrow>
   'core list option \<Rightarrow> ('c option \<Rightarrow> bool) \<Rightarrow> 'c \<Rightarrow> (('core, 'c) oneshot_event, main_error, nat) act"
where
  "diode_oneshot_send_main chk lib args logger sem spawned core_ids up stdin =
        bind_act (lift (map_err M_Logger (logger_started logger (os_log_level args) None False))) (\<lambda>_.
        bind_act (lift (map_err M_Protocol (raptorq_new chk lib (os_to_mtu args) (os_block args) (os_repair args) 0))) (\<lambda>rq.
        bind_act (lift (map_err M_Send (sender_new sem (oneshot_send_config args)))) (\<lambda>sender.
        case sender_start chk (sd_config sender) rq spawned core_ids of (ws, r) \<Rightarrow>
          bind_act (map (\<lambda>(w, core). Oneshot_worker w core) ws,
              case r of Panic \<Rightarrow> Panic | Diverges \<Rightarrow> Diverges | _ \<Rightarrow> Ok ()) (\<lambda>_.
          let (queued, r) = new_client up stdin; (stopped, _) = sender_stop up in
          (map Queued (queued @ stopped), Ok (if r = Ok () then 0 else 1))))))"

section \<open>\<open>diode-receive\<close>\<close>

record receive_args =
  ar_log_level :: level_filter
  ar_log_file :: "bytes option"
  ar_from :: socket_addr
  ar_from_mtu :: u16
  ar_batch :: "u32 option"
  ar_reset_timeout :: nat
  ar_decode_threads :: u8
  ar_max_clients :: u32
  ar_flush :: bool
  ar_abort_timeout :: "nat option"
  ar_to :: clients_arg
  ar_block :: u32
  ar_repair :: u32
  ar_min_repair :: u32
  ar_heartbeat :: "nat option"
  ar_cpu_affinity :: bool
  ar_hash :: bool

definition receive_args_default :: "socket_addr \<Rightarrow> clients_arg \<Rightarrow> receive_args" where
  "receive_args_default from_arg to_arg =
     \<lparr>ar_log_level = L_Info, ar_log_file = None, ar_from = from_arg, ar_from_mtu = 1500, ar_batch = None, ar_reset_timeout = 2 * 10 ^ 9, ar_decode_threads = 1,
      ar_max_clients = 2, ar_flush = False, ar_abort_timeout = None, ar_to = to_arg, ar_block = 734928, ar_repair = 2,
      ar_min_repair = 1, ar_heartbeat = default_duration ''10'', ar_cpu_affinity = False, ar_hash = False\<rparr>"

definition receive_args_config :: "receive_args \<Rightarrow> receive_config" where
  "receive_args_config args =
     \<lparr>r_from = ar_from args, r_from_mtu = ar_from_mtu args, r_batch_receive = ar_batch args,
      r_reset_timeout = ar_reset_timeout args, r_nb_decode_threads = ar_decode_threads args,
      r_max_clients = ar_max_clients args, r_flush = ar_flush args, r_abort_timeout = ar_abort_timeout args,
      r_heartbeat_interval = ar_heartbeat args, r_cpu_affinity = ar_cpu_affinity args, r_hash = ar_hash args\<rparr>"

text \<open>\<open>write\<close> and \<open>flush\<close> of a client, and the callback \<open>client_new\<close>: connect to the TCP address if there is one.\<close>

fun client_write_all :: "bytes \<Rightarrow> sink client \<Rightarrow> sink client \<times> (io_error, unit) res" where
  "client_write_all d (Tcp_client k) = (case sink_write_all d k of (k, r) \<Rightarrow> (Tcp_client k, r))"
| "client_write_all d (Unix_client k) = (case sink_write_all d k of (k, r) \<Rightarrow> (Unix_client k, r))"

fun client_flush :: "sink client \<Rightarrow> (io_error, unit) res" where
  "client_flush (Tcp_client k) = sink_flush k"
| "client_flush (Unix_client k) = sink_flush k"

definition client_try_from ::
  "clients_arg \<Rightarrow> (socket_addr \<Rightarrow> (io_error, 'k) res) \<Rightarrow> (bytes \<Rightarrow> (io_error, 'k) res) \<Rightarrow> (io_error, 'k client) res"
where
  "client_try_from clients connect_tcp connect_unix =
     (case ca_to_tcp clients of
        Some to_tcp \<Rightarrow> and_then (connect_tcp to_tcp) (\<lambda>k. Ok (Tcp_client k))
      | None \<Rightarrow>
          (case ca_to_unix clients of
             Some to_unix \<Rightarrow> and_then (connect_unix to_unix) (\<lambda>k. Ok (Unix_client k))
           | None \<Rightarrow> Panic))"

definition diode_receive_main ::
  "bool \<Rightarrow> ('plan, 'cfg, 'pkt) raptorq_lib \<Rightarrow> receive_args \<Rightarrow> logger_env \<Rightarrow> bool \<Rightarrow> (receive_worker \<Rightarrow> bool) \<Rightarrow>
   'core list option \<Rightarrow> (receive_worker \<times> 'core option, main_error, unit) act"
where
  "diode_receive_main chk lib args logger sem spawned core_ids =
        bind_act (lift (map_err M_Logger (logger_started logger (ar_log_level args) (ar_log_file args) False))) (\<lambda>_.
        bind_act (lift (map_err M_Protocol
          (raptorq_new chk lib (ar_from_mtu args) (ar_block args) (ar_repair args) (ar_min_repair args)))) (\<lambda>rq.
        bind_act (lift (map_err M_Receive (receiver_new sem (receive_args_config args)))) (\<lambda>receiver.
        act_map_err M_Receive (receiver_start chk (rv_config receiver) rq spawned core_ids))))"

section \<open>\<open>diode-oneshot-receive\<close>\<close>

record oneshot_receive_args =
  or_log_level :: level_filter
  or_from :: socket_addr
  or_from_mtu :: u16
  or_batch :: "u32 option"
  or_reset_timeout :: nat
  or_decode_threads :: u8
  or_flush :: bool
  or_abort_timeout :: "nat option"
  or_block :: u32
  or_repair :: u32
  or_min_repair :: u32
  or_cpu_affinity :: bool
  or_hash :: bool

definition oneshot_receive_args_default :: "socket_addr \<Rightarrow> oneshot_receive_args" where
  "oneshot_receive_args_default from_arg =
     \<lparr>or_log_level = L_Info, or_from = from_arg, or_from_mtu = 1500, or_batch = None, or_reset_timeout = 2 * 10 ^ 9, or_decode_threads = 1,
      or_flush = False, or_abort_timeout = None, or_block = 734928, or_repair = 2, or_min_repair = 1,
      or_cpu_affinity = False, or_hash = False\<rparr>"

definition oneshot_receive_config :: "oneshot_receive_args \<Rightarrow> receive_config" where
  "oneshot_receive_config args =
     \<lparr>r_from = or_from args, r_from_mtu = or_from_mtu args, r_batch_receive = or_batch args,
      r_reset_timeout = or_reset_timeout args, r_nb_decode_threads = or_decode_threads args, r_max_clients = 1,
      r_flush = or_flush args, r_abort_timeout = or_abort_timeout args, r_heartbeat_interval = None,
      r_cpu_affinity = or_cpu_affinity args, r_hash = or_hash args\<rparr>"

definition diode_oneshot_receive_main ::
  "bool \<Rightarrow> ('plan, 'cfg, 'pkt) raptorq_lib \<Rightarrow> oneshot_receive_args \<Rightarrow> logger_env \<Rightarrow> bool \<Rightarrow> (receive_worker \<Rightarrow> bool) \<Rightarrow>
   'core list option \<Rightarrow> (receive_worker \<times> 'core option, main_error, unit) act"
where
  "diode_oneshot_receive_main chk lib args logger sem spawned core_ids =
        bind_act (lift (map_err M_Logger (logger_started logger (or_log_level args) None True))) (\<lambda>_.
        bind_act (lift (map_err M_Protocol
          (raptorq_new chk lib (or_from_mtu args) (or_block args) (or_repair args) (or_min_repair args)))) (\<lambda>rq.
        bind_act (lift (map_err M_Receive (receiver_new sem (oneshot_receive_config args)))) (\<lambda>receiver.
        act_map_err M_Receive (receiver_start chk (rv_config receiver) rq spawned core_ids))))"

text \<open>
  Its \<open>client_end\<close> ends the process: what the client thread does up to then is all that happens, with the
  exit status and what the standard output has received.
\<close>

definition oneshot_client_end :: "bool \<Rightarrow> nat" where
  "oneshot_client_end ok = (if ok then 0 else 1)"

fun oneshot_exit :: "rclient_event list \<Rightarrow> (nat \<times> bytes) option" where
  "oneshot_exit [] = None"
| "oneshot_exit (ClientEnd _ k ok # _) = Some (oneshot_client_end ok, sunk k)"
| "oneshot_exit (_ # evs) = oneshot_exit evs"

text \<open>Its standard output carries the data, so its log must not go there: whatever gets installed writes to the standard error.\<close>

lemma oneshot_receive_logs_to_stderr:
  "l \<in> set (fst (init_logger logger (or_log_level args) None True)) \<Longrightarrow>
   \<exists>cfg. l = TermLogger (or_log_level args) cfg To_stderr Color_auto"
  using init_logger_installs [of logger "or_log_level args" None True]
  by (cases "init_logger logger (or_log_level args) None True") (auto split: res.splits)

section \<open>Numbers on the command line\<close>

lemma digit_of_char [simp]: "d < 10 \<Longrightarrow> digit_of (char_of (48 + d)) = Some d"
  by (simp add: digit_of_def)

lemma parse_digits_append:
  "parse_digits acc (xs @ ys) = and_then (parse_digits acc xs) (\<lambda>v. parse_digits v ys)"
  by (induction acc xs rule: parse_digits.induct) (simp_all split: option.splits)

lemma parse_digits_decimal:
  "parse_digits 0 (decimal n) = (if n < 2 ^ 64 then Ok n else Err PE_PosOverflow)"
proof (induction n rule: decimal.induct)
  case (1 n)
  show ?case
  proof (cases "n < 10")
    case True
    then show ?thesis by (subst decimal.simps) simp
  next
    case False
    have "n div 10 * 10 + n mod 10 = n" by presburger
    then show ?thesis
      using 1 [OF False] False by (subst decimal.simps) (auto simp: parse_digits_append)
  qed
qed

lemma decimal_head: "\<exists>d < 10. \<exists>cs. decimal n = char_of (48 + d :: nat) # cs"
proof (induction n rule: decimal.induct)
  case (1 n)
  show ?case
  proof (cases "n < 10")
    case True
    then show ?thesis by (subst decimal.simps) auto
  next
    case False
    from 1 [OF False] show ?thesis using False by (subst decimal.simps) auto
  qed
qed

lemma parse_u64_decimal: "parse_u64 (decimal n) = parse_digits 0 (decimal n)"
proof -
  obtain d cs where d: "d < 10" "decimal n = char_of (48 + d :: nat) # cs" using decimal_head by blast
  have "digit_of (CHR ''+'') = None" by (simp add: digit_of_def)
  then have "char_of (48 + d) \<noteq> CHR ''+''" using digit_of_char [OF d(1)] by force
  then show ?thesis unfolding d(2) by (cases cs) simp_all
qed

text \<open>Durations on the command line: every decimal numeral below $2^{64}$ is read as so many seconds, and a larger one is
  refused as an overflow.\<close>

theorem parse_duration_decimal:
  "parse_duration_seconds (decimal n) = (if n < 2 ^ 64 then Ok (n * 10 ^ 9) else Err PE_PosOverflow)"
  by (simp add: parse_duration_seconds_def parse_u64_decimal parse_digits_decimal)

text \<open>A duration of 0 disables nothing, although the help texts say so: it is read as a duration like any other, the
  heartbeat thread of the sender still starts (and then never sleeps), and a transfer of the receiver ends as soon as its
  channel is empty once.\<close>

theorem zero_duration_disables_nothing:
  "\<exists>d. parse_duration_seconds (decimal 0) = Ok d
   \<and> W_heartbeat \<in> set (sender_workers (send_args_config (args\<lparr>as_heartbeat := Some d\<rparr>)))
   \<and> snd (rclient_step (receive_args_config (rargs\<lparr>ar_abort_timeout := Some d\<rparr>)) hl cid s Timeout)
       = Err (R_ReceiveTimeout TimedOut)"
  by (simp add: parse_duration_seconds_def parse_u64_decimal parse_digits_decimal sender_workers_def send_args_config_def
      receive_args_config_def rclient_step.simps or_drop_def)

section \<open>What \<open>diode-send\<close> starts\<close>

lemma emit_all_outcome:
  "emit_all up e ms = (takeWhile up ms, if list_all up ms then Ok () else Err e)"
  by (induction ms) (simp_all add: ret_def emit_def)

lemma takeWhile_all: "takeWhile P xs = xs \<longleftrightarrow> list_all P xs"
  by (simp add: list_all_iff takeWhile_eq_all_conv)

lemma takeWhile_both:
  "takeWhile P (xs @ ys) = (if list_all P xs then xs @ takeWhile P ys else takeWhile P xs)"
  by (induction xs) auto

definition listener_threads :: "listeners \<Rightarrow> 'core send_thread list" where
  "listener_threads l = (case ls_from_tcp l of None \<Rightarrow> [] | Some a \<Rightarrow> [Tcp_server a])
     @ (case ls_from_unix l of None \<Rightarrow> [] | Some p \<Rightarrow> [Unix_server p])"

definition sender_threads :: "send_config \<Rightarrow> 'core list option \<Rightarrow> 'core send_thread list" where
  "sender_threads cfg core_ids = map (\<lambda>(w, core). Send_worker w core)
     (pin (if s_cpu_affinity cfg then (case core_ids of None \<Rightarrow> [] | Some cs \<Rightarrow> cs) else [])
        (map (\<lambda>w. [w]) (sender_workers cfg)))"

lemma spawn_listeners_outcome:
  "spawn_listeners spawned ls = (takeWhile spawned ls, if list_all spawned ls then Ok () else Panic)"
  by (induction ls) (simp_all add: ret_def lift_def)

text \<open>A call that neither starts anything nor ends well.\<close>

definition quiet :: "('o, 'e, unit) act \<Rightarrow> bool" where
  "quiet m \<longleftrightarrow> fst m = [] \<and> snd m \<noteq> Ok ()"

lemma quiet_bind: "(\<And>a. r = Ok a \<Longrightarrow> quiet (k a)) \<Longrightarrow> quiet (bind_act (lift r) k)"
  by (cases r) (simp_all add: lift_def quiet_def)

lemma quiet_lift [simp]: "quiet (lift r) \<longleftrightarrow> r \<noteq> Ok ()" "quiet ([], Panic)"
  by (simp_all add: lift_def quiet_def)

lemma bind_listeners:
  "bind_tcp_listener env a = Ok xs \<Longrightarrow> xs = (case a of None \<Rightarrow> [] | Some a \<Rightarrow> [Tcp_server a])"
  "bind_unix_listener env p = Ok ys \<Longrightarrow> ys = (case p of None \<Rightarrow> [] | Some p \<Rightarrow> [Unix_server p])
     \<and> (\<forall>q. p = Some q \<longrightarrow> \<not> se_exists env q)"
  by (auto simp: bind_tcp_listener_def bind_unix_listener_def split: option.splits if_splits)

lemma bind_act_quiet:
  fixes m :: "('o, 'e, unit) act"
  assumes "\<And>a. fst (k a) = []"
  shows "fst (bind_act m k) = fst m \<and> (snd (bind_act m k) = Ok b \<longrightarrow> snd m = Ok ())"
  using assms by (cases m; cases "snd m") simp_all

lemma min_nb_packets_quiet: "fst (bind_act (lift (min_nb_packets chk rq)) (\<lambda>_. ret ())) = []"
  by (simp add: min_nb_packets_def add_chk_def lift_def ret_def)

text \<open>What the system answers to the start of a thread, and a complete set-up.\<close>

primrec thread_starts :: "'core send_env \<Rightarrow> 'core send_thread \<Rightarrow> bool" where
  "thread_starts env (Tcp_server a) = se_spawn_listener env (Tcp_server a)"
| "thread_starts env (Unix_server p) = se_spawn_listener env (Unix_server p)"
| "thread_starts env (Send_worker w core) = se_spawn_worker env w"

definition send_set_up ::
  "bool \<Rightarrow> ('plan, 'cfg, 'pkt) raptorq_lib \<Rightarrow> send_args \<Rightarrow> 'core send_env \<Rightarrow> ('plan, 'cfg) raptorq \<Rightarrow> bool"
where
  "send_set_up chk lib args env rq \<longleftrightarrow>
     logger_started (se_logger env) (as_log_level args) (as_log_file args) False = Ok ()
   \<and> raptorq_new chk lib (as_to_mtu args) (as_block args) (as_repair args) 0 = Ok rq
   \<and> se_semaphore env
   \<and> (case ls_from_tcp (as_from args) of None \<Rightarrow> True | Some a \<Rightarrow> se_bind_tcp env a)
   \<and> (case ls_from_unix (as_from args) of None \<Rightarrow> True | Some p \<Rightarrow> \<not> se_exists env p \<and> se_bind_unix env p)"

lemma bind_listeners_outcome:
  "bind_tcp_listener env t = (if case t of None \<Rightarrow> True | Some a \<Rightarrow> se_bind_tcp env a
     then Ok (case t of None \<Rightarrow> [] | Some a \<Rightarrow> [Tcp_server a]) else Err (M_Listener ''failed to bind TCP''))"
  "\<exists>e. bind_unix_listener env u = (if case u of None \<Rightarrow> True | Some p \<Rightarrow> \<not> se_exists env p \<and> se_bind_unix env p
     then Ok (case u of None \<Rightarrow> [] | Some p \<Rightarrow> [Unix_server p]) else Err e)"
  by (auto simp: bind_tcp_listener_def bind_unix_listener_def split: option.split)

lemma sender_start_outcome:
  "map (\<lambda>(w, core). Send_worker w core) (fst (sender_start chk cfg rq spawned core_ids))
     = takeWhile (thread_starts (env\<lparr>se_spawn_worker := spawned\<rparr>)) (sender_threads cfg core_ids)"
  "snd (sender_start chk cfg rq spawned core_ids) = Ok () \<longleftrightarrow>
     list_all (thread_starts (env\<lparr>se_spawn_worker := spawned\<rparr>)) (sender_threads cfg core_ids)
     \<and> (\<exists>n. min_nb_packets chk rq = (Ok n :: (send_error, u16) res))"
proof -
  let ?w = "\<lambda>(w, core). Send_worker w core"
  define cores where "cores = (if s_cpu_affinity cfg then (case core_ids of None \<Rightarrow> [] | Some cs \<Rightarrow> cs) else [])"
  define planned where "planned = pin cores (map (\<lambda>w. [w]) (sender_workers cfg))"
  have st: "sender_start chk cfg rq spawned core_ids =
      bind_act (takeWhile (\<lambda>(w, _). spawned w) planned,
        if list_all (\<lambda>(w, _). spawned w) planned then Ok () else Err (S_Io Io_failed))
        (\<lambda>_. bind_act (lift (min_nb_packets chk rq)) (\<lambda>_. ret ()))"
    unfolding sender_start_def Let_def cores_def planned_def spawn_all_def emit_all_outcome by (rule refl)
  have threads: "sender_threads cfg core_ids = map ?w planned"
    unfolding sender_threads_def planned_def cores_def by (rule refl)
  have starts: "thread_starts (env\<lparr>se_spawn_worker := spawned\<rparr>) \<circ> ?w = (\<lambda>(w, _). spawned w)"
    by (auto simp: fun_eq_iff)
  show "map ?w (fst (sender_start chk cfg rq spawned core_ids))
      = takeWhile (thread_starts (env\<lparr>se_spawn_worker := spawned\<rparr>)) (sender_threads cfg core_ids)"
    unfolding st threads takeWhile_map starts by (simp add: min_nb_packets_quiet)
  show "snd (sender_start chk cfg rq spawned core_ids) = Ok () \<longleftrightarrow>
      list_all (thread_starts (env\<lparr>se_spawn_worker := spawned\<rparr>)) (sender_threads cfg core_ids)
      \<and> (\<exists>n. min_nb_packets chk rq = (Ok n :: (send_error, u16) res))"
    unfolding st threads list.pred_map starts
    by (cases "min_nb_packets chk rq :: (send_error, u16) res") (simp_all add: lift_def ret_def)
qed

text \<open>Property C39. \<open>diode-send\<close> starts its threads in a fixed order, the listeners first, and only with a complete set-up.
  The set-up is complete when the logger is installed, the RaptorQ parameters are accepted, the semaphore is created, and every
  listener asked for could be bound, a Unix socket at a path not in use. Then \<open>main\<close> starts the threads up to the first that cannot be
  started, and it reports no error exactly when all of them run and the number of packets in its last log line does not
  overflow. Otherwise it starts nothing and reports an error or panics.\<close>

theorem diode_send_main_starts:
  assumes "diode_send_main chk lib args env = (evs, r)"
  shows "(\<exists>rq. send_set_up chk lib args env rq
      \<and> evs = takeWhile (thread_starts env) (listener_threads (as_from args) @ sender_threads (send_args_config args) (se_core_ids env))
      \<and> (r = Ok () \<longleftrightarrow> evs = listener_threads (as_from args) @ sender_threads (send_args_config args) (se_core_ids env)
           \<and> (\<exists>n. min_nb_packets chk rq = (Ok n :: (send_error, u16) res))))
    \<or> ((\<nexists>rq. send_set_up chk lib args env rq) \<and> evs = [] \<and> r \<noteq> Ok ())"
proof (cases "\<exists>rq. send_set_up chk lib args env rq")
  case True
  then obtain rq where up: "send_set_up chk lib args env rq" ..
  let ?ls = "listener_threads (as_from args) :: 'e send_thread list" and ?cfg = "send_args_config args"
  have "se_spawn_listener env l = thread_starts env l" if "l \<in> set ?ls" for l
    using that by (auto simp: listener_threads_def split: option.splits)
  then have same: "takeWhile (se_spawn_listener env) ?ls = takeWhile (thread_starts env) ?ls"
      "list_all (se_spawn_listener env) ?ls = list_all (thread_starts env) ?ls"
    by (auto simp: list_all_iff intro: takeWhile_cong)
  have bound: "bind_tcp_listener env (ls_from_tcp (as_from args))
        = Ok (case ls_from_tcp (as_from args) of None \<Rightarrow> [] | Some a \<Rightarrow> [Tcp_server a])"
      "bind_unix_listener env (ls_from_unix (as_from args))
        = Ok (case ls_from_unix (as_from args) of None \<Rightarrow> [] | Some p \<Rightarrow> [Unix_server p])"
    using up bind_listeners_outcome(2) [of env "ls_from_unix (as_from args)"]
    by (auto simp: send_set_up_def bind_listeners_outcome(1))
  have run: "diode_send_main chk lib args env = bind_act (spawn_listeners (se_spawn_listener env) ?ls) (\<lambda>_.
      map_events (\<lambda>(w, core). Send_worker w core)
        (act_map_err M_Send (sender_start chk ?cfg rq (se_spawn_worker env) (se_core_ids env))))"
    using up by (simp add: diode_send_main_def send_set_up_def act_simps bound sender_new_def listener_threads_def)
  have ok: "map_err M_Send x = Ok () \<longleftrightarrow> x = Ok ()" for x by (cases x) simp_all
  note st = sender_start_outcome [of chk ?cfg rq "se_spawn_worker env" "se_core_ids env" env, simplified]
  have "evs = takeWhile (thread_starts env) (?ls @ sender_threads ?cfg (se_core_ids env))
      \<and> (r = Ok () \<longleftrightarrow> list_all (thread_starts env) (?ls @ sender_threads ?cfg (se_core_ids env))
           \<and> (\<exists>n. min_nb_packets chk rq = (Ok n :: (send_error, u16) res)))"
    using assms unfolding run spawn_listeners_outcome same takeWhile_both
    by (cases "list_all (thread_starts env) ?ls"; simp add: map_events_def act_map_err_def st(1))
      (use st(2) in \<open>auto simp: ok list_all_iff\<close>)
  then show ?thesis using up by (metis takeWhile_all)
next
  case False
  have "quiet (diode_send_main chk lib args env)"
    using False bind_listeners_outcome(2) [of env "ls_from_unix (as_from args)"]
    by (auto simp: diode_send_main_def send_set_up_def sender_new_def bind_listeners_outcome(1) quiet_lift
        intro!: quiet_bind split: if_splits)
  then show ?thesis using False assms by (auto simp: quiet_def)
qed

text \<open>The other programs: all threads when \<open>main\<close> reports no error, and the two messages of \<open>diode-oneshot-send\<close>.\<close>

lemma spawn_all_done: "snd (spawn_all spawned e cores groups) = Ok () \<Longrightarrow> fst (spawn_all spawned e cores groups) = pin cores groups"
  by (auto simp: spawn_all_def emit_all_outcome takeWhile_all list_all_iff split: if_splits)

text \<open>The cores that the threads are pinned to.\<close>

definition send_cores :: "bool \<Rightarrow> 'core list option \<Rightarrow> 'core list" where
  "send_cores affinity core_ids = (if affinity then (case core_ids of None \<Rightarrow> [] | Some cs \<Rightarrow> cs) else [])"

definition receive_cores :: "bool \<Rightarrow> 'core list option \<Rightarrow> 'core list" where
  "receive_cores affinity core_ids = (if affinity then (case core_ids of None \<Rightarrow> [] | Some cs \<Rightarrow> rev cs) else [])"

lemma receiver_start_done:
  assumes "act_map_err f (receiver_start chk cfg rq spawned core_ids) = (evs, Ok ())"
  shows "evs = pin (receive_cores (r_cpu_affinity cfg) core_ids) (receiver_groups cfg)"
proof -
  define cores where "cores = receive_cores (r_cpu_affinity cfg) core_ids"
  define m where "m = spawn_all spawned (R_Io Io_failed) cores (receiver_groups cfg)"
  have st: "receiver_start chk cfg rq spawned core_ids = bind_act m (\<lambda>_. bind_act (lift (min_nb_packets chk rq)) (\<lambda>_. ret ()))"
    unfolding receiver_start_def Let_def m_def cores_def receive_cores_def by (rule refl)
  have "fst (receiver_start chk cfg rq spawned core_ids) = fst m
      \<and> (snd (receiver_start chk cfg rq spawned core_ids) = Ok () \<longrightarrow> snd m = Ok ())"
    unfolding st by (rule bind_act_quiet) (rule min_nb_packets_quiet)
  moreover have "fst (receiver_start chk cfg rq spawned core_ids) = evs"
      "snd (receiver_start chk cfg rq spawned core_ids) = Ok ()"
    using assms
    by (cases "receiver_start chk cfg rq spawned core_ids"; cases "snd (receiver_start chk cfg rq spawned core_ids)";
        simp add: act_map_err_def)+
  ultimately have "evs = fst m" "snd m = Ok ()" by simp_all
  then show ?thesis
    using spawn_all_done [of spawned "R_Io Io_failed" cores "receiver_groups cfg"] by (simp add: m_def cores_def)
qed

lemma diode_receive_main_threads:
  "diode_receive_main chk lib args logger sem spawned core_ids = (evs, Ok ()) \<Longrightarrow>
   map fst evs = concat (receiver_groups (receive_args_config args))"
  by (cases "raptorq_new chk lib (ar_from_mtu args) (ar_block args) (ar_repair args) (ar_min_repair args)";
      cases "logger_started logger (ar_log_level args) (ar_log_file args) False")
    (auto simp: diode_receive_main_def act_simps lift_def receiver_new_def pin_workers dest: receiver_start_done
      split: if_splits)

text \<open>A listener queues the clients in the order of their connections until \<open>accept\<close> fails.\<close>

lemma listener_queues:
  "run (\<lambda>_. listener_step wrap) () (map (\<lambda>c. (\<lambda>_. True, Ok c)) cs @ (up, Err e) # later)
     = (map (Some \<circ> wrap) cs, Ok (Return ()))"
  by (induction cs) (simp_all add: listener_step_def new_client_def emit_def ret_def)

definition sample_send_args :: send_args where
  "sample_send_args = (send_args_default \<lparr>ls_from_tcp = Some UNSPECIFIED, ls_from_unix = None\<rparr> UNSPECIFIED)
     \<lparr>as_to_mtu := 48, as_block := 32\<rparr>"

definition sample_send_env :: "unit send_env" where
  "sample_send_env = \<lparr>se_logger = working_logger, se_semaphore = True, se_bind_tcp = \<lambda>_. True, se_exists = \<lambda>_. False,
     se_bind_unix = \<lambda>_. True, se_spawn_listener = \<lambda>_. True, se_spawn_worker = \<lambda>_. True, se_core_ids = None\<rparr>"

theorem diode_send_main_starts_witness:
  "fst (diode_send_main True sample_lib sample_send_args sample_send_env)
    = [Tcp_server UNSPECIFIED, Send_worker W_udp None, Send_worker W_ordering None, Send_worker (W_encoding 0) None,
       Send_worker W_heartbeat None, Send_worker (W_client 0) None, Send_worker (W_client 1) None]"
proof -
  have hb: "default_duration ''5'' = Some (5 * 10 ^ 9)"
    by (simp add: default_duration_def parse_duration_seconds_def digit_of_def)
  have workers: "sender_workers (send_args_config sample_send_args) =
      [W_udp, W_ordering, W_encoding 0, W_heartbeat, W_client 0, W_client 1]"
    by (simp add: sender_workers_def send_args_config_def sample_send_args_def send_args_default_def hb upt_rec)
  have env: "logger_started (se_logger sample_send_env) lvl path only = Ok ()" "sender_new (se_semaphore sample_send_env) cfg = Ok
      \<lparr>sd_config = cfg, sd_permits = s_max_clients cfg, sd_block_to_send = 0, sd_server_capacity = 1,
       sd_capacity = unat (s_nb_encode_threads cfg)\<rparr>" "se_spawn_worker sample_send_env = (\<lambda>_. True)"
      "se_spawn_listener sample_send_env = (\<lambda>_. True)" for cfg lvl path only
    by (simp_all add: sample_send_env_def sender_new_def)
  have bound: "bind_tcp_listener sample_send_env (ls_from_tcp (as_from sample_send_args)) = Ok [Tcp_server UNSPECIFIED]"
      "bind_unix_listener sample_send_env (ls_from_unix (as_from sample_send_args)) = Ok []"
    by (simp_all add: bind_tcp_listener_def bind_unix_listener_def sample_send_env_def sample_send_args_def send_args_default_def)
  have rq: "raptorq_new True sample_lib (as_to_mtu sample_send_args) (as_block sample_send_args) (as_repair sample_send_args) 0
      = Ok small_rq"
    using small_rq [of True] by (simp add: sample_send_args_def send_args_default_def)
  have "snd (sender_start True (send_args_config sample_send_args) small_rq (\<lambda>_. True) (se_core_ids sample_send_env)) = Ok ()"
    by (simp add: sender_start_def spawn_all_ok Let_def lift_def ret_def sample_min)
  then have "snd (diode_send_main True sample_lib sample_send_args sample_send_env) = Ok ()"
    using env bound rq by (simp add: diode_send_main_def act_simps map_events_def act_map_err_def ret_def)
  then obtain evs where "diode_send_main True sample_lib sample_send_args sample_send_env = (evs, Ok ())"
    by (metis prod.collapse)
  from diode_send_main_starts [OF this] this show ?thesis
    by (simp add: listener_threads_def sender_threads_def workers sample_send_env_def)
      (auto simp: sample_send_args_def send_args_default_def send_args_config_def)
qed

section \<open>Standard input to standard output\<close>

lemma raptorq_new_pair:
  assumes "raptorq_new chk lib mtu block repair 0 = Ok srq"
    and "raptorq_new chk lib mtu block repair min_repair = Ok rrq"
    and "min_nb_repair_packets rrq \<le> nb_repair_packets srq"
  shows "rrq = srq\<lparr>min_nb_repair_packets := min_nb_repair_packets rrq\<rparr>"
proof -
  have z: "repair_count chk transfer 0 mps = (r :: (protocol_error, u32) res) \<Longrightarrow> r = Ok n \<Longrightarrow> n = 0" for transfer mps r n
    by (auto simp: repair_count_def and_then_eq_Ok mul_chk_def div_chk_def split: if_splits)
  show ?thesis
    using assms by (auto simp: raptorq_new_def and_then_eq_Ok ok_or_eq_Ok Let_def try_from_def dest!: z split: if_splits)
qed

text \<open>The sender does not look at the number of repair packets that the receiver waits for.\<close>

lemma encode_min [simp]: "encode lib (rq\<lparr>min_nb_repair_packets := n\<rparr>) = encode lib rq"
  by (simp add: encode_def fun_eq_iff Let_def)

lemma decode_min [simp]: "decode lib (rq\<lparr>min_nb_repair_packets := n\<rparr>) = decode lib rq"
  by (simp add: decode_def fun_eq_iff)

lemma block_new_min [simp]: "block_new t (rq\<lparr>min_nb_repair_packets := n\<rparr>) = block_new t rq"
proof (intro ext)
  fix cid d
  show "block_new t (rq\<lparr>min_nb_repair_packets := n\<rparr>) cid d = block_new t rq cid d"
    by (cases d) (simp_all add: block_new.simps)
qed

lemma max_data_len_min [simp]: "max_data_len chk (rq\<lparr>min_nb_repair_packets := n\<rparr>) = max_data_len chk rq"
  by (simp add: max_data_len_def)

lemma client_step_min [simp]:
  "client_step cfg hl (rq\<lparr>min_nb_repair_packets := n\<rparr>) = client_step cfg hl rq"
proof (intro ext)
  fix cid len s i
  show "client_step cfg hl (rq\<lparr>min_nb_repair_packets := n\<rparr>) cid len s i = client_step cfg hl rq cid len s i"
    by (cases i) (simp only: client_step.simps block_new_min)
qed

lemma client_start_min [simp]:
  "client_start chk cfg hl (rq\<lparr>min_nb_repair_packets := n\<rparr>) = client_start chk cfg hl rq"
  by (simp add: client_start_def client_init_def fun_eq_iff)

lemma enc_thread_step_min: "enc_thread_step lib (rq\<lparr>min_nb_repair_packets := n\<rparr>) = enc_thread_step lib rq"
  unfolding enc_thread_step_def encode_min by (rule refl)

lemma pool_step_min [simp]: "pool_step lib (rq\<lparr>min_nb_repair_packets := n\<rparr>) = pool_step lib rq"
  by (intro ext) (simp only: pool_step_iff enc_thread_step_min)

lemma sender_run_min [simp]:
  "sender_run chk cfg lib (rq\<lparr>min_nb_repair_packets := n\<rparr>) = sender_run chk cfg lib rq"
  by (simp add: sender_run_def fun_eq_iff)

lemma code_min [simp]:
  "sound_code lib (rq\<lparr>min_nb_repair_packets := n\<rparr>) = sound_code lib rq"
  "encoded lib (rq\<lparr>min_nb_repair_packets := n\<rparr>) = encoded lib rq"
  "tagged lib (rq\<lparr>min_nb_repair_packets := n\<rparr>) = tagged lib rq"
  "link lib (rq\<lparr>min_nb_repair_packets := n\<rparr>) = link lib rq"
  by (simp_all add: sound_code_def encoded_def tagged_def link_def arrivals_at_def decodable_from_def fun_eq_iff)

lemma client_blocks_length:
  assumes "10 \<le> unat (transfer_length rq)" "\<not> broken client" "length (pending client) < length ks"
    and "bs = ordered_blocks (fst (client_start chk cfg hl rq cid client (\<lambda>_. True) (map (Pair (\<lambda>_. True)) ks)))"
  shows "(\<forall>b \<in> set bs. length (serialized b) = unat (transfer_length rq)) \<and> filter (concerns cid) bs = bs"
proof -
  from client_start_blocks [OF assms(1-3), of cfg chk hl cid] obtain chunks rest where
    cut: "cut_ok (s_flush cfg) (unat (transfer_length rq) - 9) chunks rest"
    and run: "client_start chk cfg hl rq cid client (\<lambda>_. True) (map (Pair (\<lambda>_. True)) ks) =
        (Ordered (Some (rq_block rq Start cid [])) # map (\<lambda>c. Ordered (Some (rq_block rq Data cid c))) chunks
           @ [Ordered (Some (rq_block rq End cid rest)),
              Logged cid (length (pending client)) (absorbed hl (chunks @ [rest]) (initial_hasher cfg hl))],
         Ok (Return ()))" by blast
  have bs: "bs = rq_block rq Start cid [] # map (rq_block rq Data cid) chunks @ [rq_block rq End cid rest]"
    unfolding assms(4) run fst_conv by (rule ordered_blocks_transfer)
  have "length (serialized (rq_block rq t cid d)) = unat (transfer_length rq)" if "d \<in> set ([] # chunks @ [rest])" for t d
  proof -
    have "length d \<le> unat (transfer_length rq) - 9"
      using that cut by (fastforce simp: cut_ok_def)
    then have "length d + 9 \<le> unat (transfer_length rq)" using assms(1) by simp
    then show ?thesis by (simp add: rq_block_def length_block_layout)
  qed
  then have "\<forall>b \<in> set bs. length (serialized b) = unat (transfer_length rq)" by (auto simp: bs)
  moreover have "\<forall>b \<in> set bs. concerns cid b" by (auto simp: bs concerns_def)
  ultimately show ?thesis by (simp add: filter_id_conv)
qed

text \<open>The two programs: what they start, and what becomes of their arguments.\<close>

lemma oneshot_receive_started:
  assumes "diode_oneshot_receive_main chk lib args logger sem spawned core_ids = (evs, Ok ())"
  shows "evs = pin (receive_cores (or_cpu_affinity args) core_ids)
    [[V_client 0], [V_dispatch], map V_decode [0..<unat (or_decode_threads args)], [V_reblock], [V_udp]]"
proof -
  have "evs = pin (receive_cores (r_cpu_affinity (oneshot_receive_config args)) core_ids)
      (receiver_groups (oneshot_receive_config args))"
    using assms
    by (cases "raptorq_new chk lib (or_from_mtu args) (or_block args) (or_repair args) (or_min_repair args)";
        cases "logger_started logger (or_log_level args) None True")
      (auto simp: diode_oneshot_receive_main_def act_simps lift_def receiver_new_def dest: receiver_start_done
        split: if_splits)
  then show ?thesis by (simp add: oneshot_receive_config_def receiver_groups_def)
qed

lemma oneshot_send_started:
  assumes "diode_oneshot_send_main chk lib args logger sem (\<lambda>_. True) core_ids (\<lambda>_. True) stdin = (evs, Ok status)"
  shows "evs = map (\<lambda>(w, core). Oneshot_worker w core) (pin (send_cores (os_cpu_affinity args) core_ids)
      (map (\<lambda>w. [w]) ([W_udp, W_ordering] @ map W_encoding [0..<unat (os_encode_threads args)] @ [W_client 0])))
      @ [Queued (Some stdin), Queued None] \<and> status = 0"
proof -
  obtain rq where ok: "raptorq_new chk lib (os_to_mtu args) (os_block args) (os_repair args) 0 = Ok rq"
      "logger_started logger (os_log_level args) None False = Ok ()" sem
    using assms by (cases "raptorq_new chk lib (os_to_mtu args) (os_block args) (os_repair args) 0";
        cases "logger_started logger (os_log_level args) None False")
      (auto simp: diode_oneshot_send_main_def act_simps lift_def sender_new_def split: if_splits)
  define threads where "threads = pin (send_cores (os_cpu_affinity args) core_ids)
      (map (\<lambda>w. [w]) (sender_workers (oneshot_send_config args)))"
  have "fst (sender_start chk (oneshot_send_config args) rq (\<lambda>_. True) core_ids) = threads"
    by (simp add: sender_start_def spawn_all_ok Let_def min_nb_packets_quiet threads_def send_cores_def
        oneshot_send_config_def)
  then obtain r where st: "sender_start chk (oneshot_send_config args) rq (\<lambda>_. True) core_ids = (threads, r)"
    by (cases "sender_start chk (oneshot_send_config args) rq (\<lambda>_. True) core_ids") simp
  have "evs = map (\<lambda>(w, core). Oneshot_worker w core) threads @ [Queued (Some stdin), Queued None] \<and> status = 0"
    using assms ok
    by (cases r) (auto simp: diode_oneshot_send_main_def act_simps sender_new_def new_client_def sender_stop_def
        emit_def st)
  then show ?thesis by (simp add: threads_def sender_workers_def oneshot_send_config_def)
qed

lemma server_serves_once:
  assumes "9 \<le> unat (transfer_length rq)"
    and "client_start chk cfg hl rq cid client (\<lambda>_. True) (map (Pair (\<lambda>_. True)) ks) = (evs, Ok (Return ()))"
  shows "run (server_step chk cfg hl rq) (Waiting, cid)
      ((\<lambda>_. True, Accept (Msg (Some client))) # map (\<lambda>k. (\<lambda>_. True, Ready k)) ks @ [(\<lambda>_. True, Accept (Msg None))])
    = (Acquire # evs @ [Release] @ replicate (unat (s_nb_encode_threads cfg)) (Ordered None), Ok (Return ()))"
proof -
  let ?s = "\<lparr>conn = client, buf = [], transmitted = 0, hasher = initial_hasher cfg hl\<rparr>"
  let ?n = "unat (transfer_length rq) - 9" and ?start = "Ordered (Some (rq_block rq Start cid []))"
  have st: "server_step chk cfg hl rq (Waiting, cid) (\<lambda>_. True, Accept (Msg (Some client)))
      = ([Acquire, ?start], Ok (Continue (Serving cid ?n ?s, cid + 1)))"
    by (simp add: new_client_id_def say_def client_done_def client_init_ok [OF assms(1)] ret_def)
  obtain body where body: "run (client_step cfg hl rq cid ?n) ?s (map (Pair (\<lambda>_. True)) ks) = (body, Ok (Return ()))"
      "evs = ?start # body"
    using assms(2) unfolding client_start_def client_init_ok [OF assms(1)]
    by (cases "run (client_step cfg hl rq cid ?n) ?s (map (Pair (\<lambda>_. True)) ks)") simp
  have "run (server_step chk cfg hl rq) (Serving cid ?n ?s, cid + 1) (map (\<lambda>k. (\<lambda>_. True, Ready k)) ks)
      = (body @ [Release], Ok (Continue (Waiting, cid + 1)))"
    unfolding server_serving [OF assms(1)] body(1) by (simp add: served_def)
  from run_append [OF this, of "[(\<lambda>_. True, Accept (Msg None))]"] show ?thesis
    by (simp add: st body(2) emit_all_up ret_def del: server_step.simps(1))
qed

lemma no_heartbeat_step:
  assumes "r_heartbeat_interval cfg = None"
  shows "HeartbeatMissing i \<notin> set (fst (dispatch_step cfg rq s input))"
proof -
  have deliver: "HeartbeatMissing i \<notin> set (fst (deliver env cid e b s))" for env cid e b s
    by (auto simp: deliver_def say_def ret_def split: option.split)
  have abort: "HeartbeatMissing i \<notin> set (fst (abort_all rq env ts))" for env ts
    by (induction rq env ts rule: abort_all.induct) (auto simp: ret_def lift_def say_def dest!: bind_act_member [THEN iffD1] split: if_splits)
  have block: "HeartbeatMissing i \<notin> set (fst (dispatch_block env b s))" for env b s
    using deliver by (auto simp: dispatch_block_def ret_def lift_def emit_def Let_def dest!: bind_act_member [THEN iffD1]
        split: res.splits block_type.splits if_splits)
  show ?thesis
    using assms abort block
    by (cases "(cfg, rq, s, input)" rule: dispatch_step.cases)
      (auto simp: ret_def lift_def trace_block_def say_def dest!: bind_act_member [THEN iffD1] split: if_splits)
qed

text \<open>A dispatch worker that expects no heartbeat never misses one.\<close>

lemma no_heartbeat_missing:
  assumes "r_heartbeat_interval cfg = None"
  shows "HeartbeatMissing i \<notin> set (fst (run (dispatch_step cfg rq) s inputs))"
proof (induction inputs arbitrary: s)
  case (Cons input inputs)
  then show ?case
    using no_heartbeat_step [OF assms, of i rq s input]
    by (auto simp: ret_def dest!: bind_act_member [THEN iffD1] split: flow.splits)
qed (simp add: ret_def)

lemma link_addressed:
  assumes "link lib rq listen mtu batch min_nb bs sent b ns"
  shows "\<exists>d \<in> set sent. fst d = sockaddr listen"
proof -
  obtain a as where "arrivals_at lib rq bs sent ns = a # as" "a \<noteq> []"
    using assms unfolding link_def decodable_from_def by blast
  then obtain n where "n \<in> set (concat ns)" by (cases ns; cases "hd ns") (auto simp: arrivals_at_def)
  then show ?thesis using assms unfolding link_def by (metis nth_mem)
qed

lemma oneshot_served:
  fixes hl :: "'h hasher_lib"
  assumes "10 \<le> unat (transfer_length rq)" "\<not> broken stdin" "length (pending stdin) < length ks"
    and "run (server_step chk cfg hl rq) (Waiting, cid) ((\<lambda>_. True, Accept (Msg (Some stdin)))
         # map (\<lambda>k. (\<lambda>_. True, Ready k)) ks @ [(\<lambda>_. True, Accept (Msg None))]) = (cevs, cend)"
  shows "\<exists>chunks rest shash. concat chunks @ rest = pending stdin
    \<and> cut_ok (s_flush cfg) (unat (transfer_length rq) - 9) chunks rest \<and> (shash = None \<longleftrightarrow> \<not> s_hash cfg)
    \<and> cevs = [Acquire, Ordered (Some (rq_block rq Start cid []))]
        @ map (\<lambda>d. Ordered (Some (rq_block rq Data cid d))) chunks
        @ [Ordered (Some (rq_block rq End cid rest)), Logged cid (length (pending stdin)) shash, Release]
        @ replicate (unat (s_nb_encode_threads cfg)) (Ordered None)
    \<and> ordered_blocks cevs = ordered_blocks (fst (client_start chk cfg hl rq cid stdin (\<lambda>_. True) (map (Pair (\<lambda>_. True)) ks)))
    \<and> (\<forall>n h. Logged cid n h \<in> set (fst (client_start chk cfg hl rq cid stdin (\<lambda>_. True) (map (Pair (\<lambda>_. True)) ks))) \<longrightarrow> h = shash)"
proof -
  from client_start_blocks [OF assms(1-3), of cfg chk hl cid] obtain chunks rest where
    data: "concat chunks @ rest = pending stdin" "cut_ok (s_flush cfg) (unat (transfer_length rq) - 9) chunks rest"
    and cl: "client_start chk cfg hl rq cid stdin (\<lambda>_. True) (map (Pair (\<lambda>_. True)) ks) =
        (Ordered (Some (rq_block rq Start cid [])) # map (\<lambda>c. Ordered (Some (rq_block rq Data cid c))) chunks
           @ [Ordered (Some (rq_block rq End cid rest)),
              Logged cid (length (pending stdin)) (absorbed hl (chunks @ [rest]) (initial_hasher cfg hl))],
         Ok (Return ()))" by blast
  define shash where "shash = absorbed hl (chunks @ [rest]) (initial_hasher cfg hl)"
  have cevs: "cevs = Acquire # fst (client_start chk cfg hl rq cid stdin (\<lambda>_. True) (map (Pair (\<lambda>_. True)) ks))
      @ [Release] @ replicate (unat (s_nb_encode_threads cfg)) (Ordered None)"
    using server_serves_once [OF _ cl] assms(1,4) by (simp add: cl)
  have "ordered_blocks cevs = ordered_blocks (fst (client_start chk cfg hl rq cid stdin (\<lambda>_. True) (map (Pair (\<lambda>_. True)) ks)))"
    unfolding cevs by (simp add: ordered_blocks_def)
  moreover have "shash = None \<longleftrightarrow> \<not> s_hash cfg" by (simp add: shash_def absorbed_def initial_hasher_def)
  moreover have "\<forall>n h. Logged cid n h \<in> set (fst (client_start chk cfg hl rq cid stdin (\<lambda>_. True) (map (Pair (\<lambda>_. True)) ks)))
      \<longrightarrow> h = shash" by (auto simp: cl shash_def)
  ultimately show ?thesis
    using data cevs [unfolded cl fst_conv, folded shash_def]
    by (intro exI [of _ chunks] exI [of _ rest] exI [of _ shash]) simp
qed

text \<open>Property C2. What goes into \<open>diode-oneshot-send\<close> comes out of \<open>diode-oneshot-receive\<close>. Both programs have started, with the
  same MTU, block size and repair percentage, and the receiver waits for no more repair packets than are sent. The sender runs one
  thread per worker (as many encoding threads as asked for, no heartbeat), queues the standard input and the stop message, and
  its client thread cuts the standard input into blocks (pieces of full size without \<open>--flush\<close>) and then takes the stop message.
  What the sender's workers put on the wire is addressed to \<open>--to\<close>. When enough of it comes to \<open>--from\<close>, in time (the stop message
  may cut off what is sent, which counts as a loss), the receiver, under any schedule, opens one client, writes exactly the
  bytes of the standard input to its standard output, and exits with status 0. Each end logs the length, and a
  hash exactly when it is run with \<open>--hash\<close>, the same if both are.\<close>

theorem oneshot_stdin_to_stdout:
  fixes lib :: "('plan, 'cfg, 'pkt) raptorq_lib" and hl :: "'h hasher_lib"
    and sargs :: oneshot_send_args and rargs :: oneshot_receive_args and scores :: "'score list option" and rcores :: "'rcore list option"
  defines "scfg \<equiv> oneshot_send_config sargs" and "rcfg \<equiv> oneshot_receive_config rargs"
  assumes programs: "diode_oneshot_send_main chk lib sargs slogger ssem (\<lambda>_. True) scores (\<lambda>_. True) stdin = (sevs, Ok status)"
      "diode_oneshot_receive_main chk lib rargs rlogger rsem spawned rcores = (revs, Ok ())"
    and same: "or_from_mtu rargs = os_to_mtu sargs" "or_block rargs = os_block sargs" "or_repair rargs = os_repair sargs"
    and srq: "raptorq_new chk lib (os_to_mtu sargs) (os_block sargs) (os_repair sargs) 0 = Ok srq"
    and rrq: "raptorq_new chk lib (or_from_mtu rargs) (or_block rargs) (or_repair rargs) (or_min_repair rargs) = Ok rrq"
    and enough: "min_nb_repair_packets rrq \<le> nb_repair_packets srq" "10 \<le> unat (transfer_length srq)"
      "min_nb_packets chk rrq = (Ok m :: (receive_error, u16) res)" "0 < m"
    and code: "sound_code lib srq"
    and stdin: "\<not> broken stdin" "length (pending stdin) < length ks"
      "run (server_step chk scfg hl srq) (Waiting, cid) ((\<lambda>_. True, Accept (Msg (Some stdin)))
         # map (\<lambda>k. (\<lambda>_. True, Ready k)) ks @ [(\<lambda>_. True, Accept (Msg None))]) = (cevs, cend)"
    and sender: "sender_run chk scfg lib srq complete (ordered_blocks cevs) sent"
    and link: "link lib srq (or_from rargs) (or_from_mtu rargs) (or_batch rargs) (unat m) (ordered_blocks cevs) sent 0 ns"
    and receiver: "receiver_run chk rcfg lib rrq (on_wire sent ns) devs" "0 < or_decode_threads rargs"
  shows "sevs = map (\<lambda>(w, core). Oneshot_worker w core) (pin (send_cores (os_cpu_affinity sargs) scores)
        (map (\<lambda>w. [w]) ([W_udp, W_ordering] @ map W_encoding [0..<unat (os_encode_threads sargs)] @ [W_client 0])))
        @ [Queued (Some stdin), Queued None] \<and> status = 0
    \<and> revs = pin (receive_cores (or_cpu_affinity rargs) rcores)
        [[V_client 0], [V_dispatch], map V_decode [0..<unat (or_decode_threads rargs)], [V_reblock], [V_udp]]
    \<and> (\<forall>d \<in> set sent. fst d = sockaddr (os_to sargs)) \<and> sockaddr (or_from rargs) = sockaddr (os_to sargs)
    \<and> (\<exists>chunks rest shash ch rhash.
        concat chunks @ rest = pending stdin \<and> cut_ok (os_flush sargs) (unat (transfer_length srq) - 9) chunks rest
      \<and> cevs = [Acquire, Ordered (Some (rq_block srq Start cid []))]
          @ map (\<lambda>d. Ordered (Some (rq_block srq Data cid d))) chunks
          @ [Ordered (Some (rq_block srq End cid rest)), Logged cid (length (pending stdin)) shash, Release]
          @ replicate (unat (os_encode_threads sargs)) (Ordered None)
      \<and> opened cid devs = [ch] \<and> (\<forall>i. HeartbeatMissing i \<notin> set devs)
      \<and> run (clients_step chk rcfg hl rrq) RWaiting
          (Announced (Msg (cid, Ok open_sink)) # map (\<lambda>b. Block_in (Msg b)) (delivered ch devs))
        = ([R_Acquire, R_Logged cid (length (pending stdin)) rhash,
            ClientEnd cid (open_sink\<lparr>sunk := pending stdin\<rparr>) True, R_Release], Ok (Continue RWaiting))
      \<and> oneshot_exit (fst (run (clients_step chk rcfg hl rrq) RWaiting
          (Announced (Msg (cid, Ok open_sink)) # map (\<lambda>b. Block_in (Msg b)) (delivered ch devs))))
        = Some (0, pending stdin)
      \<and> (shash = None \<longleftrightarrow> \<not> os_hash sargs) \<and> (rhash = None \<longleftrightarrow> \<not> or_hash rargs)
      \<and> (os_hash sargs = or_hash rargs \<longrightarrow> (\<forall>x. h_write hl x [] = x) \<longrightarrow> shash = rhash))"
proof -
  let ?rq = "rrq" and ?bs = "ordered_blocks cevs"
  define n where "n = min_nb_repair_packets rrq"
  have rq: "rrq = srq\<lparr>min_nb_repair_packets := n\<rparr>"
    unfolding n_def using raptorq_new_pair [OF srq _ enough(1)] rrq same by simp
  have k: "reliable open_sink" "sunk open_sink = []" by (simp_all add: reliable_def open_sink_def)
  have cfg: "s_flush scfg = os_flush sargs" "s_hash scfg = os_hash sargs" "s_to scfg = os_to sargs"
      "s_nb_encode_threads scfg = os_encode_threads sargs" "r_hash rcfg = or_hash rargs" "r_from rcfg = or_from rargs"
      "r_from_mtu rcfg = or_from_mtu rargs" "r_batch_receive rcfg = or_batch rargs" "r_heartbeat_interval rcfg = None"
      "r_nb_decode_threads rcfg = or_decode_threads rargs"
    by (simp_all add: scfg_def rcfg_def oneshot_send_config_def oneshot_receive_config_def)
  from oneshot_served [OF enough(2) stdin] obtain chunks rest shash where
    data: "concat chunks @ rest = pending stdin" "cut_ok (os_flush sargs) (unat (transfer_length srq) - 9) chunks rest"
      "shash = None \<longleftrightarrow> \<not> os_hash sargs"
    and cevs: "cevs = [Acquire, Ordered (Some (rq_block srq Start cid []))]
        @ map (\<lambda>d. Ordered (Some (rq_block srq Data cid d))) chunks
        @ [Ordered (Some (rq_block srq End cid rest)), Logged cid (length (pending stdin)) shash, Release]
        @ replicate (unat (os_encode_threads sargs)) (Ordered None)"
    and bs: "?bs = ordered_blocks (fst (client_start chk scfg hl srq cid stdin (\<lambda>_. True) (map (Pair (\<lambda>_. True)) ks)))"
    and logged: "\<forall>n h. Logged cid n h \<in> set (fst (client_start chk scfg hl srq cid stdin (\<lambda>_. True) (map (Pair (\<lambda>_. True)) ks)))
        \<longrightarrow> h = shash" unfolding cfg by blast
  note len = client_blocks_length [OF enough(2) stdin(1,2) bs]
  have facts: "sound_code lib rrq" "10 \<le> unat (transfer_length rrq)"
      "\<forall>b \<in> set ?bs. length (serialized b) = unat (transfer_length rrq)" "sender_run chk scfg lib rrq complete ?bs sent"
      "filter (concerns cid) (drop 0 ?bs) =
        ordered_blocks (fst (client_start chk scfg hl rrq cid stdin (\<lambda>_. True) (map (Pair (\<lambda>_. True)) ks)))"
      "link lib rrq (r_from rcfg) (r_from_mtu rcfg) (r_batch_receive rcfg) (unat m) ?bs sent 0 ns" "0 < r_nb_decode_threads rcfg"
    using code enough(2) len sender link receiver(2) bs by (simp_all add: rq cfg)
  have dest: "\<forall>d \<in> set sent. fst d = sockaddr (os_to sargs)"
    using sender_sends(1) [OF sender] len enough(2) by (auto simp: cfg)
  have ends: "sockaddr (or_from rargs) = sockaddr (os_to sargs)" using link_addressed [OF link] dest by auto
  have quiet: "HeartbeatMissing i \<notin> set devs" for i
    using receiver(1) no_heartbeat_missing [OF cfg(9)] unfolding receiver_run_def receiver_threads_def by blast
  from diode_transfer [OF facts(1,2) enough(3,4) facts(3,4) stdin(1,2) facts(5,6) receiver(1) facts(7) k(1)]
  obtain ch rhash where ch: "opened cid devs = [ch]"
    "run (clients_step chk rcfg hl rrq) RWaiting
        (Announced (Msg (cid, Ok open_sink)) # map (\<lambda>b. Block_in (Msg b)) (delivered ch devs))
      = ([R_Acquire, R_Logged cid (length (pending stdin)) rhash,
          ClientEnd cid (open_sink\<lparr>sunk := sunk open_sink @ pending stdin\<rparr>) True, R_Release], Ok (Continue RWaiting))"
    "rhash = None \<longleftrightarrow> \<not> or_hash rargs"
    "os_hash sargs = or_hash rargs \<longrightarrow> (\<forall>x. h_write hl x [] = x) \<longrightarrow> Logged cid (length (pending stdin)) rhash
      \<in> set (fst (client_start chk scfg hl rrq cid stdin (\<lambda>_. True) (map (Pair (\<lambda>_. True)) ks)))"
    unfolding cfg by blast
  have "os_hash sargs = or_hash rargs \<longrightarrow> (\<forall>x. h_write hl x [] = x) \<longrightarrow> shash = rhash"
    using ch(4) logged by (auto simp: rq)
  moreover have "oneshot_exit (fst (run (clients_step chk rcfg hl rrq) RWaiting
      (Announced (Msg (cid, Ok open_sink)) # map (\<lambda>b. Block_in (Msg b)) (delivered ch devs)))) = Some (0, pending stdin)"
    unfolding ch(2) by (simp add: oneshot_client_end_def k)
  ultimately show ?thesis
    using oneshot_send_started [OF programs(1)] oneshot_receive_started [OF programs(2)] dest ends data ch(1,3) quiet
      ch(2) [unfolded k(2) append_Nil] cevs
    by (intro conjI exI [of _ chunks] exI [of _ rest] exI [of _ shash] exI [of _ ch] exI [of _ rhash]) auto
qed

definition sample_oneshot_send :: oneshot_send_args where
  "sample_oneshot_send = (oneshot_send_args_default (V4 (127, 0, 0, 1) 6000))\<lparr>os_to_mtu := 48, os_block := 32\<rparr>"

definition sample_oneshot_receive :: oneshot_receive_args where
  "sample_oneshot_receive = (oneshot_receive_args_default (V4 (127, 0, 0, 1) 6000))\<lparr>or_from_mtu := 48, or_block := 32\<rparr>"

lemma sample_oneshot:
  "raptorq_new chk sample_lib (os_to_mtu sample_oneshot_send) (os_block sample_oneshot_send) (os_repair sample_oneshot_send) 0
     = Ok small_rq"
  "raptorq_new chk sample_lib (or_from_mtu sample_oneshot_receive) (or_block sample_oneshot_receive)
     (or_repair sample_oneshot_receive) (or_min_repair sample_oneshot_receive) = Ok small_rq"
  by (simp_all add: sample_oneshot_send_def sample_oneshot_receive_def oneshot_send_args_default_def
      oneshot_receive_args_default_def raptorq_new_def raptorq_consts sub_chk_def rem_chk_def div_chk_def mul_chk_def
      try_from_def repair_count_def small_rq_def sample_lib_def)

lemma sample_programs:
  "\<exists>evs. diode_oneshot_send_main True sample_lib sample_oneshot_send working_logger True (\<lambda>_. True) None (\<lambda>_. True) stdin
     = (evs, Ok 0)"
  "\<exists>evs. diode_oneshot_receive_main True sample_lib sample_oneshot_receive working_logger True (\<lambda>_. True) None = (evs, Ok ())"
proof -
  show "\<exists>evs. diode_oneshot_send_main True sample_lib sample_oneshot_send working_logger True (\<lambda>_. True) None (\<lambda>_. True) stdin
     = (evs, Ok 0)"
    by (simp add: diode_oneshot_send_main_def sample_oneshot act_simps sender_new_def sender_start_def spawn_all_ok Let_def
        sample_min new_client_def sender_stop_def emit_def ret_def)
  show "\<exists>evs. diode_oneshot_receive_main True sample_lib sample_oneshot_receive working_logger True (\<lambda>_. True) None = (evs, Ok ())"
    by (simp add: diode_oneshot_receive_main_def sample_oneshot act_simps receiver_new_def receiver_start_def spawn_all_ok
        Let_def sample_min act_map_err_def ret_def)
qed

theorem oneshot_stdin_to_stdout_witness:
  "\<exists>sent devs ch. sender_run True (oneshot_send_config sample_oneshot_send) sample_lib small_rq True sample_blocks sent
    \<and> receiver_run True (oneshot_receive_config sample_oneshot_receive) sample_lib small_rq (on_wire sent pair_positions) devs
    \<and> oneshot_exit (fst (run (clients_step True (oneshot_receive_config sample_oneshot_receive) sample_hasher small_rq) RWaiting
        (Announced (Msg (7, Ok open_sink)) # map (\<lambda>b. Block_in (Msg b)) (delivered ch devs)))) = Some (0, [1, 2, 3])"
proof -
  let ?scfg = "oneshot_send_config sample_oneshot_send" and ?rcfg = "oneshot_receive_config sample_oneshot_receive"
    and ?stdin = "\<lparr>pending = [1, 2, 3], broken = False\<rparr>"
  let ?served = "run (server_step True ?scfg sample_hasher small_rq) (Waiting, 7) ((\<lambda>_. True, Accept (Msg (Some ?stdin)))
         # map (\<lambda>k. (\<lambda>_. True, Ready k)) [3, 1, 1, 1] @ [(\<lambda>_. True, Accept (Msg None))])"
    and ?sent = "pair_sent (or_from sample_oneshot_receive) small_rq 7 End [1, 2, 3]"
  have args: "or_from_mtu sample_oneshot_receive = os_to_mtu sample_oneshot_send"
      "or_block sample_oneshot_receive = os_block sample_oneshot_send"
      "or_repair sample_oneshot_receive = os_repair sample_oneshot_send"
      "0 < or_decode_threads sample_oneshot_receive" "\<not> s_flush ?scfg"
    and cfg: "0 < s_nb_encode_threads ?scfg" "s_batch_send ?scfg \<noteq> Some 0" "s_to ?scfg = or_from sample_oneshot_receive"
      "or_batch sample_oneshot_receive = None" "unat (or_from_mtu sample_oneshot_receive) = 48"
      "r_from ?rcfg = or_from sample_oneshot_receive" "r_from_mtu ?rcfg = or_from_mtu sample_oneshot_receive"
      "r_batch_receive ?rcfg = None" "0 < r_nb_decode_threads ?rcfg"
    by (simp_all add: sample_oneshot_send_def sample_oneshot_receive_def oneshot_send_args_default_def
        oneshot_receive_args_default_def oneshot_send_config_def oneshot_receive_config_def)
  have small: "transfer_length small_rq = 32" "min_nb_repair_packets small_rq \<le> nb_repair_packets small_rq"
      "10 \<le> unat (transfer_length small_rq)" "0 < (2 :: u16)" "unat (2 :: u16) = 2"
    by (simp_all add: small_rq_def)
  have stdin: "\<not> broken ?stdin" "length (pending ?stdin) < length [3, 1, 1, 1 :: nat]" by simp_all
  obtain cevs cend where served: "?served = (cevs, cend)" by (rule prod.exhaust)
  have bs: "ordered_blocks cevs = sample_blocks"
    using oneshot_served [OF small(3) stdin served] sample_transfer [OF args(5)] by metis
  have sent: "sender_run True ?scfg sample_lib small_rq True (ordered_blocks cevs) ?sent"
    unfolding bs unfolding sample_blocks_def cfg(3) [symmetric] by (rule pair_sender [OF small_pair _ _ cfg(1,2)]) (simp_all add: small)
  have link: "link sample_lib small_rq (or_from sample_oneshot_receive) (or_from_mtu sample_oneshot_receive)
      (or_batch sample_oneshot_receive) (unat (2 :: u16)) (ordered_blocks cevs) ?sent 0 pair_positions"
    unfolding bs unfolding sample_blocks_def cfg(4) small(5) by (rule pair_link [OF small_pair]) (simp_all add: small(1) cfg(5))
  have "\<exists>devs. receiver_run True ?rcfg sample_lib small_rq (on_wire ?sent pair_positions) devs"
    unfolding cfg(6) [symmetric]
    by (rule pair_receiver [OF small_pair _ _ cfg(8,9) small(3), where scfg = ?scfg and complete = True])
      (use sent in \<open>simp_all add: small(1) cfg bs sample_blocks_def\<close>)
  then obtain devs where devs: "receiver_run True ?rcfg sample_lib small_rq (on_wire ?sent pair_positions) devs" ..
  from sample_programs obtain sevs revs where programs:
    "diode_oneshot_send_main True sample_lib sample_oneshot_send working_logger True (\<lambda>_. True) None (\<lambda>_. True) ?stdin = (sevs, Ok 0)"
    "diode_oneshot_receive_main True sample_lib sample_oneshot_receive working_logger True (\<lambda>_. True) None = (revs, Ok ())" by metis
  from oneshot_stdin_to_stdout [OF programs args(1-3) sample_oneshot small(2,3) sample_min small(4) sample_sound stdin
      served sent link devs args(4)]
  have "\<exists>ch. oneshot_exit (fst (run (clients_step True ?rcfg sample_hasher small_rq) RWaiting
      (Announced (Msg (7, Ok open_sink)) # map (\<lambda>b. Block_in (Msg b)) (delivered ch devs)))) = Some (0, [1, 2, 3])"
    by (auto simp del: run.simps)
  with sent devs bs show ?thesis by metis
qed

text \<open>The exit status of \<open>diode-oneshot-receive\<close> is honest, whatever blocks arrive, corrupt ones too, and however the standard
  output behaves: it is 0 only after the \<open>End\<close> block of the transfer and 1 only after its \<open>Abort\<close> block, and then the
  payloads of all blocks up to this one have been written out.\<close>

theorem oneshot_exit_honest:
  assumes "rclient_start chk (oneshot_receive_config rargs) hl rq cid (Ok stdout) ms = (evs, r)"
    and "oneshot_exit evs = Some (status, out)"
  shows "\<exists>before b after. ms = before @ Msg b # after \<and> status \<le> 1
    \<and> block_block_type b = Ok (if status = 0 then End else Abort)
    \<and> out = sunk stdout @ concat (map payload_in (before @ [Msg b]))"
proof -
  have "oneshot_exit evs = Some (status, out) \<Longrightarrow>
      \<exists>c k ok. ClientEnd c k ok \<in> set evs \<and> status = oneshot_client_end ok \<and> out = sunk k"
    by (induction evs rule: oneshot_exit.induct) auto
  then obtain c k ok where "ClientEnd c k ok \<in> set evs" "status = oneshot_client_end ok" "out = sunk k"
    using assms(2) by blast
  note c = this
  from rclient_start_sound [OF assms(1) c(1)] obtain before b after where
    "ms = before @ Msg b # after" "block_block_type b = Ok (if ok then End else Abort)"
    "sunk k = sunk stdout @ concat (map payload_in (before @ [Msg b]))" by blast
  then show ?thesis using c(2,3)
    by (intro exI [of _ before] exI [of _ b] exI [of _ after]) (simp add: oneshot_client_end_def)
qed

theorem oneshot_exit_honest_witness:
  "\<exists>evs r. rclient_start True (oneshot_receive_config sample_oneshot_receive) sample_hasher small_rq 7 (Ok open_sink)
      [Msg (rq_block small_rq Start 7 []), Msg (rq_block small_rq End 7 [3])] = (evs, r)
    \<and> oneshot_exit evs = Some (0, [3])"
proof -
  let ?cfg = "oneshot_receive_config sample_oneshot_receive"
  from rclient_transfer [of small_rq open_sink "[(Start, [])]" "[3]" True ?cfg sample_hasher 7 True]
  obtain s where "rclient_init True ?cfg sample_hasher small_rq 7 (Ok open_sink) = ([], Ok s)"
      "run (rclient_step ?cfg sample_hasher 7) s
        [Msg (rq_block small_rq Start 7 []), Msg (rq_block small_rq End 7 [3])]
       = (transfer_events ?cfg sample_hasher 7 open_sink [[], [3]] True, Ok (Return ()))"
    by (auto simp: small_rq_def reliable_def open_sink_def)
  then have st: "rclient_start True ?cfg sample_hasher small_rq 7 (Ok open_sink)
      [Msg (rq_block small_rq Start 7 []), Msg (rq_block small_rq End 7 [3])]
      = (transfer_events ?cfg sample_hasher 7 open_sink [[], [3]] True, Ok (Return ()))"
    by (simp add: rclient_start_def)
  have ex: "oneshot_exit (transfer_events ?cfg sample_hasher 7 open_sink [[], [3]] True) = Some (0, [3])"
    by (simp add: transfer_events_def open_sink_def oneshot_client_end_def)
  from oneshot_exit_honest [OF st ex] st ex show ?thesis by blast
qed

end
