(* ===== verification/File_Protocol.thy ===== *)
theory File_Protocol
  imports Writer Send_Pipeline
begin

text \<open>
  \<open>src/aux/file/protocol.rs\<close>: the header and the footer around a file on the diode's stream, and what of
  the standard library they use: UTF-8 validation and \<open>Path::file_name\<close>. File names are byte strings.

  Header and footer are codecs (locale \<open>codec\<close> of \<open>Bytes\<close>): the interpretations give the round trip, the
  rejection of cut encodings, and that no encoding is a prefix of another.
\<close>

section \<open>Errors\<close>

datatype file_protocol_error =
    P_Io io_error
  | P_StringFormatError
  | P_InvalidFileSize nat nat
  | P_InvalidHash u128 u128

section \<open>Writing to a stream\<close>

text \<open>\<open>write_all\<close> as an effect: the bytes that the sink took are sent, also when it then fails.\<close>

definition send_all :: "(bytes \<Rightarrow> 'o) \<Rightarrow> bytes \<Rightarrow> sink \<Rightarrow> ('o, io_error, sink) act" where
  "send_all f d k = (case sink_write_all d k of (k', r) \<Rightarrow>
     ([f (drop (length (sunk k)) (sunk k'))], and_then r (\<lambda>_. Ok k')))"

lemma send_all_reliable [simp]: "reliable k \<Longrightarrow> send_all f d k = ([f d], Ok (k\<lparr>sunk := sunk k @ d\<rparr>))"
  by (simp add: send_all_def sink_write_reliable)

lemma reliable_sunk [simp]: "reliable (k\<lparr>sunk := x\<rparr>) = reliable k"
  by (simp add: reliable_def)

section \<open>UTF-8\<close>

text \<open>
  \<open>String::from_utf8\<close>. By the first byte of a sequence: how many bytes follow, and the range of the first of them.
\<close>

definition utf8_lead :: "u8 \<Rightarrow> (nat \<times> u8 \<times> u8) option" where
  "utf8_lead b =
     (if b < 0x80 then Some (0, 0, 0)
      else if 0xC2 \<le> b \<and> b \<le> 0xDF then Some (1, 0x80, 0xBF)
      else if b = 0xE0 then Some (2, 0xA0, 0xBF)
      else if b = 0xED then Some (2, 0x80, 0x9F)
      else if 0xE1 \<le> b \<and> b \<le> 0xEF then Some (2, 0x80, 0xBF)
      else if b = 0xF0 then Some (3, 0x90, 0xBF)
      else if 0xF1 \<le> b \<and> b \<le> 0xF3 then Some (3, 0x80, 0xBF)
      else if b = 0xF4 then Some (3, 0x80, 0x8F)
      else None)"

fun utf8_valid :: "bytes \<Rightarrow> bool" where
  "utf8_valid [] = True"
| "utf8_valid (b # bs) =
     (case utf8_lead b of
        None \<Rightarrow> False
      | Some (n, lo, hi) \<Rightarrow>
          n \<le> length bs \<and> list_all (\<lambda>c. 0x80 \<le> c \<and> c \<le> 0xBF) (take n bs)
          \<and> (n = 0 \<or> lo \<le> hd bs \<and> hd bs \<le> hi) \<and> utf8_valid (drop n bs))"

lemma utf8_valid_ascii: "\<forall>b \<in> set bs. b < 0x80 \<Longrightarrow> utf8_valid bs"
  by (induction bs) (auto simp: utf8_lead_def)

section \<open>File names\<close>

text \<open>
  \<open>Path::file_name\<close>: the last component of a path, if it is a normal one. Repeated and trailing
  slashes and components \<open>.\<close> do not count.
\<close>

definition SLASH :: u8 where "SLASH = 0x2F"
definition DOT :: u8 where "DOT = 0x2E"

fun split_path :: "bytes \<Rightarrow> bytes list" where
  "split_path [] = [[]]"
| "split_path (b # bs) =
     (if b = SLASH then [] # split_path bs
      else (b # hd (split_path bs)) # tl (split_path bs))"

definition path_components :: "bytes \<Rightarrow> bytes list" where
  "path_components p = filter (\<lambda>c. c \<noteq> [] \<and> c \<noteq> [DOT]) (split_path p)"

definition file_name_of :: "bytes \<Rightarrow> bytes option" where
  "file_name_of p = (case rev (path_components p) of
     [] \<Rightarrow> None
   | c # _ \<Rightarrow> if c = [DOT, DOT] then None else Some c)"

lemma split_path_nonempty [simp]: "split_path p \<noteq> []"
  by (cases p) auto

lemma split_path_no_slash: "c \<in> set (split_path p) \<Longrightarrow> SLASH \<notin> set c"
proof (induction p arbitrary: c)
  case Nil
  then show ?case by simp
next
  case (Cons b bs)
  have "hd (split_path bs) \<in> set (split_path bs)" by simp
  moreover have "c \<in> set (tl (split_path bs)) \<Longrightarrow> c \<in> set (split_path bs)" by (meson list.set_sel(2) split_path_nonempty)
  ultimately show ?case using Cons by (auto split: if_splits)
qed

lemma split_path_single: "SLASH \<notin> set c \<Longrightarrow> split_path c = [c]"
  by (induction c) auto

text \<open>A name that \<open>file_name\<close> returns stays in its directory.\<close>

lemma file_name_of_plain:
  "file_name_of p = Some c \<Longrightarrow> SLASH \<notin> set c \<and> c \<noteq> [] \<and> c \<noteq> [DOT] \<and> c \<noteq> [DOT, DOT]"
proof -
  assume n: "file_name_of p = Some c"
  then have "c \<in> set (path_components p)" "c \<noteq> [DOT, DOT]"
    by (auto simp: file_name_of_def split: list.splits if_splits)
  then show ?thesis using split_path_no_slash by (auto simp: path_components_def)
qed

lemma file_name_of_name:
  "SLASH \<notin> set c \<Longrightarrow> c \<noteq> [] \<Longrightarrow> c \<noteq> [DOT] \<Longrightarrow> c \<noteq> [DOT, DOT] \<Longrightarrow> file_name_of c = Some c"
  by (simp add: file_name_of_def path_components_def split_path_single)

section \<open>Header and footer\<close>

record file_header =
  fh_file_name :: bytes
  fh_mode :: u32
  fh_file_length :: u64

record file_footer =
  ff_hash :: u128

definition file_header_serialize_to ::
  "file_header \<Rightarrow> sink \<Rightarrow> (bytes, file_protocol_error, sink) act"
where
  "file_header_serialize_to h w =
     act_map_err P_Io
       (bind_act (send_all id (to_le 8 (of_nat (length (fh_file_name h)) :: usize)) w) (\<lambda>w.
        bind_act (send_all id (fh_file_name h) w) (\<lambda>w.
        bind_act (send_all id (to_le 4 (fh_mode h)) w) (\<lambda>w.
        send_all id (to_le 8 (fh_file_length h)) w))))"

definition file_header_deserialize_from ::
  "stream \<Rightarrow> (file_protocol_error, file_header \<times> stream) res"
where
  "file_header_deserialize_from r =
     and_then (map_err P_Io (read_exact 8 r)) (\<lambda>(file_name_len, r).
     and_then (vec_alloc (from_le file_name_len :: usize)) (\<lambda>file_name_len.
     and_then (map_err P_Io (read_exact file_name_len r)) (\<lambda>(file_name, r).
     if \<not> utf8_valid file_name then Err P_StringFormatError
     else
       and_then (map_err P_Io (read_exact 4 r)) (\<lambda>(mode, r).
       and_then (map_err P_Io (read_exact 8 r)) (\<lambda>(file_length, r).
       Ok (\<lparr>fh_file_name = file_name, fh_mode = from_le mode, fh_file_length = from_le file_length\<rparr>, r))))))"

definition file_footer_serialize_to ::
  "file_footer \<Rightarrow> sink \<Rightarrow> (bytes, file_protocol_error, sink) act"
where
  "file_footer_serialize_to f w = act_map_err P_Io (send_all id (to_le 16 (ff_hash f)) w)"

definition file_footer_deserialize_from ::
  "stream \<Rightarrow> (file_protocol_error, file_footer \<times> stream) res"
where
  "file_footer_deserialize_from r =
     and_then (map_err P_Io (read_exact 16 r)) (\<lambda>(hash, r). Ok (\<lparr>ff_hash = from_le hash\<rparr>, r))"

section \<open>The codecs\<close>

definition file_header_bytes :: "file_header \<Rightarrow> bytes" where
  "file_header_bytes h = to_le 8 (of_nat (length (fh_file_name h)) :: usize) @ fh_file_name h
     @ to_le 4 (fh_mode h) @ to_le 8 (fh_file_length h)"

definition file_header_valid :: "file_header \<Rightarrow> bool" where
  "file_header_valid h \<longleftrightarrow> utf8_valid (fh_file_name h) \<and> length (fh_file_name h) < 2 ^ 63"

definition file_footer_bytes :: "file_footer \<Rightarrow> bytes" where
  "file_footer_bytes f = to_le 16 (ff_hash f)"

lemma file_header_serialize_reliable:
  assumes "reliable w"
  shows "\<exists>chunks. file_header_serialize_to h w = (chunks, Ok (w\<lparr>sunk := sunk w @ file_header_bytes h\<rparr>))
    \<and> concat chunks = file_header_bytes h"
  using assms by (simp add: file_header_serialize_to_def file_header_bytes_def act_map_err_def)

lemma file_footer_serialize_reliable:
  "reliable w \<Longrightarrow> file_footer_serialize_to f w =
     ([file_footer_bytes f], Ok (w\<lparr>sunk := sunk w @ file_footer_bytes f\<rparr>))"
  by (simp add: file_footer_serialize_to_def file_footer_bytes_def act_map_err_def)

lemma read_exact_cases:
  "read_exact n s = (if n \<le> length (pending s)
     then Ok (take n (pending s), s\<lparr>pending := drop n (pending s)\<rparr>)
     else Err (if broken s then Io_failed else UnexpectedEof))"
  by (simp add: read_exact_def)

interpretation file_header: codec file_header_bytes file_header_deserialize_from file_header_valid
proof
  fix h s rest
  assume v: "file_header_valid h"
  let ?l = "length (fh_file_name h)"
  have l: "unat (of_nat ?l :: usize) = ?l"
    using v by (simp add: file_header_valid_def unat_of_nat)
  show "file_header_deserialize_from s = Ok (h, s\<lparr>pending := rest\<rparr>)"
    if "pending s = file_header_bytes h @ rest"
    using v that l
    by (simp add: file_header_deserialize_from_def file_header_bytes_def file_header_valid_def vec_alloc_def)
  show "\<exists>e. file_header_deserialize_from s = Err e"
    if k: "k < length (file_header_bytes h)" and s: "pending s = take k (file_header_bytes h)" for k
  proof (cases "k < 8")
    case True
    then show ?thesis using k s by (simp add: file_header_deserialize_from_def read_exact_cases)
  next
    case False
    then have 8: "take 8 (pending s) = to_le 8 (of_nat ?l :: usize)"
      using s by (simp add: file_header_bytes_def)
    show ?thesis
      using k False s 8 v l
      by (simp add: file_header_deserialize_from_def read_exact_cases file_header_valid_def vec_alloc_def
          file_header_bytes_def)
  qed
qed

interpretation file_footer: codec file_footer_bytes file_footer_deserialize_from "\<lambda>_. True"
  by unfold_locales
    (auto simp: file_footer_deserialize_from_def file_footer_bytes_def read_exact_cases)

section \<open>Decoding is exact\<close>

text \<open>Property C35. What the receiver accepts as a header is well formed: whatever bytes arrive, if they decode to a header its
  name is valid UTF-8, the bytes consumed are exactly the encoding of this header, and the rest of the stream is untouched.
  So every header has one encoding only.\<close>

theorem file_header_canonical:
  assumes "file_header_deserialize_from s = Ok (h, s')"
  shows "utf8_valid (fh_file_name h) \<and> pending s = file_header_bytes h @ pending s' \<and> broken s' = broken s"
proof -
  define n where "n = (from_le (take 8 (pending s)) :: usize)"
  have ok: "8 \<le> length (pending s)" "unat n \<le> length (drop 8 (pending s))"
      "12 \<le> length (drop (unat n) (drop 8 (pending s)))"
      "utf8_valid (take (unat n) (drop 8 (pending s)))"
    and h: "h = \<lparr>fh_file_name = take (unat n) (drop 8 (pending s)),
        fh_mode = from_le (take 4 (drop (unat n) (drop 8 (pending s)))),
        fh_file_length = from_le (take 8 (drop 4 (drop (unat n) (drop 8 (pending s)))))\<rparr>"
    and s': "s' = s\<lparr>pending := drop 8 (drop 4 (drop (unat n) (drop 8 (pending s))))\<rparr>"
    using assms
    by (auto simp: file_header_deserialize_from_def and_then_eq_Ok read_exact_def vec_alloc_def n_def
        simp del: utf8_valid.simps drop_drop split: if_splits)
  let ?t = "drop (unat n) (drop 8 (pending s))"
  have len: "length (fh_file_name h) = unat n" using ok(2) by (simp add: h)
  have "to_le 8 (of_nat (length (fh_file_name h)) :: usize) = take 8 (pending s)"
  proof -
    have "to_le 8 n = take 8 (pending s)" unfolding n_def using ok(1) by (intro to_le_from_le) simp_all
    then show ?thesis by (simp add: len)
  qed
  moreover have "to_le 4 (fh_mode h) = take 4 ?t"
    unfolding h file_header.simps using ok(3) by (intro to_le_from_le) simp_all
  moreover have "to_le 8 (fh_file_length h) = take 8 (drop 4 ?t)"
    unfolding h file_header.simps using ok(3) by (intro to_le_from_le) simp_all
  ultimately have "file_header_bytes h = take 8 (pending s) @ take (unat n) (drop 8 (pending s)) @ take 4 ?t @ take 8 (drop 4 ?t)"
    by (simp add: file_header_bytes_def h)
  then have "pending s = file_header_bytes h @ drop 8 (drop 4 ?t)" by (metis append.assoc append_take_drop_id)
  then show ?thesis using ok(4) by (simp add: h s' del: utf8_valid.simps drop_drop)
qed

theorem file_header_canonical_witness:
  "utf8_valid [0x61] \<and> (\<exists>h. file_header_deserialize_from
     \<lparr>pending = to_le 8 (1 :: u64) @ [0x61] @ to_le 4 (420 :: u32) @ to_le 8 (3 :: u64) @ [9], broken = False\<rparr>
     = Ok (h, \<lparr>pending = [9], broken = False\<rparr>))"
proof -
  let ?h = "\<lparr>fh_file_name = [0x61], fh_mode = 420, fh_file_length = 3\<rparr>"
  let ?s = "\<lparr>pending = to_le 8 (1 :: u64) @ [0x61] @ to_le 4 (420 :: u32) @ to_le 8 (3 :: u64) @ [9], broken = False\<rparr>"
  have v: "file_header_valid ?h"
    by (simp add: file_header_valid_def utf8_valid_ascii del: utf8_valid.simps)
  have "file_header_deserialize_from ?s = Ok (?h, ?s\<lparr>pending := [9]\<rparr>)"
    by (rule file_header.dec_enc [OF v]) (simp add: file_header_bytes_def)
  from file_header_canonical [OF this] this show ?thesis by auto
qed

end
