(* ===== verification/File_Transfer.thy ===== *)
theory File_Transfer
  imports File_Protocol
begin

text \<open>
  \<open>src/aux/mod.rs\<close>, \<open>src/aux/file/mod.rs\<close>, \<open>src/aux/file/send.rs\<close> and \<open>src/aux/file/receive.rs\<close>: whole files
  through the diode's client sockets.

  The sender writes a header (name, mode, length), the contents in pieces of the buffer size, and a footer
  with a hash; the receiver creates the file under the last component of the name and checks length and hash.
  What the file system and the sockets answer are inputs; a read takes as many bytes as are ready. The receiver's
  effects on the file system are its events. Error texts leave out the paths the program formats into them.
\<close>

section \<open>Configuration and errors\<close>

datatype diode_send = Tcp socket_addr | Unix bytes

record diode_receive =
  from_tcp :: "socket_addr option"
  from_unix :: "bytes option"

record 'd file_config =
  f_diode :: 'd
  f_buffer_size :: usize
  f_hash :: bool
  f_max_files :: usize

datatype file_error =
    F_Io io_error
  | F_Diode file_protocol_error
  | F_Other string

definition file_hasher :: "'d file_config \<Rightarrow> 'h hasher_lib \<Rightarrow> 'h option" where
  "file_hasher cfg hl = (if f_hash cfg then Some (h_default hl) else None)"

text \<open>\<open>buffer.hash(hasher)\<close>: a vector is hashed with its length in front, unlike \<open>hasher.write(&buffer)\<close>.\<close>

definition hash_vec :: "'h hasher_lib \<Rightarrow> 'h \<Rightarrow> bytes \<Rightarrow> 'h" where
  "hash_vec hl h v = h_write hl (h_write_usize hl h (of_nat (length v))) v"

section \<open>Sending a file\<close>

record source_file =
  sf_is_file :: bool
  sf_open :: "(io_error, stream) res"
  sf_metadata :: "(io_error, u32 \<times> u64) res"   \<comment> \<open>mode and length\<close>

record 'h file_send =
  fs_file :: stream
  fs_diode :: sink
  fs_buf :: bytes                              \<comment> \<open>\<open>buffer[..cursor]\<close>\<close>
  fs_total :: nat
  fs_hasher :: "'h option"

text \<open>At the end of the file: what is left in the buffer, the footer, and a flush.\<close>

definition file_send_finish ::
  "'h hasher_lib \<Rightarrow> 'h file_send \<Rightarrow> (bytes, file_error, ('h file_send, nat) flow) act"
where
  "file_send_finish hl s =
     (let rest = fs_buf s;
          hasher = (if rest = [] then fs_hasher s else map_option (\<lambda>h. h_write hl h rest) (fs_hasher s)) in
      bind_act (if rest = [] then ret (fs_diode s) else act_map_err F_Io (send_all id rest (fs_diode s))) (\<lambda>diode.
      bind_act (act_map_err F_Diode (file_footer_serialize_to
          \<lparr>ff_hash = (case hasher of None \<Rightarrow> 0 | Some h \<Rightarrow> h_finish_ext hl h)\<rparr> diode)) (\<lambda>diode.
      bind_act (lift (map_err F_Io (sink_flush diode))) (\<lambda>_.
      ret (Return (fs_total s + length rest))))))"

definition file_send_step ::
  "nat \<Rightarrow> 'h hasher_lib \<Rightarrow> 'h file_send \<Rightarrow> nat \<Rightarrow> (bytes, file_error, ('h file_send, nat) flow) act"
where
  "file_send_step buffer_size hl s ready =
     bind_act (lift (map_err F_Io (read ready (buffer_size - length (fs_buf s)) (fs_file s)))) (\<lambda>(data, file).
     if data = [] then file_send_finish hl (s\<lparr>fs_file := file\<rparr>)
     else
       let buf = fs_buf s @ data in
       if length buf < buffer_size then ret (Continue (s\<lparr>fs_file := file, fs_buf := buf\<rparr>))
       else
         bind_act (act_map_err F_Io (send_all id buf (fs_diode s))) (\<lambda>diode.
         ret (Continue \<lparr>fs_file = file, fs_diode = diode, fs_buf = [], fs_total = fs_total s + buffer_size,
             fs_hasher = map_option (\<lambda>h. hash_vec hl h buf) (fs_hasher s)\<rparr>)))"

definition send_file_aux ::
  "diode_send file_config \<Rightarrow> 'h hasher_lib \<Rightarrow> sink \<Rightarrow> bytes \<Rightarrow> source_file \<Rightarrow> nat list \<Rightarrow>
   (bytes, file_error, ('h file_send, nat) flow) act"
where
  "send_file_aux cfg hl diode file_path src readies =
     (if \<not> sf_is_file src then lift (Err (F_Other ''not a file''))
      else
        bind_act (lift (map_err F_Io (sf_open src))) (\<lambda>file.
        bind_act (lift (ok_or (F_Other ''unwrap of file_name failed'') (file_name_of file_path))) (\<lambda>file_name.
        if \<not> utf8_valid file_name then lift (Err (F_Other ''conversion from OsString to String failed''))
        else
          bind_act (lift (map_err F_Io (sf_metadata src))) (\<lambda>(mode, len).
          bind_act (act_map_err F_Diode (file_header_serialize_to
              \<lparr>fh_file_name = file_name, fh_mode = mode, fh_file_length = len\<rparr> diode)) (\<lambda>diode.
          bind_act (lift (vec_alloc (f_buffer_size cfg))) (\<lambda>buffer_size.
          run (file_send_step buffer_size hl)
            \<lparr>fs_file = file, fs_diode = diode, fs_buf = [], fs_total = 0, fs_hasher = file_hasher cfg hl\<rparr> readies))))))"

text \<open>\<open>connect\<close> answers for the TCP or Unix socket of the configuration.\<close>

definition send_file ::
  "diode_send file_config \<Rightarrow> 'h hasher_lib \<Rightarrow> (diode_send \<Rightarrow> (io_error, sink) res) \<Rightarrow> bytes \<Rightarrow> source_file \<Rightarrow> nat list \<Rightarrow>
   (bytes, file_error, ('h file_send, nat) flow) act"
where
  "send_file cfg hl connect file_path src readies =
     bind_act (lift (map_err F_Io (connect (f_diode cfg)))) (\<lambda>diode.
     send_file_aux cfg hl diode file_path src readies)"

text \<open>One file after the other, each over its own connection: what is sent is tagged by the file.\<close>

fun send_files ::
  "diode_send file_config \<Rightarrow> 'h hasher_lib \<Rightarrow> ((diode_send \<Rightarrow> (io_error, sink) res) \<times> bytes \<times> source_file \<times> nat list) list \<Rightarrow>
   (bytes \<times> bytes, file_error, ('h file_send, unit) flow) act"
where
  "send_files cfg hl [] = ret (Return ())"
| "send_files cfg hl ((connect, file_path, src, readies) # files) =
     (case send_file cfg hl connect file_path src readies of (sent, r) \<Rightarrow>
        bind_act (map (Pair file_path) sent, r) (\<lambda>f. case f of
          Continue s \<Rightarrow> ret (Continue s)             \<comment> \<open>still reading\<close>
        | Return sent_bytes \<Rightarrow> send_files cfg hl files))"

section \<open>Receiving a file\<close>

text \<open>The output directory: which names exist in it, and what opening a new file and setting its mode answer.\<close>

record target_dir =
  td_exists :: "bytes \<Rightarrow> bool"
  td_open :: "bytes \<Rightarrow> (io_error, sink) res"
  td_set_mode :: "bytes \<Rightarrow> u32 \<Rightarrow> (io_error, unit) res"

datatype file_event = Created bytes | Mode_set u32 | Stored bytes

record 'h file_recv =
  fr_diode :: stream
  fr_file :: sink
  fr_buf :: bytes
  fr_remaining :: nat
  fr_hasher :: "'h option"

text \<open>When \<open>read\<close> gives 0 bytes.\<close>

definition file_recv_finish ::
  "'h hasher_lib \<Rightarrow> nat \<Rightarrow> 'h file_recv \<Rightarrow> (file_event, file_error, ('h file_recv, nat) flow) act"
where
  "file_recv_finish hl file_length s =
     (let rest = fr_buf s;
          hasher = (if rest = [] then fr_hasher s else map_option (\<lambda>h. h_write hl h rest) (fr_hasher s));
          received = file_length - fr_remaining s in
      bind_act (if rest = [] then ret (fr_file s) else act_map_err F_Io (send_all Stored rest (fr_file s))) (\<lambda>file.
      bind_act (lift (map_err F_Io (sink_flush file))) (\<lambda>_.
      bind_act (lift (map_err F_Diode (file_footer_deserialize_from (fr_diode s)))) (\<lambda>(footer, _).
      if fr_remaining s \<noteq> 0 then lift (Err (F_Diode (P_InvalidFileSize file_length received)))
      else
        case hasher of
          None \<Rightarrow> ret (Return received)
        | Some h \<Rightarrow>
            let hash = h_finish_ext hl h in
            if ff_hash footer \<noteq> hash then lift (Err (F_Diode (P_InvalidHash hash (ff_hash footer))))
            else ret (Return received)))))"

definition file_recv_step ::
  "nat \<Rightarrow> 'h hasher_lib \<Rightarrow> nat \<Rightarrow> 'h file_recv \<Rightarrow> nat \<Rightarrow> (file_event, file_error, ('h file_recv, nat) flow) act"
where
  "file_recv_step buffer_size hl file_length s ready =
     (let cursor = length (fr_buf s);
          end_pos = (if buffer_size - cursor \<le> fr_remaining s then buffer_size else cursor + fr_remaining s) in
      bind_act (lift (map_err F_Io (read ready (end_pos - cursor) (fr_diode s)))) (\<lambda>(data, diode).
      if data = [] then file_recv_finish hl file_length (s\<lparr>fr_diode := diode\<rparr>)
      else
        let buf = fr_buf s @ data;
            remaining = fr_remaining s - length data in
        if length buf < buffer_size
        then ret (Continue (s\<lparr>fr_diode := diode, fr_buf := buf, fr_remaining := remaining\<rparr>))
        else
          bind_act (act_map_err F_Io (send_all Stored buf (fr_file s))) (\<lambda>file.
          ret (Continue \<lparr>fr_diode = diode, fr_file = file, fr_buf = [], fr_remaining = remaining,
              fr_hasher = map_option (\<lambda>h. hash_vec hl h buf) (fr_hasher s)\<rparr>))))"

definition receive_file ::
  "diode_receive file_config \<Rightarrow> 'h hasher_lib \<Rightarrow> stream \<Rightarrow> target_dir \<Rightarrow> nat list \<Rightarrow>
   (file_event, file_error, ('h file_recv, nat) flow) act"
where
  "receive_file cfg hl diode dir readies =
     bind_act (lift (map_err F_Diode (file_header_deserialize_from diode))) (\<lambda>(header, diode).
     bind_act (lift (ok_or (F_Other ''unwrap of file_name failed'') (file_name_of (fh_file_name header)))) (\<lambda>file_name.
     if td_exists dir file_name then lift (Err (F_Other ''file already exists''))
     else
       bind_act (lift (map_err F_Io (td_open dir file_name))) (\<lambda>file.
       bind_act (say (Created file_name)) (\<lambda>_.
       bind_act (lift (map_err F_Io (td_set_mode dir file_name (fh_mode header)))) (\<lambda>_.
       bind_act (say (Mode_set (fh_mode header))) (\<lambda>_.
       bind_act (lift (vec_alloc (f_buffer_size cfg))) (\<lambda>buffer_size.
       bind_act (lift (ok_or (F_Other try_from_int_error) (try_from (fh_file_length header)))) (\<lambda>remaining :: usize.
       run (file_recv_step buffer_size hl (unat remaining))
         \<lparr>fr_diode = diode, fr_file = file, fr_buf = [], fr_remaining = unat remaining, fr_hasher = file_hasher cfg hl\<rparr>
         readies))))))))"

text \<open>
  The accept loops of the TCP and the Unix socket are the same: \<open>max_files = 0\<close> means no limit, a connection is
  handed to a thread of its own (event \<open>c\<close>). The loop runs on the answers of \<open>accept\<close>; it goes on waiting when they
  are used up.
\<close>

fun receive_loop ::
  "'d file_config \<Rightarrow> nat \<Rightarrow> (io_error, 'c) res list \<Rightarrow> ('c, file_error, (nat, unit) flow) act"
where
  "receive_loop cfg accepted answers =
     (if f_max_files cfg \<noteq> 0 \<and> unat (f_max_files cfg) \<le> accepted then ret (Return ())
      else
        case answers of
          [] \<Rightarrow> ret (Continue accepted)
        | answer # answers \<Rightarrow>
            bind_act (lift (map_err F_Io answer)) (\<lambda>client.
            bind_act (say client) (\<lambda>_. receive_loop cfg (accepted + 1) answers)))"

declare receive_loop.simps [simp del]

text \<open>
  \<open>receive_files\<close>: the threads it starts. The answers are those of \<open>is_dir\<close>, \<open>exists\<close>, \<open>bind\<close> and \<open>spawn\<close>.
\<close>

datatype accept_loop = Unix_loop bytes | Tcp_loop socket_addr

definition receive_files ::
  "diode_receive file_config \<Rightarrow> bool \<Rightarrow> (bytes \<Rightarrow> bool) \<Rightarrow> (accept_loop \<Rightarrow> (io_error, unit) res) \<Rightarrow> (accept_loop \<Rightarrow> bool) \<Rightarrow>
   (accept_loop, file_error, unit) act"
where
  "receive_files cfg is_dir exists_path bind spawn =
     (let start = (\<lambda>l. bind_act (lift (map_err F_Io (bind l))) (\<lambda>_. emit spawn (F_Io Io_failed) l)) in
      if \<not> is_dir then lift (Err (F_Other ''output_directory is not a directory''))
      else
        bind_act (case from_unix (f_diode cfg) of
            None \<Rightarrow> ret ()
          | Some p \<Rightarrow> if exists_path p then lift (Err (F_Other ''Unix socket path already exists'')) else start (Unix_loop p))
          (\<lambda>_. case from_tcp (f_diode cfg) of None \<Rightarrow> ret () | Some a \<Rightarrow> start (Tcp_loop a)))"

section \<open>The hash of a file\<close>

text \<open>Full buffers are hashed as vectors, the rest as bytes: the hash depends on the buffer size.\<close>

definition absorb_file :: "'h hasher_lib \<Rightarrow> nat \<Rightarrow> 'h \<Rightarrow> bytes \<Rightarrow> 'h" where
  "absorb_file hl n h data = (let (full, rest) = pieces n data; h' = foldl (hash_vec hl) h full in
     if rest = [] then h' else h_write hl h' rest)"

definition file_digest :: "'h hasher_lib \<Rightarrow> nat \<Rightarrow> 'h option \<Rightarrow> bytes \<Rightarrow> u128" where
  "file_digest hl n h data = (case h of None \<Rightarrow> 0 | Some h \<Rightarrow> h_finish_ext hl (absorb_file hl n h data))"

lemma absorb_short:
  "length d < n \<Longrightarrow> absorb_file hl n h d = (if d = [] then h else h_write hl h d)"
  by (simp add: absorb_file_def pieces_short)

lemma absorb_full:
  "0 < n \<Longrightarrow> length c = n \<Longrightarrow> absorb_file hl n h (c @ d) = absorb_file hl n (hash_vec hl h c) d"
  by (simp add: absorb_file_def pieces_append case_prod_unfold Let_def)

lemma digest_short:
  "length d < n \<Longrightarrow> file_digest hl n h d =
     (case (if d = [] then h else map_option (\<lambda>h. h_write hl h d) h) of None \<Rightarrow> 0 | Some h \<Rightarrow> h_finish_ext hl h)"
  by (cases h) (simp_all add: file_digest_def absorb_short)

lemma digest_full:
  "0 < n \<Longrightarrow> length c = n \<Longrightarrow>
   file_digest hl n h (c @ d) = file_digest hl n (map_option (\<lambda>h. hash_vec hl h c) h) d"
  by (cases h) (simp_all add: file_digest_def absorb_full)

section \<open>The sender's loop\<close>

lemma act_map_err_simps [simp]:
  "act_map_err f (os, Ok a) = (os, Ok a)" "act_map_err f (os, Err e) = (os, Err (f e))"
  by (simp_all add: act_map_err_def)

lemma sink_flush_reliable [simp]: "reliable k \<Longrightarrow> sink_flush k = Ok ()"
  by (simp add: reliable_def sink_flush_def)

lemma read_data:
  fixes k r :: nat
  assumes "pending s \<noteq> []" and "0 < r"
  obtains d s' where "read k r s = Ok (d, s')" "d \<noteq> []" "length d \<le> r" "pending s = d @ pending s'"
    "broken s' = broken s"
proof -
  let ?m = "min (max 1 k) r"
  have "read k r s = Ok (take ?m (pending s), s\<lparr>pending := drop ?m (pending s)\<rparr>)"
    using assms(1) by (simp add: read_def Let_def)
  moreover have "take ?m (pending s) \<noteq> []" using assms by simp
  ultimately show ?thesis by (rule that) auto
qed

lemma read_eof [simp]: "pending s = [] \<Longrightarrow> \<not> broken s \<Longrightarrow> read k r s = Ok ([], s)"
  by (simp add: read_def Let_def)

lemma read_none [simp]: "read k 0 s = Ok ([], s)"
  by (simp add: read_def Let_def)

lemma file_send_finish_reliable:
  assumes "reliable (fs_diode s)" and "length (fs_buf s) < n"
  shows "\<exists>chunks. file_send_finish hl s = (chunks, Ok (Return (fs_total s + length (fs_buf s))))
    \<and> concat chunks = fs_buf s @ file_footer_bytes \<lparr>ff_hash = file_digest hl n (fs_hasher s) (fs_buf s)\<rparr>"
  using assms
  by (simp add: file_send_finish_def Let_def file_footer_serialize_reliable ret_def act_simps digest_short)

lemma file_send_run:
  assumes "0 < n" and "length (pending (fs_file s)) < length readies"
    and "\<not> broken (fs_file s)" and "reliable (fs_diode s)" and "length (fs_buf s) < n"
  shows "\<exists>chunks. run (file_send_step n hl) s readies
      = (chunks, Ok (Return (fs_total s + length (fs_buf s) + length (pending (fs_file s)))))
    \<and> concat chunks = fs_buf s @ pending (fs_file s)
        @ file_footer_bytes \<lparr>ff_hash = file_digest hl n (fs_hasher s) (fs_buf s @ pending (fs_file s))\<rparr>"
  using assms(2-5)
proof (induction readies arbitrary: s)
  case Nil
  then show ?case by simp
next
  case (Cons k readies)
  show ?case
  proof (cases "pending (fs_file s) = []")
    case True
    have "file_send_step n hl s k = file_send_finish hl (s\<lparr>fs_file := fs_file s\<rparr>)"
      using Cons.prems(2) True by (simp add: file_send_step_def act_simps)
    then show ?thesis
      using file_send_finish_reliable [of s n hl] Cons.prems(3,4) True by (auto simp: ret_def)
  next
    case False
    have "0 < n - length (fs_buf s)" using Cons.prems(4) by simp
    from read_data [OF False this, of k] obtain d "file" where
      rd: "read k (n - length (fs_buf s)) (fs_file s) = Ok (d, file)" "d \<noteq> []"
        "length d \<le> n - length (fs_buf s)" "pending (fs_file s) = d @ pending file" "broken file = broken (fs_file s)" .
    have short: "length (pending file) < length readies" using Cons.prems(1) rd(2,4) by (cases d) auto
    show ?thesis
    proof (cases "length (fs_buf s @ d) < n")
      case True
      define s' where "s' = s\<lparr>fs_file := file, fs_buf := fs_buf s @ d\<rparr>"
      have "file_send_step n hl s k = ([], Ok (Continue s'))"
        using True rd(1,2) by (simp add: file_send_step_def act_simps ret_def s'_def)
      then show ?thesis
        using Cons.IH [of s'] short rd(4,5) True Cons.prems by (auto simp: s'_def)
    next
      case False
      then have len: "length (fs_buf s @ d) = n" using rd(3) Cons.prems(4) by simp
      define s' where "s' = \<lparr>fs_file = file, fs_diode = (fs_diode s)\<lparr>sunk := sunk (fs_diode s) @ (fs_buf s @ d)\<rparr>,
          fs_buf = [], fs_total = fs_total s + n,
          fs_hasher = map_option (\<lambda>h. hash_vec hl h (fs_buf s @ d)) (fs_hasher s)\<rparr>"
      have st: "file_send_step n hl s k = ([fs_buf s @ d], Ok (Continue s'))"
        using False rd(1,2) Cons.prems(3) by (simp add: file_send_step_def act_simps ret_def s'_def Let_def)
      from Cons.IH [of s'] short rd(5) Cons.prems assms(1) obtain chunks where
        c: "run (file_send_step n hl) s' readies
          = (chunks, Ok (Return (fs_total s + n + length (pending file))))"
        "concat chunks = pending file @ file_footer_bytes \<lparr>ff_hash = file_digest hl n (fs_hasher s') (pending file)\<rparr>"
        by (auto simp: s'_def)
      have "file_digest hl n (fs_hasher s') (pending file) = file_digest hl n (fs_hasher s) (fs_buf s @ pending (fs_file s))"
        using digest_full [OF assms(1) len, of hl "fs_hasher s" "pending file"] by (simp add: s'_def rd(4))
      then show ?thesis
        using c st len rd(4) by (intro exI [of _ "(fs_buf s @ d) # chunks"]) simp
    qed
  qed
qed

section \<open>The receiver's loop\<close>

lemma send_all_ok: "send_all f d k = (os, Ok k') \<Longrightarrow> os = [f d] \<and> sunk k' = sunk k @ d"
  using sink_write_ok [of d k] by (cases "sink_write_all d k"; cases "snd (sink_write_all d k)") (auto simp: send_all_def)

text \<open>The end of a file whose data have all been read.\<close>

definition hash_verdict ::
  "'h hasher_lib \<Rightarrow> nat \<Rightarrow> 'h option \<Rightarrow> bytes \<Rightarrow> u128 \<Rightarrow> nat \<Rightarrow> (file_error, ('s, nat) flow) res"
where
  "hash_verdict hl n h data expected len =
     (if h = None \<or> expected = file_digest hl n h data then Ok (Return len)
      else Err (F_Diode (P_InvalidHash (file_digest hl n h data) expected)))"

lemma file_recv_finish_reliable:
  assumes "reliable (fr_file s)" and "length (fr_buf s) < n" and "fr_remaining s = 0"
    and "pending (fr_diode s) = file_footer_bytes f @ rest"
  shows "\<exists>chunks. file_recv_finish hl len s = (map Stored chunks, hash_verdict hl n (fr_hasher s) (fr_buf s) (ff_hash f) len)
    \<and> concat chunks = fr_buf s"
proof -
  have f: "file_footer_deserialize_from (fr_diode s) = Ok (f, (fr_diode s)\<lparr>pending := rest\<rparr>)"
    by (rule file_footer.dec_enc [OF _ assms(4)]) simp
  show ?thesis
    using assms(1-3) f
    by (cases "fr_hasher s"; intro exI [of _ "if fr_buf s = [] then [] else [fr_buf s]"])
      (auto simp: file_recv_finish_def Let_def ret_def act_simps lift_def hash_verdict_def digest_short)
qed

text \<open>How much a step asks for, and what it does with what it gets.\<close>

definition wanted :: "nat \<Rightarrow> 'h file_recv \<Rightarrow> nat" where
  "wanted n s = (if n - length (fr_buf s) \<le> fr_remaining s then n else length (fr_buf s) + fr_remaining s)
     - length (fr_buf s)"

lemma wanted_le: "length (fr_buf s) \<le> n \<Longrightarrow> wanted n s \<le> fr_remaining s \<and> wanted n s \<le> n - length (fr_buf s)"
  by (simp add: wanted_def)

lemma file_recv_step_data:
  assumes "read k (wanted n s) (fr_diode s) = Ok (d, diode)" and "d \<noteq> []"
  shows "file_recv_step n hl len s k =
    (if length (fr_buf s @ d) < n
     then ([], Ok (Continue (s\<lparr>fr_diode := diode, fr_buf := fr_buf s @ d,
             fr_remaining := fr_remaining s - length d\<rparr>)))
     else bind_act (act_map_err F_Io (send_all Stored (fr_buf s @ d) (fr_file s))) (\<lambda>k.
       ret (Continue \<lparr>fr_diode = diode, fr_file = k, fr_buf = [], fr_remaining = fr_remaining s - length d,
         fr_hasher = map_option (\<lambda>h. hash_vec hl h (fr_buf s @ d)) (fr_hasher s)\<rparr>)))"
  using assms by (simp add: file_recv_step_def Let_def act_simps ret_def flip: wanted_def)

lemma file_recv_step_none:
  assumes "read k (wanted n s) (fr_diode s) = Ok ([], diode)"
  shows "file_recv_step n hl len s k = file_recv_finish hl len (s\<lparr>fr_diode := diode\<rparr>)"
  using assms by (simp add: file_recv_step_def Let_def act_simps flip: wanted_def)

lemma file_recv_run:
  assumes "0 < n" and "length data < length readies"
    and "pending (fr_diode s) = data @ file_footer_bytes f @ rest" and "fr_remaining s = length data"
    and "reliable (fr_file s)" and "length (fr_buf s) < n"
  shows "\<exists>chunks. run (file_recv_step n hl len) s readies
      = (map Stored chunks, hash_verdict hl n (fr_hasher s) (fr_buf s @ data) (ff_hash f) len)
    \<and> concat chunks = fr_buf s @ data"
  using assms(2-6)
proof (induction readies arbitrary: s data)
  case Nil
  then show ?case by simp
next
  case (Cons k readies)
  show ?case
  proof (cases "data = []")
    case True
    have st: "file_recv_step n hl len s k = file_recv_finish hl len (s\<lparr>fr_diode := fr_diode s\<rparr>)"
      using True Cons.prems(3,5) by (intro file_recv_step_none) (simp add: wanted_def)
    show ?thesis
      using file_recv_finish_reliable [of s n f rest hl len] Cons.prems True
      by (auto simp: st ret_def hash_verdict_def bind_act_def split: res.splits)
  next
    case False
    define r where "r = wanted n s"
    have r: "0 < r" "r \<le> n - length (fr_buf s)" "r \<le> length data"
      using Cons.prems(3,5) False by (auto simp: r_def wanted_def)
    have "pending (fr_diode s) \<noteq> []" using Cons.prems(2) False by simp
    from read_data [OF this r(1), of k] obtain d diode where
      rd: "read k r (fr_diode s) = Ok (d, diode)" "d \<noteq> []" "length d \<le> r" "pending (fr_diode s) = d @ pending diode"
        "broken diode = broken (fr_diode s)" .
    have "length d \<le> length data" using rd(3) r(3) by simp
    then obtain data' where d: "data = d @ data'"
      using rd(4) Cons.prems(2) by (metis append_eq_append_conv_if append_take_drop_id)
    have pend: "pending diode = data' @ file_footer_bytes f @ rest" using rd(4) Cons.prems(2) d by simp
    have short: "length data' < length readies" using Cons.prems(1) rd(2) d by (cases d) auto
    show ?thesis
    proof (cases "length (fr_buf s @ d) < n")
      case True
      define s' where "s' = s\<lparr>fr_diode := diode, fr_buf := fr_buf s @ d, fr_remaining := length data'\<rparr>"
      have "file_recv_step n hl len s k = ([], Ok (Continue s'))"
        using file_recv_step_data [OF rd(1) [unfolded r_def] rd(2), of hl len] True Cons.prems(3) d
        by (simp add: s'_def)
      then show ?thesis
        using Cons.IH [of data' s'] short pend True Cons.prems(4) d by (auto simp: s'_def)
    next
      case False
      then have len: "length (fr_buf s @ d) = n" using rd(3) r(2) Cons.prems(5) by simp
      define s' where "s' = \<lparr>fr_diode = diode, fr_file = (fr_file s)\<lparr>sunk := sunk (fr_file s) @ (fr_buf s @ d)\<rparr>,
          fr_buf = [], fr_remaining = length data',
          fr_hasher = map_option (\<lambda>h. hash_vec hl h (fr_buf s @ d)) (fr_hasher s)\<rparr>"
      have st: "file_recv_step n hl len s k = ([Stored (fr_buf s @ d)], Ok (Continue s'))"
        using file_recv_step_data [OF rd(1) [unfolded r_def] rd(2), of hl len] False Cons.prems(3,4) d
        by (simp add: s'_def ret_def)
      from Cons.IH [of data' s'] short pend Cons.prems(4) assms(1) obtain chunks where
        c: "run (file_recv_step n hl len) s' readies
          = (map Stored chunks, hash_verdict hl n (fr_hasher s') data' (ff_hash f) len)" "concat chunks = data'"
        by (auto simp: s'_def)
      have "file_digest hl n (fr_hasher s') data' = file_digest hl n (fr_hasher s) (fr_buf s @ data)"
        using digest_full [OF assms(1) len, of hl "fr_hasher s" data'] by (simp add: s'_def d)
      then have "hash_verdict hl n (fr_hasher s') data' (ff_hash f) len
          = hash_verdict hl n (fr_hasher s) (fr_buf s @ data) (ff_hash f) len"
        by (simp add: hash_verdict_def) (simp add: s'_def)
      then show ?thesis
        using c st d by (intro exI [of _ "(fr_buf s @ d) # chunks"]) simp
    qed
  qed
qed

section \<open>What an accepted file is\<close>

definition stored_bytes :: "file_event list \<Rightarrow> bytes" where
  "stored_bytes evs = concat (map (\<lambda>e. case e of Stored d \<Rightarrow> d | _ \<Rightarrow> []) evs)"

lemma stored_bytes_simps [simp]:
  "stored_bytes [] = []"
  "stored_bytes (Stored d # evs) = d @ stored_bytes evs"
  "stored_bytes (Created c # evs) = stored_bytes evs"
  "stored_bytes (Mode_set m # evs) = stored_bytes evs"
  "stored_bytes (xs @ ys) = stored_bytes xs @ stored_bytes ys"
  by (simp_all add: stored_bytes_def)

lemma bind_act_Ok:
  "bind_act m k = (os, Ok b) \<longleftrightarrow> (\<exists>os1 a os2. m = (os1, Ok a) \<and> k a = (os2, Ok b) \<and> os = os1 @ os2)"
proof -
  obtain os1 r where m: "m = (os1, r)" by (cases m)
  show ?thesis by (cases r) (auto simp: m prod_eq_iff)
qed

lemma act_map_err_Ok [simp]: "act_map_err f m = (os, Ok a) \<longleftrightarrow> m = (os, Ok a)"
  by (cases m; cases "snd m") (auto simp: act_map_err_def)

lemma lift_Ok [simp]: "lift r = (os, Ok a) \<longleftrightarrow> os = [] \<and> r = Ok a"
  by (auto simp: lift_def)

lemma ret_Ok [simp]: "ret a = (os, Ok b) \<longleftrightarrow> os = [] \<and> a = b"
  by (auto simp: ret_def)

lemma say_Ok: "say m = (os, Ok b) \<longleftrightarrow> os = [m]"
  by (auto simp: say_def)

lemma map_err_Ok_iff [simp]: "map_err f r = Ok a \<longleftrightarrow> r = Ok a"
  by (cases r) simp_all

text \<open>What the footer parser accepts is a footer.\<close>

lemma footer_parsed:
  assumes "file_footer_deserialize_from r = Ok (f, r')"
  shows "pending r = file_footer_bytes f @ pending r'"
proof -
  have len: "16 \<le> length (pending r)" and f: "f = \<lparr>ff_hash = from_le (take 16 (pending r))\<rparr>"
    and r': "r' = r\<lparr>pending := drop 16 (pending r)\<rparr>"
    using assms by (auto simp: file_footer_deserialize_from_def read_exact_cases split: if_splits)
  have "to_le 16 (from_le (take 16 (pending r)) :: u128) = take 16 (pending r)"
    using len by (intro to_le_from_le) simp_all
  then show ?thesis by (simp add: f r' file_footer_bytes_def)
qed

lemma file_recv_finish_sound:
  assumes "file_recv_finish hl len s = (evs, Ok (Return t))" and "length (fr_buf s) < n"
  shows "fr_remaining s = 0 \<and> t = len \<and> stored_bytes evs = fr_buf s
    \<and> (\<exists>f rest. pending (fr_diode s) = file_footer_bytes f @ rest
        \<and> (fr_hasher s = None \<or> ff_hash f = file_digest hl n (fr_hasher s) (fr_buf s)))"
proof -
  define hs where "hs = (if fr_buf s = [] then fr_hasher s else map_option (\<lambda>h. h_write hl h (fr_buf s)) (fr_hasher s))"
  from assms(1) obtain os1 k f d' where
    w: "(if fr_buf s = [] then ret (fr_file s) else act_map_err F_Io (send_all Stored (fr_buf s) (fr_file s))) = (os1, Ok k)"
    and f: "file_footer_deserialize_from (fr_diode s) = Ok (f, d')"
    and r: "fr_remaining s = 0" "t = len" "evs = os1"
    and h: "hs = None \<or> (\<exists>h. hs = Some h \<and> ff_hash f = h_finish_ext hl h)"
    unfolding file_recv_finish_def Let_def hs_def [symmetric] bind_act_Ok
    by (auto simp: lift_def split: if_splits option.splits)
  have "stored_bytes os1 = fr_buf s"
    using w send_all_ok [of Stored "fr_buf s" "fr_file s" os1 k] by (cases "fr_buf s = []") auto
  moreover have "fr_hasher s = None \<or> ff_hash f = file_digest hl n (fr_hasher s) (fr_buf s)"
    using h unfolding digest_short [OF assms(2)] hs_def by (cases "fr_hasher s") (auto split: if_splits)
  ultimately show ?thesis using r footer_parsed [OF f] by blast
qed

definition accepts ::
  "'h hasher_lib \<Rightarrow> nat \<Rightarrow> 'h file_recv \<Rightarrow> file_event list \<Rightarrow> bytes \<Rightarrow> file_footer \<Rightarrow> bytes \<Rightarrow> bool"
where
  "accepts hl n s evs data f rest \<longleftrightarrow> pending (fr_diode s) = data @ file_footer_bytes f @ rest
     \<and> length data = fr_remaining s \<and> stored_bytes evs = fr_buf s @ data
     \<and> (fr_hasher s = None \<or> ff_hash f = file_digest hl n (fr_hasher s) (fr_buf s @ data))"

lemma file_recv_sound:
  assumes "run (file_recv_step n hl len) s readies = (evs, Ok (Return t))" and "length (fr_buf s) < n"
  shows "t = len \<and> (\<exists>data f rest. accepts hl n s evs data f rest)"
  using assms
proof (induction readies arbitrary: s evs)
  case Nil
  then show ?case by simp
next
  case (Cons k readies)
  from Cons.prems(1) obtain e1 fl e2 where st: "file_recv_step n hl len s k = (e1, Ok fl)"
    and rn: "(case fl of Continue s' \<Rightarrow> run (file_recv_step n hl len) s' readies | Return r \<Rightarrow> ret (Return r))
        = (e2, Ok (Return t))" and evs: "evs = e1 @ e2"
    by (auto simp: bind_act_Ok)
  obtain d diode where rd: "read k (wanted n s) (fr_diode s) = Ok (d, diode)"
    using st by (auto simp: file_recv_step_def Let_def bind_act_Ok wanted_def)
  note pend = read_splits [OF rd]
  show ?case
  proof (cases "d = []")
    case True
    then have fin: "file_recv_finish hl len (s\<lparr>fr_diode := diode\<rparr>) = (e1, Ok fl)"
      using st file_recv_step_none [of k n s diode hl len] rd by simp
    then obtain t' where fl: "fl = Return t'"
      by (auto simp: file_recv_finish_def Let_def bind_act_Ok split: if_splits option.splits)
    then have "evs = e1" "t' = t" using rn evs by (auto simp: ret_def)
    with fin fl file_recv_finish_sound [of hl len "s\<lparr>fr_diode := diode\<rparr>" e1 t n] Cons.prems(2)
    show ?thesis using pend True by (auto simp: accepts_def)
  next
    case False
    have len_d: "length d \<le> fr_remaining s" "length d \<le> n - length (fr_buf s)"
      using read_length_le [OF rd] wanted_le [of s n] Cons.prems(2) by auto
    show ?thesis
    proof (cases "length (fr_buf s @ d) < n")
      case True
      define s' where "s' = s\<lparr>fr_diode := diode, fr_buf := fr_buf s @ d, fr_remaining := fr_remaining s - length d\<rparr>"
      have "e1 = [] \<and> fl = Continue s'"
        using st file_recv_step_data [OF rd False, of hl len] True by (auto simp: s'_def)
      with Cons.IH [of s' e2] rn True obtain data f rest where "t = len" "accepts hl n s' e2 data f rest"
        by (auto simp: s'_def)
      then show ?thesis
        using pend len_d evs \<open>e1 = [] \<and> fl = Continue s'\<close>
        by (intro conjI exI [of _ "d @ data"] exI [of _ f] exI [of _ rest]) (auto simp: accepts_def s'_def)
    next
      case full: False
      then have len: "length (fr_buf s @ d) = n" using len_d Cons.prems(2) by simp
      then have n: "0 < n" using Cons.prems(2) by simp
      from st file_recv_step_data [OF rd False, of hl len] full obtain k' where
        w: "send_all Stored (fr_buf s @ d) (fr_file s) = (e1, Ok k')"
        and fl: "fl = Continue \<lparr>fr_diode = diode, fr_file = k', fr_buf = [], fr_remaining = fr_remaining s - length d,
          fr_hasher = map_option (\<lambda>h. hash_vec hl h (fr_buf s @ d)) (fr_hasher s)\<rparr>"
        by (auto simp: bind_act_Ok)
      define s' where "s' = \<lparr>fr_diode = diode, fr_file = k', fr_buf = [], fr_remaining = fr_remaining s - length d,
          fr_hasher = map_option (\<lambda>h. hash_vec hl h (fr_buf s @ d)) (fr_hasher s)\<rparr>"
      from Cons.IH [of s' e2] rn fl n obtain data f rest where a: "t = len" "accepts hl n s' e2 data f rest"
        by (auto simp: s'_def)
      have "file_digest hl n (fr_hasher s') data = file_digest hl n (fr_hasher s) (fr_buf s @ d @ data)"
        using digest_full [OF n len, of hl "fr_hasher s" data] by (simp add: s'_def)
      then have "accepts hl n s evs (d @ data) f rest"
        using a(2) pend len_d evs send_all_ok [OF w] by (auto simp: accepts_def s'_def)
      then show ?thesis using a(1) by blast
    qed
  qed
qed

text \<open>What the header parser accepts is a header.\<close>

lemma read_exact_splits: "read_exact n s = Ok (bs, s') \<Longrightarrow> length bs = n \<and> pending s = bs @ pending s'"
  by (auto simp: read_exact_cases split: if_splits)

lemma header_parsed:
  assumes "file_header_deserialize_from r = Ok (h, r')"
  shows "pending r = file_header_bytes h @ pending r'"
proof -
  from assms obtain b1 r1 n name r2 m r3 l r4 where
    1: "read_exact 8 r = Ok (b1, r1)" and n: "(vec_alloc (from_le b1 :: usize) :: (file_protocol_error, nat) res) = Ok n"
    and 2: "read_exact n r1 = Ok (name, r2)" and 3: "read_exact 4 r2 = Ok (m, r3)" and 4: "read_exact 8 r3 = Ok (l, r4)"
    and h: "h = \<lparr>fh_file_name = name, fh_mode = from_le m, fh_file_length = from_le l\<rparr>" "r' = r4"
    by (auto simp: file_header_deserialize_from_def and_then_eq_Ok split: if_splits)
  have lens: "length b1 = 8" "length name = n" "length m = 4" "length l = 8"
    and pend: "pending r = b1 @ pending r1" "pending r1 = name @ pending r2" "pending r2 = m @ pending r3"
      "pending r3 = l @ pending r4"
    using read_exact_splits [OF 1] read_exact_splits [OF 2] read_exact_splits [OF 3] read_exact_splits [OF 4]
    by simp_all
  have "n = unat (from_le b1 :: usize)" using n by (auto simp: vec_alloc_def split: if_splits)
  then have "to_le 8 (of_nat (length name) :: usize) = b1"
    using lens(1,2) by (simp add: to_le_from_le)
  moreover have "to_le 4 (from_le m :: u32) = m" "to_le 8 (from_le l :: u64) = l"
    using lens by (simp_all add: to_le_from_le)
  ultimately show ?thesis by (simp add: h file_header_bytes_def pend)
qed

lemma receive_file_opens:
  assumes "receive_file cfg hl diode dir readies = (evs, Ok fl)"
  shows "\<exists>h diode' name k n. file_header_deserialize_from diode = Ok (h, diode')
    \<and> file_name_of (fh_file_name h) = Some name \<and> \<not> td_exists dir name \<and> td_open dir name = Ok k
    \<and> n = unat (f_buffer_size cfg)
    \<and> (\<exists>evs'. evs = Created name # Mode_set (fh_mode h) # evs' \<and>
        run (file_recv_step n hl (unat (fh_file_length h)))
         \<lparr>fr_diode = diode', fr_file = k, fr_buf = [], fr_remaining = unat (fh_file_length h),
          fr_hasher = file_hasher cfg hl\<rparr> readies = (evs', Ok fl))"
proof -
  from assms obtain h diode' name k n r evs' where
    "file_header_deserialize_from diode = Ok (h, diode')" "file_name_of (fh_file_name h) = Some name"
    "\<not> td_exists dir name" "td_open dir name = Ok k"
    "(vec_alloc (f_buffer_size cfg) :: (file_error, nat) res) = Ok n"
    "(try_from (fh_file_length h) :: usize option) = Some r" "evs = Created name # Mode_set (fh_mode h) # evs'"
    "run (file_recv_step n hl (unat r))
         \<lparr>fr_diode = diode', fr_file = k, fr_buf = [], fr_remaining = unat r,
          fr_hasher = file_hasher cfg hl\<rparr> readies = (evs', Ok fl)"
    unfolding receive_file_def
    by (auto simp: bind_act_Ok say_Ok ok_or_eq_Ok simp del: bind_act_simps split: if_splits)
  moreover from this have "n = unat (f_buffer_size cfg)" by (auto simp: vec_alloc_def split: if_splits)
  moreover have "unat r = unat (fh_file_length h)"
    using \<open>try_from (fh_file_length h) = Some r\<close> by (rule try_from_Some)
  ultimately show ?thesis by auto
qed

text \<open>With more reads than bytes the receiver does not go on reading for ever: it accepts or fails.\<close>

lemma file_recv_finish_ends: "snd (file_recv_finish hl len s) \<noteq> Ok (Continue s')"
proof
  assume "snd (file_recv_finish hl len s) = Ok (Continue s')"
  then obtain evs where "file_recv_finish hl len s = (evs, Ok (Continue s'))" by (metis prod.collapse)
  then show False by (auto simp: file_recv_finish_def Let_def bind_act_Ok split: if_splits option.splits)
qed

lemma file_recv_run_ends:
  assumes "length (pending (fr_diode s)) < length readies"
  shows "run (file_recv_step n hl len) s readies \<noteq> (evs, Ok (Continue s'))"
  using assms
proof (induction readies arbitrary: s evs)
  case Nil
  then show ?case by simp
next
  case (Cons k readies)
  show ?case
  proof
    assume "run (file_recv_step n hl len) s (k # readies) = (evs, Ok (Continue s'))"
    then obtain e1 fl e2 where st: "file_recv_step n hl len s k = (e1, Ok fl)"
      and rn: "(case fl of Continue t \<Rightarrow> run (file_recv_step n hl len) t readies | Return r \<Rightarrow> ret (Return r))
        = (e2, Ok (Continue s'))"
      by (auto simp: bind_act_Ok)
    then obtain t where fl: "fl = Continue t" by (cases fl) auto
    obtain d diode where rd: "read k (wanted n s) (fr_diode s) = Ok (d, diode)"
      using st by (auto simp: file_recv_step_def Let_def bind_act_Ok wanted_def)
    show False
    proof (cases "d = []")
      case True
      then show False
        using st fl file_recv_step_none [of k n s diode hl len] rd
          file_recv_finish_ends [of hl len "s\<lparr>fr_diode := diode\<rparr>" t] by simp
    next
      case False
      have "fr_diode t = diode"
        using st fl file_recv_step_data [OF rd False, of hl len] by (auto simp: bind_act_Ok split: if_splits)
      then show False
        using Cons.IH [of t e2] Cons.prems rn fl read_splits [OF rd] False by (cases d) auto
    qed
  qed
qed

lemma receive_file_ends:
  assumes "length (pending diode) < length readies"
  shows "receive_file cfg hl diode dir readies \<noteq> (evs, Ok (Continue s))"
proof
  assume "receive_file cfg hl diode dir readies = (evs, Ok (Continue s))"
  from receive_file_opens [OF this] obtain h diode' k n evs' where
    h: "file_header_deserialize_from diode = Ok (h, diode')"
    and rn: "run (file_recv_step n hl (unat (fh_file_length h)))
         \<lparr>fr_diode = diode', fr_file = k, fr_buf = [], fr_remaining = unat (fh_file_length h),
          fr_hasher = file_hasher cfg hl\<rparr> readies = (evs', Ok (Continue s))" by blast
  have "length (pending diode') < length readies" using header_parsed [OF h] assms by simp
  then show False using rn file_recv_run_ends [of "\<lparr>fr_diode = diode', fr_file = k, fr_buf = [],
      fr_remaining = unat (fh_file_length h), fr_hasher = file_hasher cfg hl\<rparr>" readies] by simp
qed

text \<open>Of a stream that stops before its end nothing is accepted.\<close>

lemma receive_file_cut:
  assumes cut: "pending diode @ lost = file_header_bytes h @ content @ file_footer_bytes f"
    and h: "file_header_valid h" "unat (fh_file_length h) = length content"
    and rc: "receive_file cfg hl diode dir readies = (evs, Ok (Return t))" "0 < f_buffer_size cfg"
  shows "lost = [] \<and> t = length content
    \<and> (\<exists>name written. file_name_of (fh_file_name h) = Some name
        \<and> evs = Created name # Mode_set (fh_mode h) # written \<and> stored_bytes written = content)"
proof -
  from receive_file_opens [OF rc(1)] obtain h' diode' name k n evs' where
    h': "file_header_deserialize_from diode = Ok (h', diode')" "file_name_of (fh_file_name h') = Some name"
    and n: "n = unat (f_buffer_size cfg)" and evs: "evs = Created name # Mode_set (fh_mode h') # evs'"
    and rn: "run (file_recv_step n hl (unat (fh_file_length h')))
         \<lparr>fr_diode = diode', fr_file = k, fr_buf = [], fr_remaining = unat (fh_file_length h'),
          fr_hasher = file_hasher cfg hl\<rparr> readies = (evs', Ok (Return t))" by blast
  obtain rest where rest: "pending diode = file_header_bytes h @ rest"
  proof (cases "length (pending diode) < length (file_header_bytes h)")
    case True
    have "pending diode = take (length (pending diode)) (pending diode @ lost)" by simp
    also have "\<dots> = take (length (pending diode)) (file_header_bytes h)" unfolding cut using True by simp
    finally show ?thesis using file_header.dec_cut [OF h(1) True, of diode] h'(1) by auto
  next
    case False
    then have "take (length (file_header_bytes h)) (pending diode @ lost) = file_header_bytes h" unfolding cut by simp
    with False show ?thesis using that by (metis append_take_drop_id append_Nil2 diff_is_0_eq' not_less take0 take_append)
  qed
  from file_header.dec_enc [OF h(1) rest] h'(1)
  have hh: "h' = h" "diode' = diode\<lparr>pending := rest\<rparr>" by simp_all
  have "0 < n" using rc(2) n by (simp add: word_less_nat_alt)
  with file_recv_sound [OF rn] obtain data f' rest' where
    t: "t = unat (fh_file_length h)" and a: "rest = data @ file_footer_bytes f' @ rest'" "length data = length content"
      "stored_bytes evs' = data"
    using hh h(2) by (auto simp: accepts_def)
  from cut rest a(1) have "data @ file_footer_bytes f' @ rest' @ lost = content @ file_footer_bytes f" by simp
  then have d: "data = content" "file_footer_bytes f' @ rest' @ lost = file_footer_bytes f" using a(2) by simp_all
  from arg_cong [OF d(2), of length] have "lost = []" by (simp add: file_footer_bytes_def)
  then show ?thesis using t h(2) h'(2) evs a(3) d(1) hh(1) by auto
qed

text \<open>Whatever happens, only the plain name of the header is created, and only if it does not exist.\<close>

lemma act_map_err_fst [simp]: "fst (act_map_err f m) = fst m"
  by (simp add: act_map_err_def)

lemma send_all_member: "e \<in> set (fst (send_all f d k)) \<Longrightarrow> \<exists>d. e = f d"
  by (auto simp: send_all_def split: prod.splits)

interpretation file_receiver: worker "file_recv_step n hl len" "\<lambda>_. True" "\<lambda>e. \<exists>d. e = Stored d"
  for n len and hl :: "'h hasher_lib"
proof
  fix s :: "'h file_recv" and e k
  assume "e \<in> set (fst (file_recv_step n hl len s k))"
  then show "\<exists>d. e = Stored d"
    by (auto simp: file_recv_step_def file_recv_finish_def Let_def bind_act_member lift_def ret_def
        dest!: send_all_member split: if_splits option.splits)
qed simp

lemma receive_file_created:
  assumes "Created c \<in> set (fst (receive_file cfg hl diode dir readies))"
  shows "\<not> td_exists dir c \<and> (\<exists>p. file_name_of p = Some c)"
proof -
  have no: "Created c \<notin> set (fst (run (file_recv_step n hl len) s readies))" for n len s
    using file_receiver.run_good [OF TrueI] by blast
  show ?thesis
    using assms unfolding receive_file_def
    by (auto simp: bind_act_member lift_def say_def no ok_or_eq_Ok simp del: bind_act_simps split: if_splits)
qed

lemma send_file_stream:
  assumes "sf_is_file src" and "sf_open src = Ok content" and "\<not> broken content"
    and "sf_metadata src = Ok (mode, len)" and "file_name_of path = Some name" and "utf8_valid name"
    and "reliable diode" and "0 < f_buffer_size cfg" and "unat (f_buffer_size cfg) < 2 ^ 63"
    and "length (pending content) < length readies"
  shows "\<exists>sent. send_file_aux cfg hl diode path src readies = (sent, Ok (Return (length (pending content))))
    \<and> concat sent = file_header_bytes \<lparr>fh_file_name = name, fh_mode = mode, fh_file_length = len\<rparr>
        @ pending content @ file_footer_bytes
          \<lparr>ff_hash = file_digest hl (unat (f_buffer_size cfg)) (file_hasher cfg hl) (pending content)\<rparr>"
proof -
  let ?h = "\<lparr>fh_file_name = name, fh_mode = mode, fh_file_length = len\<rparr>"
  from file_header_serialize_reliable [OF assms(7), of ?h] obtain c1 where
    c1: "file_header_serialize_to ?h diode = (c1, Ok (diode\<lparr>sunk := sunk diode @ file_header_bytes ?h\<rparr>))"
      "concat c1 = file_header_bytes ?h" by blast
  define s where "s = \<lparr>fs_file = content, fs_diode = diode\<lparr>sunk := sunk diode @ file_header_bytes ?h\<rparr>,
      fs_buf = [], fs_total = 0, fs_hasher = file_hasher cfg hl\<rparr>"
  have n: "0 < unat (f_buffer_size cfg)" using assms(8) by (simp add: word_less_nat_alt)
  from file_send_run [OF n, of s readies hl] assms(3,7,10) n obtain c2 where
    c2: "run (file_send_step (unat (f_buffer_size cfg)) hl) s readies = (c2, Ok (Return (length (pending content))))"
      "concat c2 = pending content @ file_footer_bytes
         \<lparr>ff_hash = file_digest hl (unat (f_buffer_size cfg)) (file_hasher cfg hl) (pending content)\<rparr>"
    by (auto simp: s_def)
  have "send_file_aux cfg hl diode path src readies = (c1 @ c2, Ok (Return (length (pending content))))"
    using assms(1,2,4,5,6,9) c1(1) c2(1) by (simp add: send_file_aux_def act_simps vec_alloc_def s_def)
  then show ?thesis using c1(2) c2(2) by auto
qed

lemma receive_file_stream:
  assumes "utf8_valid name" and "length name < 2 ^ 63" and "file_name_of name = Some c"
    and "\<not> td_exists dir c" and "td_open dir c = Ok k" and "reliable k" and "td_set_mode dir c mode = Ok ()"
    and "0 < f_buffer_size cfg" and "unat (f_buffer_size cfg) < 2 ^ 63"
    and "unat len = length data" and "length data < length readies"
    and "pending diode = file_header_bytes \<lparr>fh_file_name = name, fh_mode = mode, fh_file_length = len\<rparr>
        @ data @ file_footer_bytes f @ rest"
  shows "\<exists>stored. receive_file cfg hl diode dir readies = (Created c # Mode_set mode # map Stored stored,
      hash_verdict hl (unat (f_buffer_size cfg)) (file_hasher cfg hl) data (ff_hash f) (length data))
    \<and> concat stored = data"
proof -
  let ?h = "\<lparr>fh_file_name = name, fh_mode = mode, fh_file_length = len\<rparr>"
  have h: "file_header_deserialize_from diode = Ok (?h, diode\<lparr>pending := data @ file_footer_bytes f @ rest\<rparr>)"
    using assms(1,2,12) by (intro file_header.dec_enc) (simp_all add: file_header_valid_def)
  have fits: "(try_from len :: usize option) = Some (ucast len)"
    using unsigned_less [of len, where 'a = nat] by (intro try_from_fits) simp
  have len: "unat (ucast len :: usize) = length data" using assms(10) by (simp add: unat_ucast_le)
  define s where "s = \<lparr>fr_diode = diode\<lparr>pending := data @ file_footer_bytes f @ rest\<rparr>, fr_file = k, fr_buf = [],
      fr_remaining = length data, fr_hasher = file_hasher cfg hl\<rparr>"
  have n: "0 < unat (f_buffer_size cfg)" using assms(8) by (simp add: word_less_nat_alt)
  from file_recv_run [OF n assms(11), of s f rest hl "length data"] assms(6) n obtain stored where
    "run (file_recv_step (unat (f_buffer_size cfg)) hl (length data)) s readies = (map Stored stored,
       hash_verdict hl (unat (f_buffer_size cfg)) (file_hasher cfg hl) data (ff_hash f) (length data))"
    "concat stored = data" by (auto simp: s_def)
  then show ?thesis
    using assms(3-5,7,9) h fits len
    by (intro exI [of _ stored])
      (simp add: receive_file_def act_simps vec_alloc_def say_def flip: s_def)
qed

text \<open>A source file and an output directory for the witnesses.\<close>

definition sample_source :: source_file where
  "sample_source = \<lparr>sf_is_file = True, sf_open = Ok \<lparr>pending = [1, 2, 3], broken = False\<rparr>,
     sf_metadata = Ok (420, 3)\<rparr>"

definition sample_dir :: target_dir where
  "sample_dir = \<lparr>td_exists = (\<lambda>_. False), td_open = (\<lambda>_. Ok open_sink), td_set_mode = (\<lambda>_ _. Ok ())\<rparr>"

definition sample_sender :: "usize \<Rightarrow> diode_send file_config" where
  "sample_sender n = \<lparr>f_diode = Tcp (V4 (127, 0, 0, 1) 5000), f_buffer_size = n, f_hash = True, f_max_files = 0\<rparr>"

definition sample_receiver :: "usize \<Rightarrow> diode_receive file_config" where
  "sample_receiver n = \<lparr>f_diode = \<lparr>from_tcp = Some (V4 (127, 0, 0, 1) 7000), from_unix = None\<rparr>, f_buffer_size = n,
     f_hash = True, f_max_files = 0\<rparr>"

lemma sample_file_simps [simp]:
  "sf_is_file sample_source" "sf_open sample_source = Ok \<lparr>pending = [1, 2, 3], broken = False\<rparr>"
  "sf_metadata sample_source = Ok (420, 3)"
  "\<not> td_exists sample_dir c" "td_open sample_dir c = Ok open_sink" "td_set_mode sample_dir c m = Ok ()"
  "f_buffer_size (sample_sender n) = n" "f_hash (sample_sender n)"
  "f_buffer_size (sample_receiver n) = n" "f_hash (sample_receiver n)"
  "reliable open_sink"
  by (simp_all add: sample_source_def sample_dir_def sample_sender_def sample_receiver_def reliable_def open_sink_def)

lemma sample_path [simp]: "file_name_of [0x61, SLASH, 0x62] = Some [0x62]" "utf8_valid [0x62]"
  by (simp_all add: file_name_of_def path_components_def SLASH_def DOT_def utf8_lead_def)

lemma file_transferred:
  assumes src: "sf_is_file src" "sf_open src = Ok content" "\<not> broken content" "sf_metadata src = Ok (mode, len)"
      "unat len = length (pending content)" "file_name_of path = Some name" "utf8_valid name" "length name < 2 ^ 63"
    and dir: "\<not> td_exists dir name" "td_open dir name = Ok k" "reliable k" "td_set_mode dir name mode = Ok ()"
    and net: "reliable diode" "length (pending content) < length readies" "length (pending content) < length readies'"
    and cfg: "0 < f_buffer_size scfg" "unat (f_buffer_size scfg) < 2 ^ 63"
      "f_buffer_size rcfg = f_buffer_size scfg" "f_hash rcfg = f_hash scfg"
  shows "\<exists>sent stored.
      send_file_aux scfg hl diode path src readies = (sent, Ok (Return (length (pending content))))
    \<and> receive_file rcfg hl \<lparr>pending = concat sent @ rest, broken = b\<rparr> dir readies'
      = (Created name # Mode_set mode # map Stored stored, Ok (Return (length (pending content))))
    \<and> concat stored = pending content"
proof -
  from send_file_stream [OF src(1-4,6,7) net(1) cfg(1,2) net(2), of hl] obtain sent where
    sent: "send_file_aux scfg hl diode path src readies = (sent, Ok (Return (length (pending content))))"
      "concat sent = file_header_bytes \<lparr>fh_file_name = name, fh_mode = mode, fh_file_length = len\<rparr>
        @ pending content @ file_footer_bytes
          \<lparr>ff_hash = file_digest hl (unat (f_buffer_size scfg)) (file_hasher scfg hl) (pending content)\<rparr>" by blast
  have name: "file_name_of name = Some name"
    using file_name_of_plain [OF src(6)] by (intro file_name_of_name) auto
  have "file_hasher rcfg hl = file_hasher scfg hl" using cfg(4) by (simp add: file_hasher_def)
  then show ?thesis
    using receive_file_stream [OF src(7,8) name dir(1-3) dir(4) _ _ src(5) net(3), of rcfg
        "\<lparr>pending = concat sent @ rest, broken = b\<rparr>"
        "\<lparr>ff_hash = file_digest hl (unat (f_buffer_size scfg)) (file_hasher scfg hl) (pending content)\<rparr>" rest hl]
      sent cfg by (auto simp: hash_verdict_def)
qed

section \<open>Properties\<close>

text \<open>Property C31. A file through the diode: what is sent, received with the same buffer size and the same choice of
  hashing, however the reads are cut into pieces on both sides and whatever follows on the stream, is stored
  under the last component of the path, with the same mode and the same contents, and both sides report its length.\<close>

theorem file_roundtrip:
  assumes src: "sf_is_file src" "sf_open src = Ok content" "\<not> broken content" "sf_metadata src = Ok (mode, len)"
      "unat len = length (pending content)" "file_name_of path = Some name" "utf8_valid name" "length name < 2 ^ 63"
    and dir: "\<not> td_exists dir name" "td_open dir name = Ok k" "reliable k" "td_set_mode dir name mode = Ok ()"
    and net: "reliable diode" "length (pending content) < length readies" "length (pending content) < length readies'"
    and cfg: "0 < f_buffer_size scfg" "unat (f_buffer_size scfg) < 2 ^ 63"
      "f_buffer_size rcfg = f_buffer_size scfg" "f_hash rcfg = f_hash scfg"
  shows "\<exists>sent stored.
      send_file_aux scfg hl diode path src readies = (sent, Ok (Return (length (pending content))))
    \<and> receive_file rcfg hl \<lparr>pending = concat sent @ rest, broken = b\<rparr> dir readies'
      = (Created name # Mode_set mode # map Stored stored, Ok (Return (length (pending content))))
    \<and> concat stored = pending content"
  by (rule file_transferred [OF src dir net cfg])

theorem file_roundtrip_witness:
  "\<exists>sent stored. snd (send_file_aux (sample_sender 2) sample_hasher open_sink [0x61, SLASH, 0x62] sample_source [1, 1, 1, 1])
      = Ok (Return 3)
    \<and> receive_file (sample_receiver 2) sample_hasher \<lparr>pending = concat sent, broken = False\<rparr> sample_dir [2, 2, 2, 2]
      = (Created [0x62] # Mode_set 420 # map Stored stored, Ok (Return 3))
    \<and> concat stored = [1, 2, 3]"
proof -
  let ?c = "\<lparr>pending = [1, 2, 3], broken = False\<rparr>"
  have len: "length (pending ?c) = 3" by simp
  have "\<exists>sent stored.
      send_file_aux (sample_sender 2) sample_hasher open_sink [0x61, SLASH, 0x62] sample_source [1, 1, 1, 1]
        = (sent, Ok (Return (length (pending ?c))))
    \<and> receive_file (sample_receiver 2) sample_hasher \<lparr>pending = concat sent @ [], broken = False\<rparr> sample_dir [2, 2, 2, 2]
      = (Created [0x62] # Mode_set 420 # map Stored stored, Ok (Return (length (pending ?c))))
    \<and> concat stored = pending ?c"
    by (rule file_roundtrip [where len = 3 and k = open_sink]) (simp_all del: utf8_valid.simps)
  then obtain sent stored where
    "send_file_aux (sample_sender 2) sample_hasher open_sink [0x61, SLASH, 0x62] sample_source [1, 1, 1, 1]
        = (sent, Ok (Return 3))"
    "receive_file (sample_receiver 2) sample_hasher \<lparr>pending = concat sent @ [], broken = False\<rparr> sample_dir [2, 2, 2, 2]
      = (Created [0x62] # Mode_set 420 # map Stored stored, Ok (Return 3))" "concat stored = pending ?c"
    unfolding len by (elim exE conjE)
  then show ?thesis by (intro exI [of _ sent] exI [of _ stored]) simp
qed

text \<open>Property C34. The hash of a file depends on the buffer size, because full buffers are hashed as vectors. A receiver
  that hashes accepts the unchanged file of a sender that hashes if and only if the two digests, each
  with its own buffer size, agree; otherwise it reports an invalid hash, with all the bytes stored correctly. The digests
  agree when the buffer sizes are the same, and also for a file shorter than both buffers; for a longer file
  and different buffer sizes this is up to the hash function (the witness shows a file that is refused).\<close>

theorem file_hash_by_buffer_size:
  assumes src: "sf_is_file src" "sf_open src = Ok content" "\<not> broken content" "sf_metadata src = Ok (mode, len)"
      "unat len = length (pending content)" "file_name_of path = Some name" "utf8_valid name" "length name < 2 ^ 63"
    and dir: "\<not> td_exists dir name" "td_open dir name = Ok k" "reliable k" "td_set_mode dir name mode = Ok ()"
    and net: "reliable diode" "length (pending content) < length readies" "length (pending content) < length readies'"
    and cfg: "0 < f_buffer_size scfg" "unat (f_buffer_size scfg) < 2 ^ 63" "f_hash scfg"
      "0 < f_buffer_size rcfg" "unat (f_buffer_size rcfg) < 2 ^ 63" "f_hash rcfg"
  shows "let digest = (\<lambda>cfg_size. file_digest hl (unat cfg_size) (Some (h_default hl)) (pending content));
             expected = digest (f_buffer_size scfg); computed = digest (f_buffer_size rcfg) in
    \<exists>sent stored. fst (send_file_aux scfg hl diode path src readies) = sent
    \<and> receive_file rcfg hl \<lparr>pending = concat sent, broken = False\<rparr> dir readies'
      = (Created name # Mode_set mode # map Stored stored,
         if expected = computed then Ok (Return (length (pending content)))
         else Err (F_Diode (P_InvalidHash computed expected)))
    \<and> concat stored = pending content
    \<and> (f_buffer_size scfg = f_buffer_size rcfg
         \<or> length (pending content) < unat (f_buffer_size scfg) \<and> length (pending content) < unat (f_buffer_size rcfg)
       \<longrightarrow> expected = computed)"
proof -
  from send_file_stream [OF src(1-4,6,7) net(1) cfg(1,2) net(2), of hl] obtain sent where
    sent: "send_file_aux scfg hl diode path src readies = (sent, Ok (Return (length (pending content))))"
      "concat sent = file_header_bytes \<lparr>fh_file_name = name, fh_mode = mode, fh_file_length = len\<rparr>
        @ pending content @ file_footer_bytes
          \<lparr>ff_hash = file_digest hl (unat (f_buffer_size scfg)) (file_hasher scfg hl) (pending content)\<rparr>" by blast
  have name: "file_name_of name = Some name"
    using file_name_of_plain [OF src(6)] by (intro file_name_of_name) auto
  have "file_hasher rcfg hl = Some (h_default hl)" "file_hasher scfg hl = Some (h_default hl)"
    using cfg(3,6) by (simp_all add: file_hasher_def)
  then show ?thesis
    using receive_file_stream [OF src(7,8) name dir(1-3) dir(4) cfg(4,5) src(5) net(3), of
        "\<lparr>pending = concat sent, broken = False\<rparr>"
        "\<lparr>ff_hash = file_digest hl (unat (f_buffer_size scfg)) (file_hasher scfg hl) (pending content)\<rparr>" "[]" hl]
      sent by (auto simp: hash_verdict_def Let_def file_digest_def absorb_file_def pieces_short)
qed

theorem file_hash_by_buffer_size_witness:
  "snd (receive_file (sample_receiver 4) sample_hasher
      \<lparr>pending = concat (fst (send_file_aux (sample_sender 2) sample_hasher open_sink [0x61, SLASH, 0x62] sample_source
         [2, 2, 2, 2])), broken = False\<rparr> sample_dir [2, 2, 2, 2])
    = Err (F_Diode (P_InvalidHash 1026 60608))"
proof -
  have "pieces 2 [1, 2, 3] = ([[1, 2]], [3])" "pieces 4 [1, 2, 3] = ([], [1, 2, 3])"
    by (simp_all add: pieces.simps)
  then have "file_digest sample_hasher (unat (2 :: usize)) (Some (h_default sample_hasher)) [1, 2, 3] = 60608"
      "file_digest sample_hasher (unat (4 :: usize)) (Some (h_default sample_hasher)) [1, 2, 3] = 1026"
    by (simp_all add: file_digest_def absorb_file_def hash_vec_def sample_hasher_def)
  then show ?thesis
    using file_hash_by_buffer_size [of sample_source "\<lparr>pending = [1, 2, 3], broken = False\<rparr>" 420 3
        "[0x61, SLASH, 0x62]" "[0x62]" sample_dir open_sink open_sink "[2, 2, 2, 2]" "[2, 2, 2, 2]" "sample_sender 2"
        "sample_receiver 4" sample_hasher]
    by (simp add: Let_def del: utf8_valid.simps) (elim exE conjE, simp)
qed

text \<open>Property C32. An accepted file is intact. From whatever arrives, corrupt or cut off anywhere, and whatever the file
  system answers, \<open>receive_file\<close> returns \<open>Ok\<close> only for a stream that has a header, as many bytes as
  the header says, and a footer; it has then stored exactly these bytes, in order, under the last component of the
  name, and their hash is the one of the footer, if it hashes.\<close>

theorem accepted_file_intact:
  assumes "receive_file cfg hl diode dir readies = (evs, Ok (Return t))" and "0 < f_buffer_size cfg"
  shows "\<exists>h name data f rest written.
      pending diode = file_header_bytes h @ data @ file_footer_bytes f @ rest
    \<and> file_name_of (fh_file_name h) = Some name \<and> unat (fh_file_length h) = length data \<and> t = length data
    \<and> evs = Created name # Mode_set (fh_mode h) # written \<and> stored_bytes written = data
    \<and> (f_hash cfg \<longrightarrow> ff_hash f = file_digest hl (unat (f_buffer_size cfg)) (Some (h_default hl)) data)"
proof -
  from receive_file_opens [OF assms(1)] obtain h diode' name k n evs' where
    h: "file_header_deserialize_from diode = Ok (h, diode')" "file_name_of (fh_file_name h) = Some name"
    and n: "n = unat (f_buffer_size cfg)" and evs: "evs = Created name # Mode_set (fh_mode h) # evs'"
    and rn: "run (file_recv_step n hl (unat (fh_file_length h)))
         \<lparr>fr_diode = diode', fr_file = k, fr_buf = [], fr_remaining = unat (fh_file_length h),
          fr_hasher = file_hasher cfg hl\<rparr> readies = (evs', Ok (Return t))" by blast
  have "0 < n" using assms(2) n by (simp add: word_less_nat_alt)
  with file_recv_sound [OF rn] obtain data f rest where
    t: "t = unat (fh_file_length h)" and a: "accepts hl n \<lparr>fr_diode = diode', fr_file = k, fr_buf = [],
      fr_remaining = unat (fh_file_length h), fr_hasher = file_hasher cfg hl\<rparr> evs' data f rest" by auto
  have "f_hash cfg \<longrightarrow> ff_hash f = file_digest hl n (Some (h_default hl)) data"
    using a by (auto simp: accepts_def file_hasher_def)
  then show ?thesis
    using header_parsed [OF h(1)] h(2) evs t a n
    by (intro exI [of _ h] exI [of _ name] exI [of _ data] exI [of _ f] exI [of _ rest] exI [of _ evs'])
      (simp add: accepts_def)
qed

theorem accepted_file_intact_witness:
  "\<exists>evs name data written. receive_file ((sample_receiver 2)\<lparr>f_hash := False\<rparr>) sample_hasher
      \<lparr>pending = file_header_bytes \<lparr>fh_file_name = [0x62], fh_mode = 420, fh_file_length = 3\<rparr> @ [1, 2, 3]
         @ file_footer_bytes \<lparr>ff_hash = 0\<rparr> @ [], broken = False\<rparr> sample_dir [1, 1, 1, 1] = (evs, Ok (Return (length data)))
    \<and> evs = Created name # Mode_set 420 # written \<and> stored_bytes written = data \<and> length data = 3"
proof -
  let ?h = "\<lparr>fh_file_name = [0x62], fh_mode = 420, fh_file_length = 3\<rparr>" and ?cfg = "(sample_receiver 2)\<lparr>f_hash := False\<rparr>"
  let ?s = "\<lparr>pending = file_header_bytes ?h @ [1, 2, 3] @ file_footer_bytes \<lparr>ff_hash = 0\<rparr> @ [], broken = False\<rparr>"
  have "file_name_of [0x62] = Some [0x62]"
    by (rule file_name_of_name) (simp_all add: SLASH_def DOT_def)
  then have "\<exists>stored. receive_file ?cfg sample_hasher ?s sample_dir [1, 1, 1, 1]
      = (Created [0x62] # Mode_set 420 # map Stored stored,
         hash_verdict sample_hasher (unat (f_buffer_size ?cfg)) (file_hasher ?cfg sample_hasher) [1, 2, 3] 0
           (length [1 :: u8, 2, 3])) \<and> concat stored = [1, 2, 3]"
    using receive_file_stream [of "[0x62]" "[0x62]" sample_dir open_sink 420 ?cfg 3 "[1, 2, 3]" "[1, 1, 1, 1]" ?s
        "\<lparr>ff_hash = 0\<rparr>" "[]" sample_hasher] by (simp del: utf8_valid.simps)
  moreover have "length [1 :: u8, 2, 3] = 3" by simp
  ultimately obtain stored where rc: "receive_file ?cfg sample_hasher ?s sample_dir [1, 1, 1, 1]
      = (Created [0x62] # Mode_set 420 # map Stored stored, Ok (Return 3))"
    by (auto simp: hash_verdict_def file_hasher_def)
  have "0 < f_buffer_size ?cfg" by simp
  from accepted_file_intact [OF rc this] obtain name data written where
    "(3 :: nat) = length data" "Created [0x62] # Mode_set 420 # map Stored stored = Created name # Mode_set 420 # written"
    "stored_bytes written = data" by auto
  with rc show ?thesis by auto
qed

text \<open>Property C33. The receiver stays in its directory and overwrites nothing, whatever name the header gives: the
  only file it ever creates has a plain name, without a slash and not \<open>.\<close> or \<open>..\<close>, that did not exist.\<close>

theorem file_name_confined:
  assumes "Created name \<in> set (fst (receive_file cfg hl diode dir readies))"
  shows "SLASH \<notin> set name \<and> name \<noteq> [] \<and> name \<noteq> [DOT] \<and> name \<noteq> [DOT, DOT] \<and> \<not> td_exists dir name"
  using receive_file_created [OF assms] file_name_of_plain by blast

theorem file_name_confined_witness:
  "\<exists>name. Created name \<in> set (fst (receive_file (sample_receiver 2) sample_hasher
      \<lparr>pending = file_header_bytes \<lparr>fh_file_name = [DOT, DOT, SLASH, 0x62], fh_mode = 420, fh_file_length = 0\<rparr>,
        broken = False\<rparr> sample_dir [])) \<and> SLASH \<notin> set name"
proof -
  let ?h = "\<lparr>fh_file_name = [DOT, DOT, SLASH, 0x62], fh_mode = 420, fh_file_length = 0\<rparr>"
  let ?s = "\<lparr>pending = file_header_bytes ?h, broken = False\<rparr>"
  have "utf8_valid [DOT, DOT, SLASH, 0x62]" by (rule utf8_valid_ascii) (auto simp: DOT_def SLASH_def)
  then have "file_header_deserialize_from ?s = Ok (?h, ?s\<lparr>pending := []\<rparr>)"
    by (intro file_header.dec_enc) (simp_all add: file_header_valid_def del: utf8_valid.simps)
  moreover have "file_name_of [DOT, DOT, SLASH, 0x62] = Some [0x62]"
    by (simp add: file_name_of_def path_components_def SLASH_def DOT_def)
  ultimately have c: "Created [0x62] \<in> set (fst (receive_file (sample_receiver 2) sample_hasher ?s sample_dir []))"
    by (simp add: receive_file_def act_simps bind_act_member say_def del: bind_act_simps)
  from file_name_confined [OF c] c show ?thesis by blast
qed

text \<open>The accept loop with a limit hands on exactly that many connections and then returns, and with
  limit 0 it never returns by itself.\<close>

theorem receive_loop_limit:
  assumes "unat (f_max_files cfg) \<le> length clients"
  shows "receive_loop cfg 0 (map Ok clients) =
    (if f_max_files cfg = 0 then (clients, Ok (Continue (length clients)))
     else (take (unat (f_max_files cfg)) clients, Ok (Return ())))"
proof -
  have 0: "f_max_files cfg = 0 \<Longrightarrow> receive_loop cfg k (map Ok cs) = (cs, Ok (Continue (k + length cs)))"
    for k and cs :: "'b list"
    by (induction cs arbitrary: k) (simp_all add: receive_loop.simps act_simps say_def ret_def)
  have "f_max_files cfg \<noteq> 0 \<Longrightarrow> k \<le> unat (f_max_files cfg) \<Longrightarrow> unat (f_max_files cfg) \<le> k + length cs \<Longrightarrow>
      receive_loop cfg k (map Ok cs) = (take (unat (f_max_files cfg) - k) cs, Ok (Return ()))"
    for k and cs :: "'b list"
  proof (induction cs arbitrary: k)
    case Nil
    then show ?case by (simp add: receive_loop.simps ret_def)
  next
    case (Cons c cs)
    show ?case
    proof (cases "k = unat (f_max_files cfg)")
      case True
      then show ?thesis using Cons.prems(1) by (subst receive_loop.simps) (simp add: ret_def)
    next
      case False
      then show ?thesis
        using Cons by (subst receive_loop.simps) (simp add: act_simps say_def take_Cons')
    qed
  qed
  from this [of 0 clients] 0 [of 0 clients] show ?thesis using assms by simp
qed

theorem receive_loop_limit_witness:
  "receive_loop ((sample_receiver 2)\<lparr>f_max_files := 2\<rparr>) 0 (map Ok [10, 20, 30 :: nat]) = ([10, 20], Ok (Return ()))"
  using receive_loop_limit [of "(sample_receiver 2)\<lparr>f_max_files := 2\<rparr>" "[10, 20, 30 :: nat]"] by simp

end
