(* ===== verification/Udp_Aux.thy ===== *)
theory Udp_Aux
  imports File_Transfer
begin

text \<open>
  \<open>src/aux/udp\<close>: UDP datagrams through the diode's stream sockets. The sender puts the length in front of every
  datagram it receives, the receiver cuts the stream at these lengths and sends the datagrams on. The answers of
  the UDP socket and of \<open>accept\<close> are inputs; a datagram that is longer than the buffer is cut by \<open>recv_from\<close>.
\<close>

section \<open>Configuration and errors\<close>

record 'd udp_config =
  u_diode :: 'd
  u_buffer_size :: usize

datatype udp_protocol_error = Q_Io io_error

datatype udp_error =
    U_Io io_error
  | U_Diode udp_protocol_error
  | U_Other string

section \<open>The header\<close>

record udp_header =
  uh_size :: usize

definition udp_header_serialize_to :: "udp_header \<Rightarrow> sink \<Rightarrow> (bytes, udp_protocol_error, sink) act" where
  "udp_header_serialize_to h w = act_map_err Q_Io (send_all id (to_le 8 (uh_size h)) w)"

definition udp_header_deserialize_from :: "stream \<Rightarrow> (udp_protocol_error, udp_header \<times> stream) res" where
  "udp_header_deserialize_from r =
     and_then (map_err Q_Io (read_exact 8 r)) (\<lambda>(size_bytes, r). Ok (\<lparr>uh_size = from_le size_bytes\<rparr>, r))"

definition udp_header_bytes :: "udp_header \<Rightarrow> bytes" where
  "udp_header_bytes h = to_le 8 (uh_size h)"

interpretation udp_header: codec udp_header_bytes udp_header_deserialize_from "\<lambda>_. True"
  by unfold_locales (auto simp: udp_header_deserialize_from_def udp_header_bytes_def read_exact_cases)

section \<open>Sending\<close>

text \<open>One round: the answer of \<open>recv_from\<close>, the header, the bytes in the buffer.\<close>

definition udp_aux_send_step ::
  "nat \<Rightarrow> sink \<Rightarrow> (io_error, bytes) res \<Rightarrow> (bytes, udp_error, (sink, unit) flow) act"
where
  "udp_aux_send_step buffer_size diode answer =
     bind_act (lift (map_err U_Io answer)) (\<lambda>dgram.
       let data = take buffer_size dgram in
       bind_act (act_map_err U_Diode (udp_header_serialize_to \<lparr>uh_size = of_nat (length data)\<rparr> diode)) (\<lambda>diode.
       bind_act (act_map_err U_Io (send_all id data diode)) (\<lambda>diode.
       ret (Continue diode))))"

definition send_udp_aux ::
  "'d udp_config \<Rightarrow> sink \<Rightarrow> (io_error, unit) res \<Rightarrow> (io_error, bytes) res list \<Rightarrow>
   (bytes, udp_error, (sink, unit) flow) act"
where
  "send_udp_aux cfg diode bind answers =
     bind_act (lift (vec_alloc (u_buffer_size cfg))) (\<lambda>buffer_size.
     bind_act (lift (map_err U_Io bind)) (\<lambda>_.
     run (udp_aux_send_step buffer_size) diode answers))"

text \<open>\<open>send\<close>: \<open>connect\<close> answers for the TCP or Unix socket of the configuration.\<close>

definition send_udp ::
  "diode_send udp_config \<Rightarrow> (diode_send \<Rightarrow> (io_error, sink) res) \<Rightarrow> (io_error, unit) res \<Rightarrow>
   (io_error, bytes) res list \<Rightarrow> (bytes, udp_error, (sink, unit) flow) act"
where
  "send_udp cfg connect bind answers =
     bind_act (lift (map_err U_Io (connect (u_diode cfg)))) (\<lambda>diode. send_udp_aux cfg diode bind answers)"

section \<open>Receiving\<close>

text \<open>One round: the header, \<open>&mut buffer[0..header.size]\<close>, its bytes, and the answer of \<open>send_to\<close>.\<close>

definition udp_aux_recv_step ::
  "nat \<Rightarrow> stream \<Rightarrow> (io_error, unit) res \<Rightarrow> (bytes, udp_error, (stream, nat) flow) act"
where
  "udp_aux_recv_step buffer_size diode answer =
     bind_act (lift (map_err U_Diode (udp_header_deserialize_from diode))) (\<lambda>(header, diode).
     if buffer_size < unat (uh_size header) then lift Panic
     else
       bind_act (lift (map_err U_Io (read_exact (unat (uh_size header)) diode))) (\<lambda>(data, diode).
       bind_act (lift (map_err U_Io answer)) (\<lambda>_.
       bind_act (say data) (\<lambda>_. ret (Continue diode)))))"

definition receive_udp ::
  "'d udp_config \<Rightarrow> stream \<Rightarrow> (io_error, unit) res \<Rightarrow> (io_error, unit) res list \<Rightarrow>
   (bytes, udp_error, (stream, nat) flow) act"
where
  "receive_udp cfg diode bind answers =
     bind_act (lift (map_err U_Io bind)) (\<lambda>_.
     bind_act (lift (vec_alloc (u_buffer_size cfg))) (\<lambda>buffer_size.
     run (udp_aux_recv_step buffer_size) diode answers))"

text \<open>
  The loops over the clients of the TCP and of the Unix socket are the same; they serve one client after the other. A
  client comes with its stream and the answers of \<open>bind\<close> and \<open>send_to\<close>. An error of a client is only logged; the loop
  ends with an error of \<open>accept\<close>, and stays with a client whose answers are used up.
\<close>

record udp_client =
  uc_stream :: stream
  uc_bind :: "(io_error, unit) res"
  uc_answers :: "(io_error, unit) res list"

fun receive_udp_loop ::
  "'d udp_config \<Rightarrow> (io_error, udp_client) res list \<Rightarrow> (bytes, udp_error, (stream option, unit) flow) act"
where
  "receive_udp_loop cfg [] = ret (Continue None)"
| "receive_udp_loop cfg (answer # answers) =
     bind_act (lift (map_err U_Io answer)) (\<lambda>c.
       case receive_udp cfg (uc_stream c) (uc_bind c) (uc_answers c) of
         (sent, Ok (Continue diode)) \<Rightarrow> (sent, Ok (Continue (Some diode)))
       | (sent, Ok (Return _)) \<Rightarrow> bind_act (sent, Ok ()) (\<lambda>_. receive_udp_loop cfg answers)
       | (sent, Err _) \<Rightarrow> bind_act (sent, Ok ()) (\<lambda>_. receive_udp_loop cfg answers)
       | (sent, Panic) \<Rightarrow> (sent, Panic)
       | (sent, Diverges) \<Rightarrow> (sent, Diverges))"

text \<open>\<open>receive\<close>: the Unix loop never returns \<open>Ok\<close>, so with both sockets the TCP one is not served.\<close>

definition receive_udp_clients ::
  "diode_receive udp_config \<Rightarrow> (bytes \<Rightarrow> bool) \<Rightarrow> (accept_loop \<Rightarrow> (io_error, unit) res) \<Rightarrow>
   (accept_loop \<Rightarrow> (io_error, udp_client) res list) \<Rightarrow> (bytes, udp_error, (stream option, unit) flow) act"
where
  "receive_udp_clients cfg exists_path bind clients =
     (let serve = (\<lambda>l. bind_act (lift (map_err U_Io (bind l))) (\<lambda>_. receive_udp_loop cfg (clients l)));
          tcp = (case from_tcp (u_diode cfg) of None \<Rightarrow> ret (Return ()) | Some a \<Rightarrow> serve (Tcp_loop a)) in
      case from_unix (u_diode cfg) of
        None \<Rightarrow> tcp
      | Some p \<Rightarrow>
          if exists_path p then lift (Err (U_Other ''Unix socket path already exists''))
          else bind_act (serve (Unix_loop p)) (\<lambda>f. case f of Continue s \<Rightarrow> ret (Continue s) | Return _ \<Rightarrow> tcp))"

section \<open>Framing\<close>

definition frame :: "bytes \<Rightarrow> bytes" where
  "frame d = udp_header_bytes \<lparr>uh_size = of_nat (length d)\<rparr> @ d"

lemma unat_of_length: "length d < 2 ^ 64 \<Longrightarrow> unat (of_nat (length d) :: usize) = length d"
  by (simp add: unat_of_nat)

lemma udp_send_step_reliable:
  assumes "reliable k"
  shows "udp_aux_send_step n k (Ok d) =
     ([udp_header_bytes \<lparr>uh_size = of_nat (length (take n d))\<rparr>, take n d],
      Ok (Continue (k\<lparr>sunk := sunk k @ frame (take n d)\<rparr>)))"
  using assms
  by (simp add: udp_aux_send_step_def udp_header_serialize_to_def udp_header_bytes_def frame_def act_simps ret_def Let_def)

lemma udp_send_run:
  "reliable k \<Longrightarrow> \<exists>k'. reliable k' \<and>
     concat (fst (run (udp_aux_send_step n) k (map Ok ds))) = concat (map (frame \<circ> take n) ds)
     \<and> snd (run (udp_aux_send_step n) k (map Ok ds)) = Ok (Continue k')"
proof (induction ds arbitrary: k)
  case Nil
  then show ?case by (simp add: ret_def)
next
  case (Cons d ds)
  from Cons.IH [of "k\<lparr>sunk := sunk k @ frame (take n d)\<rparr>"] Cons.prems show ?case
    by (simp add: udp_send_step_reliable frame_def)
qed

lemma udp_recv_step_frame:
  assumes "pending s = frame d @ rest" and "length d \<le> n" and "n < 2 ^ 64"
  shows "udp_aux_recv_step n s (Ok ()) = ([d], Ok (Continue (s\<lparr>pending := rest\<rparr>)))"
proof -
  have "udp_header_deserialize_from s = Ok (\<lparr>uh_size = of_nat (length d)\<rparr>, s\<lparr>pending := d @ rest\<rparr>)"
    using assms(1) by (intro udp_header.dec_enc) (simp_all add: frame_def)
  with assms show ?thesis
    by (simp add: udp_aux_recv_step_def act_simps unat_of_length say_def ret_def)
qed

lemma udp_recv_step_eof:
  "length (pending s) < 8 \<Longrightarrow>
   udp_aux_recv_step n s answer = ([], Err (U_Diode (Q_Io (if broken s then Io_failed else UnexpectedEof))))"
  by (simp add: udp_aux_recv_step_def udp_header_deserialize_from_def read_exact_cases act_simps lift_def)

lemma udp_recv_run:
  assumes "\<forall>d \<in> set ds. length d \<le> n" and "n < 2 ^ 64" and "pending s = concat (map frame ds) @ rest"
  shows "run (udp_aux_recv_step n) s (replicate (length ds) (Ok ()) @ more_answers) =
    (ds @ fst (run (udp_aux_recv_step n) (s\<lparr>pending := rest\<rparr>) more_answers),
     snd (run (udp_aux_recv_step n) (s\<lparr>pending := rest\<rparr>) more_answers))"
  using assms
proof (induction ds arbitrary: s)
  case Nil
  then have "s\<lparr>pending := rest\<rparr> = s" by simp
  then show ?case by simp
next
  case (Cons d ds)
  then have "udp_aux_recv_step n s (Ok ()) =
      ([d], Ok (Continue (s\<lparr>pending := concat (map frame ds) @ rest\<rparr>)))"
    by (intro udp_recv_step_frame) simp_all
  with Cons show ?case by simp
qed

text \<open>Whatever comes in, what is forwarded is framed in it, in order and from the start.\<close>

lemma udp_recv_step_framed:
  "\<exists>rest. pending s = concat (map frame (fst (udp_aux_recv_step n s answer))) @ rest
     \<and> (\<forall>s'. snd (udp_aux_recv_step n s answer) = Ok (Continue s') \<longrightarrow> rest = pending s')"
proof (cases "8 \<le> length (pending s)")
  case False
  then show ?thesis by (simp add: udp_recv_step_eof)
next
  case True
  define sz where "sz = (from_le (take 8 (pending s)) :: usize)"
  define d where "d = take (unat sz) (drop 8 (pending s))"
  have hdr: "udp_header_deserialize_from s = Ok (\<lparr>uh_size = sz\<rparr>, s\<lparr>pending := drop 8 (pending s)\<rparr>)"
    using True by (simp add: udp_header_deserialize_from_def read_exact_def sz_def)
  have "frame d @ drop (unat sz) (drop 8 (pending s)) = pending s" if "unat sz \<le> length (drop 8 (pending s))"
  proof -
    have "length d = unat sz" using that by (simp add: d_def)
    moreover have "to_le 8 sz = take 8 (pending s)"
      unfolding sz_def using True by (intro to_le_from_le) simp_all
    ultimately have "frame d = take 8 (pending s) @ d" by (simp add: frame_def udp_header_bytes_def)
    then show ?thesis by (simp add: d_def del: drop_drop)
  qed
  then show ?thesis
    by (cases answer)
      (auto simp: udp_aux_recv_step_def hdr act_simps read_exact_def d_def say_def ret_def lift_def simp del: drop_drop)
qed

lemma udp_recv_run_framed:
  "\<exists>rest. pending s = concat (map frame (fst (run (udp_aux_recv_step n) s answers))) @ rest"
proof (induction answers arbitrary: s)
  case Nil
  then show ?case by (simp add: ret_def)
next
  case (Cons a answers)
  obtain sent r where st: "udp_aux_recv_step n s a = (sent, r)" by (cases "udp_aux_recv_step n s a")
  with udp_recv_step_framed [of s n a] obtain rest where
    rest: "pending s = concat (map frame sent) @ rest" "\<And>s'. r = Ok (Continue s') \<Longrightarrow> rest = pending s'" by auto
  show ?case
  proof (cases "\<exists>s'. r = Ok (Continue s')")
    case True
    then obtain s' where "r = Ok (Continue s')" by blast
    with st rest Cons.IH [of s'] show ?thesis by auto
  next
    case False
    with st rest show ?thesis by (cases r) (auto simp: ret_def split: flow.splits)
  qed
qed

interpretation udp_receiver: worker "udp_aux_recv_step n" "\<lambda>_. True" "\<lambda>d. length d \<le> n" for n
proof
  fix s :: stream and m :: bytes and a :: "(io_error, unit) res"
  assume m: "m \<in> set (fst (udp_aux_recv_step n s a))"
  then obtain h s' where h: "udp_header_deserialize_from s = Ok (h, s')" "unat (uh_size h) \<le> n"
    by (cases "udp_header_deserialize_from s") (auto simp: udp_aux_recv_step_def act_simps lift_def split: if_splits)
  then show "length m \<le> n"
    using m by (cases a) (auto simp: udp_aux_recv_step_def act_simps lift_def read_exact_def say_def ret_def split: if_splits)
qed simp

section \<open>Datagrams through the diode\<close>

lemma receive_udp_frames:
  assumes "unat (u_buffer_size cfg) < 2 ^ 63" and "\<forall>d \<in> set ds. length d \<le> unat (u_buffer_size cfg)"
  shows "receive_udp cfg \<lparr>pending = concat (map frame ds), broken = b\<rparr> (Ok ()) (replicate (Suc (length ds)) (Ok ()))
    = (ds, Err (U_Diode (Q_Io (if b then Io_failed else UnexpectedEof))))"
proof -
  let ?s = "\<lparr>pending = concat (map frame ds), broken = b\<rparr>"
  have "replicate (Suc (length ds)) (Ok () :: (io_error, unit) res) = replicate (length ds) (Ok ()) @ [Ok ()]"
    by (simp add: replicate_append_same)
  then show ?thesis
    using udp_recv_run [OF assms(2), of ?s "[]" "[Ok ()]"] assms(1) unfolding receive_udp_def
    by (simp add: act_simps res_simps udp_recv_step_eof del: replicate_Suc)
qed

text \<open>A stream that breaks off: the datagrams whose frames are complete are forwarded, and nothing else.\<close>

lemma length_frame: "length (frame d) = length d + 8"
  by (simp add: frame_def udp_header_bytes_def)

lemma udp_recv_step_cut:
  assumes "pending s = take k (frame d)" and "k < length (frame d)" and "length d \<le> n" and "n < 2 ^ 64"
  shows "\<exists>e. udp_aux_recv_step n s answer = ([], Err e)"
proof (cases "k < 8")
  case True
  then show ?thesis using assms(1) udp_recv_step_eof [of s n answer] by simp
next
  case False
  let ?h = "\<lparr>uh_size = of_nat (length d)\<rparr>"
  have "take k (frame d) = udp_header_bytes ?h @ take (k - 8) d"
    using False by (simp add: frame_def udp_header_bytes_def)
  then have "udp_header_deserialize_from s = Ok (?h, s\<lparr>pending := take (k - 8) d\<rparr>)"
    using assms(1) by (intro udp_header.dec_enc) simp_all
  moreover have "\<not> length d \<le> k - 8" using assms(2) False by (simp add: length_frame)
  ultimately show ?thesis
    using assms(3,4)
    by (simp add: udp_aux_recv_step_def act_simps unat_of_length read_exact_cases lift_def)
qed

text \<open>How many of the frames are complete in the first \<open>k\<close> bytes.\<close>

definition complete_frames :: "nat \<Rightarrow> bytes list \<Rightarrow> nat \<Rightarrow> bool" where
  "complete_frames k ds j \<longleftrightarrow> j \<le> length ds \<and> length (concat (map frame (take j ds))) \<le> k
     \<and> (j < length ds \<longrightarrow> k < length (concat (map frame (take (Suc j) ds))))"

lemma udp_recv_run_cut:
  assumes "\<forall>d \<in> set ds. length d \<le> n" and "n < 2 ^ 64" and "pending s = take k (concat (map frame ds))"
  shows "\<exists>j e. complete_frames k ds j
    \<and> run (udp_aux_recv_step n) s (replicate (Suc (length ds)) (Ok ())) = (take j ds, Err e)"
  using assms
proof (induction ds arbitrary: s k)
  case Nil
  then show ?case by (simp add: complete_frames_def udp_recv_step_eof)
next
  case (Cons d ds)
  show ?case
  proof (cases "length (frame d) \<le> k")
    case True
    let ?s = "s\<lparr>pending := take (k - length (frame d)) (concat (map frame ds))\<rparr>"
    from Cons.IH [of ?s "k - length (frame d)"] Cons.prems obtain j e where
      j: "complete_frames (k - length (frame d)) ds j"
        "run (udp_aux_recv_step n) ?s (replicate (Suc (length ds)) (Ok ())) = (take j ds, Err e)" by auto
    have "udp_aux_recv_step n s (Ok ()) = ([d], Ok (Continue ?s))"
      using Cons.prems True by (intro udp_recv_step_frame) simp_all
    then have "run (udp_aux_recv_step n) s (replicate (Suc (length (d # ds))) (Ok ())) = (take (Suc j) (d # ds), Err e)"
      using j(2) by simp
    moreover have "complete_frames k (d # ds) (Suc j)"
      using j(1) True by (auto simp: complete_frames_def)
    ultimately show ?thesis by blast
  next
    case False
    then obtain e where "udp_aux_recv_step n s (Ok ()) = ([], Err e)"
      using udp_recv_step_cut [of s k d n "Ok ()"] Cons.prems by auto
    then show ?thesis
      using False by (intro exI [of _ 0] exI [of _ e]) (simp add: complete_frames_def)
  qed
qed

lemma receive_udp_cut:
  assumes "unat (u_buffer_size cfg) < 2 ^ 63" and "\<forall>d \<in> set ds. length d \<le> unat (u_buffer_size cfg)"
    and "got @ lost = concat (map frame ds)"
  shows "\<exists>j e. complete_frames (length got) ds j
    \<and> receive_udp cfg \<lparr>pending = got, broken = b\<rparr> (Ok ()) (replicate (Suc (length ds)) (Ok ())) = (take j ds, Err e)"
proof -
  have "got = take (length got) (concat (map frame ds))" by (simp flip: assms(3))
  then show ?thesis
    using udp_recv_run_cut [OF assms(2), of "\<lparr>pending = got, broken = b\<rparr>" "length got"] assms(1)
    by (simp add: receive_udp_def act_simps res_simps del: replicate_Suc)
qed

text \<open>What a cut costs: the datagrams after the first lost one are shorter, framed, than the lost bytes.\<close>

lemma complete_frames_lost:
  assumes "complete_frames (length got) ds j" and "got @ lost = concat (map frame ds)"
  shows "length (concat (map frame (drop (Suc j) ds))) \<le> length lost" and "lost = [] \<Longrightarrow> j = length ds"
proof -
  have "concat (map frame ds) = concat (map frame (take (Suc j) ds)) @ concat (map frame (drop (Suc j) ds))"
    by (metis append_take_drop_id concat_append map_append)
  then have len: "length got + length lost = length (concat (map frame (take (Suc j) ds)))
      + length (concat (map frame (drop (Suc j) ds)))"
    by (metis assms(2) length_append)
  then show "length (concat (map frame (drop (Suc j) ds))) \<le> length lost"
    using assms(1) by (cases "j < length ds") (auto simp: complete_frames_def)
  show "j = length ds" if "lost = []"
    using len that assms(1) by (cases "j < length ds") (auto simp: complete_frames_def)
qed

definition udp_stream_client :: "bool \<Rightarrow> bytes \<Rightarrow> nat \<Rightarrow> udp_client" where
  "udp_stream_client b bs k =
     \<lparr>uc_stream = \<lparr>pending = bs, broken = b\<rparr>, uc_bind = Ok (), uc_answers = replicate k (Ok ())\<rparr>"

lemma send_udp_frames:
  assumes "connect (u_diode cfg) = Ok diode" and "reliable diode" and "unat (u_buffer_size cfg) < 2 ^ 63"
  shows "concat (fst (send_udp cfg connect (Ok ()) (map Ok ds))) =
    concat (map frame (map (take (unat (u_buffer_size cfg))) ds))"
  using udp_send_run [OF assms(2), of "unat (u_buffer_size cfg)" ds] assms
  by (auto simp: send_udp_def send_udp_aux_def act_simps res_simps)

text \<open>Property C36. Datagrams survive the way through the stream. Whatever datagrams the sending side receives, in any
  number of sessions, the receiving side sends exactly these on, session after session and in order, each with
  its bounds (and cut to the sender's buffer); the end of a session is an error that does not stop the loop.\<close>

theorem udp_aux_roundtrip:
  assumes "connect (u_diode scfg) = Ok diode" "reliable diode"
    and "unat (u_buffer_size scfg) \<le> unat (u_buffer_size rcfg)" "unat (u_buffer_size rcfg) < 2 ^ 63"
  shows "receive_udp_loop rcfg
      (map (\<lambda>(b, ds). Ok (udp_stream_client b (concat (fst (send_udp scfg connect (Ok ()) (map Ok ds)))) (Suc (length ds))))
        sessions)
    = (concat (map (\<lambda>(b, ds). map (take (unat (u_buffer_size scfg))) ds) sessions), Ok (Continue None))"
proof (induction sessions)
  case Nil
  then show ?case by (simp add: ret_def)
next
  case (Cons x sessions)
  obtain b ds where x: "x = (b, ds)" by (cases x)
  let ?ds = "map (take (unat (u_buffer_size scfg))) ds"
  have "concat (fst (send_udp scfg connect (Ok ()) (map Ok ds))) = concat (map frame ?ds)"
    using assms by (intro send_udp_frames) simp_all
  moreover have "receive_udp rcfg \<lparr>pending = concat (map frame ?ds), broken = b\<rparr> (Ok ()) (replicate (Suc (length ?ds)) (Ok ()))
      = (?ds, Err (U_Diode (Q_Io (if b then Io_failed else UnexpectedEof))))"
    using assms by (intro receive_udp_frames) auto
  ultimately show ?case
    using Cons.IH by (simp add: x udp_stream_client_def act_simps del: replicate_Suc)
qed

theorem udp_aux_roundtrip_witness:
  "receive_udp_loop \<lparr>u_diode = \<lparr>from_tcp = None, from_unix = Some [0x75]\<rparr>, u_buffer_size = 0xFFFF\<rparr>
      (map (\<lambda>(b, ds). Ok (udp_stream_client b
          (concat (fst (send_udp \<lparr>u_diode = Unix [0x73], u_buffer_size = 2\<rparr> (\<lambda>_. Ok open_sink) (Ok ()) (map Ok ds))))
          (Suc (length ds))))
        [(False, [[1], [], [2, 3, 4]]), (True, [[5]])])
    = ([[1], [], [2, 3], [5]], Ok (Continue None))"
  using udp_aux_roundtrip [of "\<lambda>_. Ok open_sink" "\<lparr>u_diode = Unix [0x73], u_buffer_size = 2\<rparr>" open_sink
      "\<lparr>u_diode = \<lparr>from_tcp = None, from_unix = Some [0x75]\<rparr>, u_buffer_size = 0xFFFF\<rparr>"
      "[(False, [[1], [], [2, 3, 4]]), (True, [[5]])]"]
  by (simp add: reliable_def open_sink_def)

text \<open>Property C37. Nothing is made up: whatever bytes arrive, however the socket answers and wherever the stream ends,
  the datagrams that are sent on are, framed, a beginning of these bytes, and none of them exceeds the buffer.\<close>

theorem udp_aux_framing:
  "(\<exists>rest. pending diode = concat (map frame (fst (receive_udp cfg diode bind answers))) @ rest)
   \<and> list_all (\<lambda>d. length d \<le> unat (u_buffer_size cfg)) (fst (receive_udp cfg diode bind answers))"
proof (cases "vec_alloc (u_buffer_size cfg) :: (udp_error, nat) res")
  case (Ok n)
  then have "n = unat (u_buffer_size cfg)" by (auto simp: vec_alloc_def split: if_splits)
  with Ok show ?thesis
    using udp_recv_run_framed [of diode n answers] udp_receiver.run_good [of _ n diode answers]
    by (cases bind) (auto simp: receive_udp_def act_simps lift_def list_all_iff)
qed (cases bind; simp add: receive_udp_def lift_def)+

text \<open>A header that announces more than the buffer kills the program: the slice panics, and as the
  clients are served in the accepting thread no later client is served. This holds for every content of the
  stream.\<close>

theorem udp_aux_oversize_panics:
  assumes "8 \<le> length (pending (uc_stream c))"
    and "unat (u_buffer_size cfg) < unat (from_le (take 8 (pending (uc_stream c))) :: usize)"
    and "uc_bind c = Ok ()" "uc_answers c \<noteq> []" "unat (u_buffer_size cfg) < 2 ^ 63"
  shows "receive_udp_loop cfg (Ok c # later) = ([], Panic)"
proof -
  obtain a as where "uc_answers c = a # as" using assms(4) by (cases "uc_answers c") auto
  moreover have "udp_aux_recv_step (unat (u_buffer_size cfg)) (uc_stream c) a = ([], Panic)"
    using assms(1,2) by (simp add: udp_aux_recv_step_def udp_header_deserialize_from_def read_exact_def act_simps lift_def)
  ultimately show ?thesis
    using assms by (simp add: receive_udp_def act_simps res_simps)
qed

theorem udp_aux_oversize_panics_witness:
  "receive_udp_loop \<lparr>u_diode = \<lparr>from_tcp = None, from_unix = Some [0x75]\<rparr>, u_buffer_size = 0xFFFF\<rparr>
      [Ok (udp_stream_client False (to_le 8 (0x10000 :: usize)) 1), Ok (udp_stream_client False [] 1)] = ([], Panic)"
  by (rule udp_aux_oversize_panics) (simp_all add: udp_stream_client_def)

end
