(* ===== verification/Tools.thy ===== *)
theory Tools
  imports Programs Udp_Aux
begin

text \<open>
  The other programs of \<open>src/bin\<close>: \<open>diode-config\<close>, which tries a RaptorQ configuration, \<open>diode-flood-test\<close>,
  and the tools around \<open>src/aux\<close> for files and UDP datagrams, with the C interface of \<open>diode-file-bindings\<close>.
  Random numbers are inputs; as in \<open>Programs\<close>, a \<open>main\<close> that logs an error and returns is an \<open>Err\<close>.
\<close>

section \<open>\<open>diode-config\<close>\<close>

record config_args =
  ac_log_level :: level_filter
  ac_mtu :: u16
  ac_block :: u32
  ac_repair :: u32
  ac_min_repair :: u32
  ac_remove :: u32

definition config_args_default :: config_args where
  "config_args_default = \<lparr>ac_log_level = L_Info, ac_mtu = 1500, ac_block = 734928, ac_repair = 2, ac_min_repair = 1, ac_remove = 1\<rparr>"

text \<open>How it ends: an exit status, or a last log line and status 0.\<close>

datatype config_end = Exit nat | Decode_failed | Decode_OK

definition swap :: "nat \<Rightarrow> nat \<Rightarrow> 'a list \<Rightarrow> ('e, 'a list) res" where
  "swap i j xs = (if i < length xs \<and> j < length xs then Ok (xs[i := xs ! j, j := xs ! i]) else Panic)"

fun shuffle_from :: "nat \<Rightarrow> nat list \<Rightarrow> 'a list \<Rightarrow> ('e, 'a list) res" where
  "shuffle_from i [] xs = Ok xs"
| "shuffle_from i (j # js) xs = and_then (swap i j xs) (shuffle_from (Suc i) js)"

definition split_off :: "nat \<Rightarrow> 'a list \<Rightarrow> ('e, 'a list) res" where
  "split_off n xs = (if n \<le> length xs then Ok (drop n xs) else Panic)"

text \<open>
  The number of packets to remove, and the test of one block. \<open>data\<close> are the random bytes, \<open>rng i\<close> the answer of
  \<open>random_range\<close> in round \<open>i\<close>. From the level \<open>Debug\<close> on a log line looks at the first packet.
\<close>

definition nb_removed :: "bool \<Rightarrow> nat \<Rightarrow> u32 \<Rightarrow> (unit, nat) res" where
  "nb_removed chk packet_count remove_percentage =
     and_then (mul_chk chk (of_nat packet_count :: usize) (ucast remove_percentage)) (\<lambda>n. Ok (unat (n div 100)))"

definition config_test ::
  "bool \<Rightarrow> ('plan, 'cfg, 'pkt) raptorq_lib \<Rightarrow> ('plan, 'cfg) raptorq \<Rightarrow> bool \<Rightarrow> u32 \<Rightarrow> (nat \<Rightarrow> u8) \<Rightarrow> (nat \<Rightarrow> nat) \<Rightarrow>
   (unit, config_end) res"
where
  "config_test chk lib rq debug remove_percentage rnd rng =
     and_then (vec_alloc (ucast (block_size rq))) (\<lambda>n.
     let data = map rnd [0..<n]; packets = encode lib rq 0 data; packet_count = length packets in
     and_then (if debug then and_then (index packets 0) (\<lambda>_. Ok ()) else Ok ()) (\<lambda>_.
     and_then (shuffle_from 0 (map rng [0..<packet_count div 2]) packets) (\<lambda>packets.
     and_then (nb_removed chk packet_count remove_percentage) (\<lambda>nb.
     and_then (split_off nb packets) (\<lambda>packets.
     Ok (case decode lib rq 0 packets of
           None \<Rightarrow> Decode_failed
         | Some d \<Rightarrow> if d = data then Decode_OK else Exit 3))))))"

definition diode_config_main ::
  "bool \<Rightarrow> ('plan, 'cfg, 'pkt) raptorq_lib \<Rightarrow> config_args \<Rightarrow> logger_env \<Rightarrow> (nat \<Rightarrow> u8) \<Rightarrow> (nat \<Rightarrow> nat) \<Rightarrow>
   (unit, config_end) res"
where
  "diode_config_main chk lib args logger rnd rng =
     (case logger_started logger (ac_log_level args) None False of
        Ok _ \<Rightarrow>
          (case raptorq_new chk lib (ac_mtu args) (ac_block args) (ac_repair args) (ac_min_repair args) of
             Ok rq \<Rightarrow> config_test chk lib rq (L_Debug \<le> ac_log_level args) (ac_remove args) rnd rng
           | Err _ \<Rightarrow> Ok (Exit 2)
           | Panic \<Rightarrow> Panic
           | Diverges \<Rightarrow> Diverges)
      | Err _ \<Rightarrow> Ok (Exit 1)
      | Panic \<Rightarrow> Panic
      | Diverges \<Rightarrow> Diverges)"

text \<open>The other programs: \<open>main\<close> starts the logger, and prints the error and returns when it cannot.\<close>

datatype 'e tool_error = No_logger string | Tool_failed 'e

definition with_logger ::
  "logger_env \<Rightarrow> level_filter \<Rightarrow> ('o, 'e, 'a) act \<Rightarrow> ('o, 'e tool_error, 'a) act"
where
  "with_logger logger level_filter m =
     bind_act (lift (map_err No_logger (logger_started logger level_filter None False))) (\<lambda>_. act_map_err Tool_failed m)"

section \<open>\<open>diode-flood-test\<close>\<close>

record flood_args =
  al_log_level :: level_filter
  al_to :: clients_arg
  al_buffer_size :: usize

definition flood_args_default :: "clients_arg \<Rightarrow> flood_args" where
  "flood_args_default to_arg = \<lparr>al_log_level = L_Info, al_to = to_arg, al_buffer_size = 4194304\<rparr>"

text \<open>One round with the random number \<open>rnd\<close>; \<open>expect\<close> panics when the write fails.\<close>

definition flood_step ::
  "bytes \<times> sink \<Rightarrow> u32 \<Rightarrow> (bytes, unit, (bytes \<times> sink, unit) flow) act"
where
  "flood_step s rnd_u32 =
     (case s of (buffer, diode) \<Rightarrow>
        let rnd = ucast (rnd_u32 AND 0xff); buffer = map (\<lambda>n. n XOR rnd) buffer in
        (case send_all id buffer diode of
           (sent, Ok diode) \<Rightarrow> (sent, Ok (Continue (buffer, diode)))
         | (sent, _) \<Rightarrow> (sent, Panic)))"

text \<open>\<open>start\<close>: \<open>fill_bytes\<close> fills the buffer, byte \<open>i\<close> with \<open>fill i\<close>.\<close>

definition flood_start ::
  "sink \<Rightarrow> usize \<Rightarrow> (nat \<Rightarrow> u8) \<Rightarrow> u32 list \<Rightarrow> (bytes, unit, (bytes \<times> sink, unit) flow) act"
where
  "flood_start diode buffer_size fill rnds =
     bind_act (lift (vec_alloc buffer_size)) (\<lambda>n. run flood_step (map fill [0..<n], diode) rnds)"

definition diode_flood_test_main ::
  "flood_args \<Rightarrow> logger_env \<Rightarrow> (diode_send \<Rightarrow> (io_error, sink) res) \<Rightarrow> (nat \<Rightarrow> u8) \<Rightarrow> u32 list \<Rightarrow>
   (bytes, unit tool_error, (bytes \<times> sink, unit) flow) act"
where
  "diode_flood_test_main args logger connect fill rnds =
     with_logger logger (al_log_level args) (let expect = (\<lambda>r. case r of
          Ok diode \<Rightarrow> flood_start diode (al_buffer_size args) fill rnds
        | _ \<Rightarrow> lift Panic) in
      case ca_to_tcp (al_to args) of
        Some to_tcp \<Rightarrow> expect (connect (Tcp to_tcp))
      | None \<Rightarrow>
          (case ca_to_unix (al_to args) of
             Some to_unix \<Rightarrow> expect (connect (Unix to_unix))
           | None \<Rightarrow> lift Panic))"

section \<open>Files and datagrams\<close>

text \<open>The socket to connect to.\<close>

definition diode_of :: "clients_arg \<Rightarrow> ('e, diode_send) res" where
  "diode_of c =
     (case ca_to_tcp c of
        Some to_tcp \<Rightarrow> Ok (Tcp to_tcp)
      | None \<Rightarrow> (case ca_to_unix c of Some to_unix \<Rightarrow> Ok (Unix to_unix) | None \<Rightarrow> Panic))"

record send_file_args =
  af_log_level :: level_filter
  af_to :: clients_arg
  af_buffer_size :: usize
  af_hash :: bool
  af_files :: "bytes list"

definition send_file_args_default :: "clients_arg \<Rightarrow> bytes list \<Rightarrow> send_file_args" where
  "send_file_args_default to_arg files =
     \<lparr>af_log_level = L_Info, af_to = to_arg, af_buffer_size = 4194304, af_hash = False, af_files = files\<rparr>"

text \<open>\<open>env\<close> gives for each file the answers of \<open>connect\<close>, the file and the sizes of the reads.\<close>

definition diode_send_file_main ::
  "'h hasher_lib \<Rightarrow> send_file_args \<Rightarrow> logger_env \<Rightarrow> (nat \<Rightarrow> (diode_send \<Rightarrow> (io_error, sink) res) \<times> source_file \<times> nat list) \<Rightarrow>
   (bytes \<times> bytes, file_error tool_error, ('h file_send, unit) flow) act"
where
  "diode_send_file_main hl args logger env =
     with_logger logger (af_log_level args) (bind_act (lift (diode_of (af_to args))) (\<lambda>diode.
     send_files \<lparr>f_diode = diode, f_buffer_size = af_buffer_size args, f_hash = af_hash args, f_max_files = 0\<rparr> hl
       (map2 (\<lambda>i p. case env i of (connect, src, readies) \<Rightarrow> (connect, p, src, readies))
         [0..<length (af_files args)] (af_files args))))"

text \<open>Exactly one of the listeners of the receiving tools is given.\<close>

definition receive_group :: "listeners \<Rightarrow> bool" where
  "receive_group l \<longleftrightarrow> (ls_from_tcp l = None) \<noteq> (ls_from_unix l = None)"

definition listening :: "listeners \<Rightarrow> diode_receive" where
  "listening l = \<lparr>from_tcp = ls_from_tcp l, from_unix = ls_from_unix l\<rparr>"

record receive_file_args =
  ag_log_level :: level_filter
  ag_from :: listeners
  ag_buffer_size :: usize
  ag_hash :: bool
  ag_max_files :: usize
  ag_output_directory :: bytes

definition receive_file_args_default :: "listeners \<Rightarrow> receive_file_args" where
  "receive_file_args_default from_arg =
     \<lparr>ag_log_level = L_Info, ag_from = from_arg, ag_buffer_size = 4194304, ag_hash = False, ag_max_files = 0, ag_output_directory = [DOT]\<rparr>"

definition receive_file_config :: "receive_file_args \<Rightarrow> diode_receive file_config" where
  "receive_file_config args = \<lparr>f_diode = listening (ag_from args), f_buffer_size = ag_buffer_size args,
     f_hash = ag_hash args, f_max_files = ag_max_files args\<rparr>"

definition diode_receive_file_main ::
  "receive_file_args \<Rightarrow> logger_env \<Rightarrow> (bytes \<Rightarrow> bool) \<Rightarrow> (bytes \<Rightarrow> bool) \<Rightarrow> (accept_loop \<Rightarrow> (io_error, unit) res) \<Rightarrow>
   (accept_loop \<Rightarrow> bool) \<Rightarrow> (accept_loop, file_error tool_error, unit) act"
where
  "diode_receive_file_main args logger is_dir exists_path bind spawn =
     with_logger logger (ag_log_level args)
       (receive_files (receive_file_config args) (is_dir (ag_output_directory args)) exists_path bind spawn)"

record send_udp_args =
  au_log_level :: level_filter
  au_to :: clients_arg
  au_from :: socket_addr

definition diode_send_udp_main ::
  "send_udp_args \<Rightarrow> logger_env \<Rightarrow> (diode_send \<Rightarrow> (io_error, sink) res) \<Rightarrow> (socket_addr \<Rightarrow> (io_error, unit) res) \<Rightarrow>
   (io_error, bytes) res list \<Rightarrow> (bytes, udp_error tool_error, (sink, unit) flow) act"
where
  "diode_send_udp_main args logger connect bind answers =
     with_logger logger (au_log_level args)
       (bind_act (lift (diode_of (au_to args))) (\<lambda>diode.
        send_udp \<lparr>u_diode = diode, u_buffer_size = ucast (0xFFFF :: u16)\<rparr> connect (bind (au_from args)) answers))"

record receive_udp_args =
  av_log_level :: level_filter
  av_from :: listeners
  av_to_bind :: socket_addr
  av_to :: socket_addr

definition receive_udp_config :: "receive_udp_args \<Rightarrow> diode_receive udp_config" where
  "receive_udp_config args = \<lparr>u_diode = listening (av_from args), u_buffer_size = ucast (0xFFFF :: u16)\<rparr>"

definition diode_receive_udp_main ::
  "receive_udp_args \<Rightarrow> logger_env \<Rightarrow> (bytes \<Rightarrow> bool) \<Rightarrow> (accept_loop \<Rightarrow> (io_error, unit) res) \<Rightarrow>
   (accept_loop \<Rightarrow> (io_error, udp_client) res list) \<Rightarrow> (bytes, udp_error tool_error, (stream option, unit) flow) act"
where
  "diode_receive_udp_main args logger exists_path bind clients =
     with_logger logger (av_log_level args) (receive_udp_clients (receive_udp_config args) exists_path bind clients)"

section \<open>The C interface for files\<close>

text \<open>
  The configurations that \<open>diode_new_config\<close> hands out live on the heap until \<open>diode_free_config\<close>: a memory maps
  pointers to them, 0 is the null pointer. \<open>new\<close> is the address that the allocator chooses. To use a pointer that does not
  point to a configuration is undefined behaviour, here an error of its own. A C string is \<open>None\<close> when the pointer
  is null. \<open>from_utf8_lossy\<close> and the parser of socket addresses belong to the standard library and are arguments.
\<close>

type_synonym c_ptr = nat
type_synonym c_memory = "c_ptr \<Rightarrow> diode_send file_config option"

datatype c_fault = Dangling_pointer

definition deref :: "c_memory \<Rightarrow> c_ptr \<Rightarrow> (c_fault, diode_send file_config option) res" where
  "deref mem ptr =
     (if ptr = 0 then Ok None
      else case mem ptr of None \<Rightarrow> Err Dangling_pointer | Some cfg \<Rightarrow> Ok (Some cfg))"

definition diode_new_config ::
  "(bytes \<Rightarrow> bytes) \<Rightarrow> (bytes \<Rightarrow> socket_addr option) \<Rightarrow> c_memory \<Rightarrow> c_ptr \<Rightarrow> bytes option \<Rightarrow> u32 \<Rightarrow>
   (c_fault, c_ptr \<times> c_memory) res"
where
  "diode_new_config lossy parse_addr mem new ptr_addr buffer_size =
     (case ptr_addr of
        None \<Rightarrow> Ok (0, mem)
      | Some addr \<Rightarrow>
          (case parse_addr (lossy addr) of
             None \<Rightarrow> Panic
           | Some a \<Rightarrow> Ok (new, mem(new \<mapsto> \<lparr>f_diode = Tcp a, f_buffer_size = ucast buffer_size, f_hash = False, f_max_files = 0\<rparr>))))"

definition diode_free_config :: "c_memory \<Rightarrow> c_ptr \<Rightarrow> (c_fault, c_memory) res" where
  "diode_free_config mem ptr =
     and_then (deref mem ptr) (\<lambda>cfg. case cfg of None \<Rightarrow> Ok mem | Some _ \<Rightarrow> Ok (mem(ptr := None)))"

definition diode_send_file ::
  "(bytes \<Rightarrow> bytes) \<Rightarrow> 'h hasher_lib \<Rightarrow> c_memory \<Rightarrow> c_ptr \<Rightarrow> bytes option \<Rightarrow>
   (diode_send \<Rightarrow> (io_error, sink) res) \<Rightarrow> (bytes \<Rightarrow> source_file) \<Rightarrow> nat list \<Rightarrow>
   (bytes, c_fault, ('h file_send, u32) flow) act"
where
  "diode_send_file lossy hl mem ptr ptr_filepath connect fs readies =
     bind_act (lift (deref mem ptr)) (\<lambda>config.
     case (config, ptr_filepath) of
        (Some cfg, Some filepath) \<Rightarrow>
          (case send_file cfg hl connect (lossy filepath) (fs (lossy filepath)) readies of
             (sent, Ok (Continue s)) \<Rightarrow> (sent, Ok (Continue s))
           | (sent, Ok (Return n)) \<Rightarrow>
               (sent, Ok (Return (case try_from (of_nat n :: usize) of None \<Rightarrow> 0 | Some m \<Rightarrow> m)))
           | (sent, Err _) \<Rightarrow> (sent, Ok (Return 0))
           | (sent, Panic) \<Rightarrow> (sent, Panic)
           | (sent, Diverges) \<Rightarrow> (sent, Diverges))
      | _ \<Rightarrow> ret (Return 0))"

definition diode_receive_files ::
  "(bytes \<Rightarrow> bytes) \<Rightarrow> c_memory \<Rightarrow> c_ptr \<Rightarrow> bytes option \<Rightarrow> (bytes \<Rightarrow> bool) \<Rightarrow> (bytes \<Rightarrow> bool) \<Rightarrow>
   (accept_loop \<Rightarrow> (io_error, unit) res) \<Rightarrow> (accept_loop \<Rightarrow> bool) \<Rightarrow> (accept_loop, c_fault, unit) act"
where
  "diode_receive_files lossy mem ptr ptr_odir is_dir exists_path bind spawn =
     bind_act (lift (deref mem ptr)) (\<lambda>config.
     case config of
        Some cfg \<Rightarrow>
          (case f_diode cfg of
             Tcp a \<Rightarrow>
               (case ptr_odir of
                  None \<Rightarrow> ret ()
                | Some odir \<Rightarrow>
                    (case receive_files \<lparr>f_diode = \<lparr>from_tcp = Some a, from_unix = None\<rparr>, f_buffer_size = f_buffer_size cfg,
                            f_hash = False, f_max_files = 0\<rparr> (is_dir (lossy odir)) exists_path bind spawn of
                       (started, r) \<Rightarrow> (started, case r of Panic \<Rightarrow> Panic | Diverges \<Rightarrow> Diverges | _ \<Rightarrow> Ok ())))
           | Unix _ \<Rightarrow> ret ())
      | None \<Rightarrow> ret ())"

text \<open>
  The life of a configuration: a fresh pointer gives it back until it is freed, other pointers are not
  touched, nothing is leaked, and using or freeing it again is a fault. Null pointers are harmless everywhere.
\<close>

lemma config_lifecycle:
  assumes "mem new = None" and "new \<noteq> 0" and "diode_new_config lossy parse mem new (Some addr) n = Ok (ptr, mem')"
  shows "\<exists>a. parse (lossy addr) = Some a
    \<and> deref mem' ptr = Ok (Some \<lparr>f_diode = Tcp a, f_buffer_size = ucast n, f_hash = False, f_max_files = 0\<rparr>)
    \<and> (\<forall>p. p \<noteq> ptr \<longrightarrow> deref mem' p = deref mem p) \<and> diode_free_config mem' ptr = Ok mem
    \<and> deref mem ptr = Err Dangling_pointer \<and> diode_free_config mem ptr = Err Dangling_pointer"
proof -
  obtain a where a: "parse (lossy addr) = Some a" "ptr = new"
      "mem' = mem(new \<mapsto> \<lparr>f_diode = Tcp a, f_buffer_size = ucast n, f_hash = False, f_max_files = 0\<rparr>)"
    using assms(3) by (auto simp: diode_new_config_def split: option.splits)
  have "mem(new := None) = mem" using assms(1) by (simp add: fun_upd_idem)
  then show ?thesis using assms(1,2) a by (auto simp: deref_def diode_free_config_def)
qed

lemma null_config:
  "diode_new_config lossy parse mem new None n = Ok (0, mem)"
  "diode_free_config mem 0 = Ok mem"
  "diode_send_file lossy hl mem 0 p connect fs readies = ([], Ok (Return 0))"
  "diode_receive_files lossy mem 0 p is_dir exists_path bind spawn = ([], Ok ())"
  by (simp_all add: diode_new_config_def diode_free_config_def deref_def diode_send_file_def diode_receive_files_def
      ret_def act_simps)

section \<open>The test of a configuration\<close>

lemma swap_mset: "i < length xs \<Longrightarrow> j < length xs \<Longrightarrow>
   swap i j xs = Ok (xs[i := xs ! j, j := xs ! i]) \<and> mset (xs[i := xs ! j, j := xs ! i]) = mset xs"
  by (simp add: swap_def mset_update nth_list_update)

text \<open>Swapping packets only rearranges them.\<close>

lemma shuffle_mset:
  assumes "i + length js \<le> length xs" and "\<forall>j \<in> set js. j < length xs"
  shows "\<exists>ys. shuffle_from i js xs = Ok ys \<and> mset ys = mset xs"
  using assms
proof (induction js arbitrary: i xs)
  case Nil
  then show ?case by simp
next
  case (Cons j js)
  let ?ys = "xs[i := xs ! j, j := xs ! i]"
  have ys: "i < length xs" "j < length xs" "mset ?ys = mset xs" using Cons.prems swap_mset [of i xs j] by auto
  from Cons.IH [of "Suc i" ?ys] Cons.prems ys show ?case by (simp add: swap_def)
qed

lemma nb_removed_exact:
  assumes "n < 2 ^ 32"
  shows "nb_removed chk n remove_percentage = Ok (n * unat remove_percentage div 100)"
proof -
  have n: "unat (of_nat n :: usize) = n" using assms by (simp add: unat_of_nat)
  have r: "unat (ucast remove_percentage :: usize) = unat remove_percentage" by (simp add: unat_ucast_le)
  have "n * unat remove_percentage < 2 ^ 32 * 2 ^ 32"
    using assms unat_u32_less [of remove_percentage] by (intro mult_strict_mono) simp_all
  then have lt: "unat (of_nat n :: usize) * unat (ucast remove_percentage :: usize) < 2 ^ LENGTH(64)"
    by (simp add: n r)
  then have "unat (of_nat n * ucast remove_percentage :: usize) = n * unat remove_percentage"
    by (simp add: unat_mult_lem [THEN iffD1] n r)
  with lt show ?thesis by (simp add: nb_removed_def res_simps unat_div)
qed

text \<open>Property C38. \<open>diode-config\<close> tests what it says. On accepted parameters, for all random numbers, it decodes a rearrangement
  of the packets of one block of which the first \<open>remove\<close> percent are taken away, and for a sound code it reports
  success exactly if these packets can be decoded; it never reports wrong data. More than 100 percent of at
  least 100 packets panics.\<close>

theorem config_test_verdict:
  fixes lib :: "('plan, 'cfg, 'pkt) raptorq_lib"
  assumes rq: "raptorq_new chk lib (ac_mtu args) (ac_block args) (ac_repair args) (ac_min_repair args) = Ok rq"
    and logger: "logger_started logger (ac_log_level args) None False = Ok ()"
    and code: "sound_code lib rq"
    and data: "data = map rnd [0..<unat (transfer_length rq)]"
    and count: "encode lib rq 0 data \<noteq> []" "length (encode lib rq 0 data) < 2 ^ 32"
    and rng: "\<forall>i. length (encode lib rq 0 data) div 2 \<le> rng i \<and> rng i < length (encode lib rq 0 data)"
    and removed: "removed = length (encode lib rq 0 data) * unat (ac_remove args) div 100"
  shows "if removed \<le> length (encode lib rq 0 data)
    then \<exists>packets lost. mset (lost @ packets) = mset (encode lib rq 0 data) \<and> length lost = removed
      \<and> diode_config_main chk lib args logger rnd rng =
          Ok (if decode lib rq 0 packets = None then Decode_failed else Decode_OK)
    else diode_config_main chk lib args logger rnd rng = Panic"
proof -
  let ?ps = "encode lib rq 0 data" and ?js = "map rng [0..<length (encode lib rq 0 data) div 2]"
  have n: "unat (ucast (transfer_length rq) :: usize) = unat (transfer_length rq)" by (simp add: unat_ucast_le)
  have va: "vec_alloc (ucast (block_size rq)) = (Ok (unat (transfer_length rq)) :: (unit, nat) res)"
    using unat_u32_less [of "transfer_length rq"] by (simp add: vec_alloc_def block_size_def n)
  obtain ys where ys: "shuffle_from 0 ?js ?ps = (Ok ys :: (unit, 'pkt list) res)" "mset ys = mset ?ps"
    using shuffle_mset [of 0 ?js ?ps] rng by auto
  have run: "diode_config_main chk lib args logger rnd rng =
      and_then (split_off removed ys) (\<lambda>packets. Ok (case decode lib rq 0 packets of
           None \<Rightarrow> Decode_failed
         | Some d \<Rightarrow> if d = map rnd [0..<unat (transfer_length rq)] then Decode_OK else Exit 3))"
    using rq logger count(1) ys(1) nb_removed_exact [OF count(2)]
    by (simp add: diode_config_main_def config_test_def va Let_def index_def removed data)
  note run = run [folded data]
  have len: "length ys = length ?ps" using ys(2) by (metis size_mset)
  show ?thesis
  proof (cases "removed \<le> length ?ps")
    case True
    have "set (drop removed ys) \<subseteq> set ?ps"
      using set_drop_subset [of removed ys] ys(2) by (metis set_mset_mset)
    moreover have "length data = unat (transfer_length rq)" by (simp add: data)
    ultimately have "decode lib rq 0 (drop removed ys) = Some d \<Longrightarrow> d = data" for d
      using code unfolding sound_code_def by blast
    then have "(case decode lib rq 0 (drop removed ys) of None \<Rightarrow> Decode_failed
         | Some d \<Rightarrow> if d = data then Decode_OK else Exit 3)
      = (if decode lib rq 0 (drop removed ys) = None then Decode_failed else Decode_OK)"
      by (cases "decode lib rq 0 (drop removed ys)") auto
    with run True len have "diode_config_main chk lib args logger rnd rng =
        Ok (if decode lib rq 0 (drop removed ys) = None then Decode_failed else Decode_OK)"
      by (simp add: split_off_def)
    moreover have "mset (take removed ys @ drop removed ys) = mset ?ps" using ys(2) by simp
    moreover have "length (take removed ys) = removed" using True len by simp
    ultimately show ?thesis using True by (metis (no_types, lifting))
  next
    case False
    with run len show ?thesis by (simp add: split_off_def)
  qed
qed

theorem config_test_verdict_witness:
  "diode_config_main True sample_lib \<lparr>ac_log_level = L_Debug, ac_mtu = 48, ac_block = 32, ac_repair = 2, ac_min_repair = 1, ac_remove = 50\<rparr>
     working_logger (\<lambda>_. 7) (\<lambda>_. 1) = Ok Decode_OK"
proof -
  let ?args = "\<lparr>ac_log_level = L_Debug, ac_mtu = 48, ac_block = 32, ac_repair = 2, ac_min_repair = 1, ac_remove = 50\<rparr> :: config_args"
  have rq: "raptorq_new True sample_lib (ac_mtu ?args) (ac_block ?args) (ac_repair ?args) (ac_min_repair ?args) = Ok small_rq"
    by (simp add: raptorq_new_def raptorq_consts sub_chk_def rem_chk_def div_chk_def mul_chk_def
        try_from_def repair_count_def small_rq_def sample_lib_def)
  define data where "data = map (\<lambda>_. 7 :: u8) [0..<unat (transfer_length small_rq)]"
  have two: "length (encode sample_lib small_rq 0 data) = 2" "encode sample_lib small_rq 0 data \<noteq> []"
    by (simp_all add: sample_encode)
  have rem: "(1 :: nat) = length (encode sample_lib small_rq 0 data) * unat (ac_remove ?args) div 100"
    by (simp add: two(1))
  have lt: "length (encode sample_lib small_rq 0 data) < 2 ^ 32"
    and rng: "\<forall>i :: nat. length (encode sample_lib small_rq 0 data) div 2 \<le> 1 \<and> 1 < length (encode sample_lib small_rq 0 data)"
    by (simp_all add: two(1))
  from config_test_verdict [OF rq _ sample_sound data_def two(2) lt rng rem, of working_logger]
  obtain packets lost where p: "mset (lost @ packets) = mset (encode sample_lib small_rq 0 data)" "length lost = 1"
    and run: "diode_config_main True sample_lib ?args working_logger (\<lambda>_. 7) (\<lambda>_. 1) =
          Ok (if decode sample_lib small_rq 0 packets = None then Decode_failed else Decode_OK)"
    by (auto simp: two(1))
  have "length (lost @ packets) = 2" using p(1) two(1) by (metis size_mset)
  then have "packets \<noteq> []" using p(2) by auto
  then have "decode sample_lib small_rq 0 packets \<noteq> None"
    by (cases packets) (auto simp: decode_def sample_lib_def split: prod.splits)
  with run show ?thesis by simp
qed

section \<open>The flood\<close>

text \<open>With a sink that takes everything it never ends; every buffer is the last one under the mask of the round.\<close>

fun flood_buffers :: "bytes \<Rightarrow> u32 list \<Rightarrow> bytes list" where
  "flood_buffers buffer [] = []"
| "flood_buffers buffer (r # rs) =
     (let b = map (\<lambda>n. n XOR ucast (r AND 0xff)) buffer in b # flood_buffers b rs)"

lemma flood_run:
  assumes "reliable diode"
  shows "\<exists>s. run flood_step (buffer, diode) rnds = (flood_buffers buffer rnds, Ok (Continue s))"
  using assms
proof (induction rnds arbitrary: buffer diode)
  case Nil
  then show ?case by (simp add: ret_def)
next
  case (Cons r rs)
  let ?b = "map (\<lambda>n. n XOR ucast (r AND 0xff)) buffer"
  obtain s where "run flood_step (?b, diode\<lparr>sunk := sunk diode @ ?b\<rparr>) rs = (flood_buffers ?b rs, Ok (Continue s))"
    using Cons.IH [of "diode\<lparr>sunk := sunk diode @ ?b\<rparr>" ?b] Cons.prems by auto
  moreover have "flood_step (buffer, diode) r = ([?b], Ok (Continue (?b, diode\<lparr>sunk := sunk diode @ ?b\<rparr>)))"
    using Cons.prems by (simp add: flood_step_def Let_def)
  ultimately show ?case by (simp add: Let_def)
qed

section \<open>The result of the C interface\<close>

text \<open>
  \<open>diode_send_file\<close> returns the number of bytes, if it fits 32 bits, and 0 in every other case: an empty file that was sent
  cannot be told from a failure.
\<close>

lemma diode_send_file_result:
  assumes "deref mem ptr = Ok (Some cfg)"
    and "send_file cfg hl connect (lossy p) (fs (lossy p)) readies = (sent, Ok (Return n))" and "n < 2 ^ 64"
  shows "diode_send_file lossy hl mem ptr (Some p) connect fs readies =
    (sent, Ok (Return (if n < 2 ^ 32 then of_nat n else 0)))"
proof -
  have n: "unat (of_nat n :: usize) = n" using assms(3) by (simp add: unat_of_nat)
  have "ucast (of_nat n :: usize) = (of_nat n :: u32)"
    by (rule bit_word_eqI) (simp add: bit_simps)
  then show ?thesis using assms(1,2) by (simp add: diode_send_file_def try_from_def n act_simps)
qed

end
