(* ===== verification/Spec2Isabelle.thy ===== *)
theory Spec2Isabelle
  imports Diode Tools
begin

text \<open>
  A verification development for \<^emph>\<open>lidi\<close>, which carries streams of bytes over a one-way UDP link.

  \<^bold>\<open>The program.\<close> \<open>diode-send\<close> accepts TCP or Unix clients and cuts what they write into blocks of one
  size; a block has a type (\<open>Start\<close>, \<open>Data\<close>, \<open>End\<close>, \<open>Abort\<close>, \<open>Heartbeat\<close>), the id of its client and a payload.
  A pipeline of threads joined by bounded channels numbers the blocks modulo 256, encodes each with the RaptorQ
  erasure code, and sends the packets as datagrams. \<open>diode-receive\<close> groups the datagrams by block number, hands a group
  to the decoding threads when it is large enough, puts the decoded blocks back in order, splits them by
  client, and writes the payloads to a new connection per transfer. No message ever goes back. On top of
  the two there are tools that carry whole files and UDP datagrams through the diode's client sockets.

  \<^bold>\<open>Theories and sources.\<close> Every definition that models code has the name of the code it models, where that is
  not a name of HOL already.

  \<^item> \<open>Prelude\<close>: machine integers, outcomes (\<open>Ok\<close>, \<open>Err\<close>, \<open>Panic\<close>, \<open>Diverges\<close>), arithmetic with and without overflow
    checks, calls with effects, worker threads (\<open>run\<close>), and the locales \<open>worker\<close> and \<open>permit_holder\<close>.
  \<^item> \<open>Bytes\<close>: little-endian numbers, streams and the locale \<open>codec\<close>. \<open>Writer\<close>: sinks, \<open>BufWriter\<close> of the standard library
    and the locale \<open>byte_writer\<close>.
  \<^item> \<open>Protocol\<close>: \<open>src/protocol.rs\<close>. The record \<open>raptorq\<close> is the struct \<open>RaptorQ\<close>, \<open>raptorq_lib\<close> the \<open>raptorq\<close> crate.
  \<^item> \<open>Udp\<close>: \<open>src/udp.rs\<close> and \<open>src/sock_utils.rs\<close>, over the answers of the system calls; locale \<open>packet_sink\<close>.
  \<^item> \<open>Send_Client\<close>: \<open>src/send/client.rs\<close>, \<open>server.rs\<close>, \<open>heartbeat.rs\<close>. \<open>Send_Pipeline\<close>: \<open>ordering.rs\<close>, \<open>encoding.rs\<close>, \<open>udp.rs\<close>
    and \<open>mod.rs\<close> of \<open>src/send\<close>.
  \<^item> \<open>Turnstile\<close>: the interface \<open>turnstile\<close>, and its live extension \<open>live_turnstile\<close>, of a pool of threads that pass their
    results on by number. The encoding and the decoding threads both provide it.
  \<^item> \<open>Recv_Base\<close>: \<open>src/receive/mod.rs\<close> and \<open>udp.rs\<close>. \<open>Reblock\<close>, \<open>Decode\<close>, \<open>Dispatch\<close>: the files of these names in \<open>src/receive\<close>.
    \<open>Recv_Client\<close>: \<open>src/receive/client.rs\<close> and \<open>clients.rs\<close>.
  \<^item> \<open>Diode\<close>: the composition of the two machines and the link between them. \<open>sender_run\<close> relates queued blocks to the datagrams
    that the ordering worker, the encoding threads and the UDP worker put on the wire, each with its destination; the kernel answers as it
    likes, and stop messages may come at any moment. \<open>link\<close> names the positions on the wire whose datagrams arrive, in the
    calls of \<open>recv\<close> that get them. \<open>receiver_run\<close> takes them through the UDP worker, the reblock worker, the decoding threads
    and the dispatcher of the receiver. What arrives is thus what the sender's workers have sent.
  \<^item> \<open>File_Protocol\<close>, \<open>File_Transfer\<close>: \<open>src/aux/mod.rs\<close> and \<open>src/aux/file\<close>. \<open>Udp_Aux\<close>: \<open>src/aux/udp\<close>.
  \<^item> \<open>Logger\<close>: \<open>init_logger\<close> of \<open>src/lib.rs\<close>. \<open>Programs\<close>: \<open>diode-send\<close>, \<open>diode-receive\<close> and the oneshot pair of \<open>src/bin\<close>. \<open>Tools\<close>:
    the other programs there, and the C interface of \<open>diode-file-bindings\<close> with its heap of configurations.

  \<^bold>\<open>How a thread is modelled.\<close> The body of the \<open>loop\<close> of a worker is a step function. It takes the loop state and the
  answer of the blocking call at the top of the loop, together with what the other calls of the round will answer
  (is the channel open, how many bytes are ready, what does the kernel return), and gives the messages that it
  sent and an outcome: continue with a new state, return, fail with \<open>?\<close>, panic, or hang. \<open>run\<close> feeds it a list
  of answers, and a run that has used them up still waits. Every theorem about all lists of answers is thus a theorem about
  all behaviours of the world around the thread. Pools of threads that share a counter (\<open>encoding.rs\<close>, \<open>decode.rs\<close>) are step
  relations in which any thread may move. A channel between two workers is its history: the messages sent are
  the messages taken, in order; a full channel only delays its sender.

  \<^bold>\<open>What the lemmas show.\<close> \<open>Protocol\<close>: the geometry that \<open>RaptorQ::new\<close> computes, when it refuses and when it panics;
  \<open>raptorq_ref\<close> is the same calculation on numbers, with the counts of repair packets; round trips of blocks, and what the accessors do on arbitrary bytes. \<open>Udp\<close>: what is sent is a beginning of what was to
  be sent, whatever the kernel answers. \<open>Send_Client\<close>: the blocks of a client are a division of its bytes, also the
  reference division when \<open>flush\<close> is off; semaphores are balanced. \<open>Send_Pipeline\<close>: the wire order under every schedule.
  \<open>Reblock\<close>: refinement of an unbounded reordering buffer, for packets that are at most the window late. \<open>Decode\<close>: order and
  completion under every schedule. \<open>Dispatch\<close>: demultiplexing, and survival of arbitrary blocks. \<open>Recv_Client\<close>: what a client is
  told is true. \<open>Diode\<close>, \<open>Programs\<close> and this theory: these facts composed, from the bytes of a client of the sender to the bytes
  of a client of the receiver, also when the connection breaks, from standard input to standard output, from a file to a
  file, and from datagrams to datagrams, and a file that is cut off anywhere on its way is not accepted.
  \<open>File_Transfer\<close>, \<open>Udp_Aux\<close>: round trips
  of files and datagrams, integrity of what is accepted, and confinement to the output directory.
  Where the code does something other than it says, a theorem states what it does.

  \<^bold>\<open>Interfaces.\<close> \<open>worker\<close> (an invariant and a property of all messages; interpreted by the reblock worker and by the
  receivers of files and datagrams), \<open>permit_holder\<close> (by the server and by the client threads), \<open>codec\<close> (by the headers
  and the footer of \<open>src/aux\<close>), \<open>packet_sink\<close> (by \<open>sendmsg\<close> and \<open>sendmmsg\<close>), \<open>turnstile\<close> and \<open>live_turnstile\<close> (by both pools),
  \<open>byte_writer\<close> (by \<open>BufWriter\<close>).

  \<^bold>\<open>Parameters and assumptions.\<close> The \<open>raptorq\<close> and \<open>fasthash\<close> crates are arguments (\<open>raptorq_lib\<close>, \<open>hasher_lib\<close>). Where a property
  relies on the code it says so: \<open>sound_code\<close> (packets can be read back and name their block, and decoding gives the block or
  nothing), and decodability of the packets that arrive. \<open>sample_lib\<close> shows that this can hold. The two calls of the crate that
  \<open>RaptorQ::new\<close> makes may panic on sizes that the crate does not support; when they do is up to the parameter. The flag \<open>chk\<close> tells
  whether the build checks overflows: the release profile does not.

  \<^bold>\<open>Panics.\<close> \<open>Panic\<close> ends the run of the thread in which it happens, as in the default profile, where the other threads go on
  and destructors run. The release profile sets \<open>panic = "abort"\<close>: there the process ends with the first panic. The theorems on
  a panicking thread then describe the process up to this point, without the event \<open>Dropped\<close> of the destructor and
  without what other threads would still do.

  \<^bold>\<open>Bounds and fuel.\<close> The loop that opens the window of the reblock worker has a fuel of 256 turns, enough as its counter
  returns to every value within 256 (\<open>open_window_iff\<close>). The emission loop is a \<open>partial_function\<close>, as it hangs when no
  packet is needed; otherwise it returns. Every other loop is structural or consumes its answers. The window is 127
  blocks: the properties of the link are stated for packets that stay within it.

  \<^bold>\<open>Not modelled.\<close> Log lines that cannot fail, other than the closing line of a transfer, the \<open>Display\<close> implementations they use, and
  the paths inside error texts. The two log lines whose arguments can panic are modelled, with the log level as an
  input: the line of a received block (\<open>Dispatch\<close>) and that of the first packet in \<open>diode-config\<close>. The last line of the two
  \<open>start\<close> functions, whose \<open>min_nb_packets\<close> may overflow, is evaluated as at the default level. The parser of the command line, which
  only configures another crate. \<open>AsRawFd\<close>, pinned buffers and raw pointers, but for those to the configurations of the C
  interface: memory has no counterpart. Failing allocation, but for the capacity overflow of vectors. Time: a timeout is an answer, and only the clock of
  the dispatch worker, which it compares, is a number. The runs of the whole diode have no reset timeout in them: they are about a receiver that
  gets the next datagram before this timeout (the timeout itself is a step of the reblock worker, in \<open>Reblock\<close>). The map of active transfers is an association list, so the order in which a lost
  synchronisation aborts them is that of the list, while the program's is arbitrary.
\<close>

section \<open>A transfer through the whole diode\<close>

text \<open>Property C1. Bytes in, bytes out. A client of the sender writes any bytes and closes its connection. The
  blocks of its transfer, mixed with those of any other clients, go through the ordering worker, the encoding
  threads under any schedule and the UDP worker onto the wire; a link that loses, repeats and reorders datagrams within the
  window, as long as every block stays decodable and the receiver is not left without a datagram for the reset timeout,
  brings them to the UDP worker, the reblock worker, the decoding threads under any schedule, the dispatcher
  and a client thread of the receiver. There exactly one client is opened for the transfer, it receives
  exactly the bytes, in order, and is then told that the transfer is complete; both ends log the
  same length, and the same hash if both hash and hashing no bytes changes nothing. When the sender's threads (at least one that
  encodes) come to rest without a stop message and its kernel takes every datagram (below 4 GiB, in batches of any size but 0), the wire carries exactly
  the packets of all blocks, in order, each to the address that the sender is configured with.\<close>

theorem diode_transfers_bytes:
  fixes lib :: "('plan, 'cfg, 'pkt) raptorq_lib" and hl :: "'h hasher_lib"
  assumes code: "sound_code lib rq"
    and geometry: "10 \<le> unat (transfer_length rq)" "min_nb_packets chk rq = (Ok m :: (receive_error, u16) res)" "0 < m"
    and blocks: "\<forall>b \<in> set bs. length (serialized b) = unat (transfer_length rq)"
    and sender: "sender_run chk scfg lib rq complete bs sent"
    and client: "\<not> broken client" "length (pending client) < length ks"
      "filter (concerns cid) (drop b bs) = ordered_blocks (fst (client_start chk scfg hl rq cid client
         (\<lambda>_. True) (map (Pair (\<lambda>_. True)) ks)))"
    and link: "link lib rq (r_from rcfg) (r_from_mtu rcfg) (r_batch_receive rcfg) (unat m) bs sent b ns"
    and receiver: "receiver_run chk rcfg lib rq (on_wire sent ns) devs" "0 < r_nb_decode_threads rcfg" "reliable k"
  shows "(complete \<and> 0 < s_nb_encode_threads scfg \<and> s_batch_send scfg \<noteq> Some 0 \<and> small_packets lib (encoded lib rq bs) \<longrightarrow>
      sent = map (Pair (sockaddr (s_to scfg))) (map (rq_serialize lib \<circ> snd) (tagged lib rq bs)))
    \<and> (\<exists>ch hash. opened cid devs = [ch]
      \<and> run (clients_step chk rcfg hl rq) RWaiting
          (Announced (Msg (cid, Ok k)) # map (\<lambda>b. Block_in (Msg b)) (delivered ch devs))
        = ([R_Acquire, R_Logged cid (length (pending client)) hash,
            ClientEnd cid (open_sink\<lparr>sunk := sunk k @ pending client\<rparr>) True, R_Release], Ok (Continue RWaiting))
      \<and> (hash = None \<longleftrightarrow> \<not> r_hash rcfg)
      \<and> (s_hash scfg = r_hash rcfg \<longrightarrow> (\<forall>x. h_write hl x [] = x) \<longrightarrow>
          Logged cid (length (pending client)) hash \<in> set (fst (client_start chk scfg hl rq cid client
            (\<lambda>_. True) (map (Pair (\<lambda>_. True)) ks)))))"
  by (rule diode_transfer [OF code geometry blocks sender client link receiver])

text \<open>For the witnesses: client 7 of the sample sender, whose transfer is two blocks, over a link that brings every datagram.\<close>

abbreviation sample_sent :: "(unit, u64 \<times> u16) raptorq \<Rightarrow> block_type \<Rightarrow> bytes \<Rightarrow> (bytes \<times> bytes) list" where
  "sample_sent rq t d \<equiv> pair_sent (s_to sample_send_config) rq 7 t d"

lemma small_world:
  assumes "length d + 9 \<le> 32"
  shows "10 \<le> unat (transfer_length small_rq)" "0 < (2 :: u16)"
    and "\<forall>b \<in> set (pair_blocks small_rq 7 t d). length (serialized b) = unat (transfer_length small_rq)"
    and "sender_run True sample_send_config sample_lib small_rq True (pair_blocks small_rq 7 t d) (sample_sent small_rq t d)"
    and "link sample_lib small_rq (r_from sample_receive_config) (r_from_mtu sample_receive_config)
      (r_batch_receive sample_receive_config) (unat (2 :: u16)) (pair_blocks small_rq 7 t d) (sample_sent small_rq t d) 0 pair_positions"
    and "\<exists>devs. receiver_run True sample_receive_config sample_lib small_rq (on_wire (sample_sent small_rq t d) pair_positions) devs"
    and "0 < r_nb_decode_threads sample_receive_config"
proof -
  have "unat (transfer_length small_rq) = 32" by (simp add: small_rq_def)
  then have fits: "10 \<le> unat (transfer_length small_rq)" "length d + 9 \<le> unat (transfer_length small_rq)"
      "unat (transfer_length small_rq) + 5 \<le> unat (r_from_mtu sample_receive_config)"
    using assms by (simp_all add: sample_receive_config_def)
  have cfg: "r_from sample_receive_config = s_to sample_send_config" "r_batch_receive sample_receive_config = None"
      "0 < r_nb_decode_threads sample_receive_config" "0 < s_nb_encode_threads sample_send_config"
      "s_batch_send sample_send_config \<noteq> Some 0"
    by (simp_all add: sample_receive_config_def sample_send_config_def)
  from pair_world [OF small_pair fits cfg] fits(1) cfg(3) pair_lengths [OF fits(2)]
  show "10 \<le> unat (transfer_length small_rq)" "0 < (2 :: u16)"
    "\<forall>b \<in> set (pair_blocks small_rq 7 t d). length (serialized b) = unat (transfer_length small_rq)"
    "sender_run True sample_send_config sample_lib small_rq True (pair_blocks small_rq 7 t d) (sample_sent small_rq t d)"
    "link sample_lib small_rq (r_from sample_receive_config) (r_from_mtu sample_receive_config)
      (r_batch_receive sample_receive_config) (unat (2 :: u16)) (pair_blocks small_rq 7 t d) (sample_sent small_rq t d) 0 pair_positions"
    "\<exists>devs. receiver_run True sample_receive_config sample_lib small_rq (on_wire (sample_sent small_rq t d) pair_positions) devs"
    "0 < r_nb_decode_threads sample_receive_config" by simp_all
qed

theorem diode_transfers_bytes_witness:
  "\<exists>devs ch hash. sender_run True sample_send_config sample_lib small_rq True sample_blocks (sample_sent small_rq End [1, 2, 3])
    \<and> receiver_run True sample_receive_config sample_lib small_rq (on_wire (sample_sent small_rq End [1, 2, 3]) pair_positions) devs
    \<and> fst (run (clients_step True sample_receive_config sample_hasher small_rq) RWaiting
        (Announced (Msg (7, Ok open_sink)) # map (\<lambda>b. Block_in (Msg b)) (delivered ch devs)))
      = [R_Acquire, R_Logged 7 3 hash, ClientEnd 7 (open_sink\<lparr>sunk := [1, 2, 3]\<rparr>) True, R_Release]"
proof -
  have fits: "length [1 :: u8, 2, 3] + 9 \<le> 32" by simp
  note world = small_world [OF fits]
  from world(6) [of End] obtain devs where devs: "receiver_run True sample_receive_config sample_lib small_rq
      (on_wire (sample_sent small_rq End [1, 2, 3]) pair_positions) devs" ..
  have own: "filter (concerns 7) (drop 0 (pair_blocks small_rq 7 End [1, 2, 3])) = ordered_blocks (fst (client_start True sample_send_config
      sample_hasher small_rq 7 \<lparr>pending = [1, 2, 3], broken = False\<rparr> (\<lambda>_. True) (map (Pair (\<lambda>_. True)) [3, 1, 1, 1])))"
    by (subst sample_transfer) (simp_all add: sample_send_config_def sample_blocks_def pair_blocks_def concerns_def)
  have k: "reliable open_sink" "sunk open_sink = []" by (simp_all add: reliable_def open_sink_def)
  from diode_transfers_bytes [OF sample_sound world(1) sample_min world(2,3,4) _ _ own world(5) devs world(7) k(1)]
  obtain ch hash where run: "run (clients_step True sample_receive_config sample_hasher small_rq) RWaiting
        (Announced (Msg (7, Ok open_sink)) # map (\<lambda>b. Block_in (Msg b)) (delivered ch devs))
      = ([R_Acquire, R_Logged 7 (length [1 :: u8, 2, 3]) hash,
          ClientEnd 7 (open_sink\<lparr>sunk := sunk open_sink @ [1, 2, 3]\<rparr>) True, R_Release], Ok (Continue RWaiting))"
    by auto
  have "length [1 :: u8, 2, 3] = 3" "sunk open_sink @ [1, 2, 3] = [1, 2, 3]" using k(2) by simp_all
  from run [unfolded this] world(4) [of End] devs show ?thesis unfolding sample_blocks_def by (metis fst_conv)
qed

section \<open>A transfer that breaks off\<close>

text \<open>Property C6. Bad news travel too. When the connection of a client of the sender breaks, its server thread ends the transfer with an
  \<open>Abort\<close> block, and at the other end of the diode, through the workers of both machines under any schedule and over any link
  within the bounds, the client opened for the transfer gets a beginning of the bytes and is then told that the transfer is
  not complete. What is lost of the bytes is less than a block.\<close>

theorem diode_aborts_broken_transfer:
  fixes lib :: "('plan, 'cfg, 'pkt) raptorq_lib" and hl :: "'h hasher_lib"
  assumes code: "sound_code lib rq"
    and geometry: "10 \<le> unat (transfer_length rq)" "min_nb_packets chk rq = (Ok m :: (receive_error, u16) res)" "0 < m"
    and blocks: "\<forall>b \<in> set bs. length (serialized b) = unat (transfer_length rq)"
    and client: "broken client" "length (pending client) < length ks"
      "filter (concerns cid) (drop b bs) = ordered_blocks (fst (run (server_step chk scfg hl rq) (Waiting, cid)
        ((\<lambda>_. True, Accept (Msg (Some client))) # map (\<lambda>k. (\<lambda>_. True, Ready k)) ks)))"
    and sender: "sender_run chk scfg lib rq complete bs sent"
    and link: "link lib rq (r_from rcfg) (r_from_mtu rcfg) (r_batch_receive rcfg) (unat m) bs sent b ns"
    and receiver: "receiver_run chk rcfg lib rq (on_wire sent ns) devs" "0 < r_nb_decode_threads rcfg" "reliable k"
  shows "\<exists>ch got lost. got @ lost = pending client \<and> length lost < unat (transfer_length rq) - 9
    \<and> opened cid devs = [ch]
    \<and> run (clients_step chk rcfg hl rq) RWaiting
          (Announced (Msg (cid, Ok k)) # map (\<lambda>b. Block_in (Msg b)) (delivered ch devs))
        = ([R_Acquire, ClientEnd cid (open_sink\<lparr>sunk := sunk k @ got\<rparr>) False, R_Release], Ok (Continue RWaiting))"
  using diode_serves [OF code geometry blocks client(2,3) sender link receiver] client(1) by auto

theorem diode_aborts_broken_transfer_witness:
  "\<exists>devs ch got lost. receiver_run True sample_receive_config sample_lib small_rq
        (on_wire (sample_sent small_rq Abort []) pair_positions) devs
    \<and> got @ lost = [1] \<and> fst (run (clients_step True sample_receive_config sample_hasher small_rq) RWaiting
        (Announced (Msg (7, Ok open_sink)) # map (\<lambda>b. Block_in (Msg b)) (delivered ch devs)))
      = [R_Acquire, ClientEnd 7 (open_sink\<lparr>sunk := got\<rparr>) False, R_Release]"
proof -
  let ?client = "\<lparr>pending = [1], broken = True\<rparr>"
  have fits: "length ([] :: bytes) + 9 \<le> 32" by simp
  note world = small_world [OF fits]
  from world(6) [of Abort] obtain devs where devs: "receiver_run True sample_receive_config sample_lib small_rq
      (on_wire (sample_sent small_rq Abort []) pair_positions) devs" ..
  have brk: "broken ?client" "length (pending ?client) < length [1, 1 :: nat]" by simp_all
  from server_aborts_client [OF world(1) brk, of sample_send_config True sample_hasher 7] obtain chunks lost where
    d: "concat chunks @ lost = [1]" "cut_ok False 23 chunks lost"
    and run: "run (server_step True sample_send_config sample_hasher small_rq) (Waiting, 7)
        ((\<lambda>_. True, Accept (Msg (Some ?client))) # map (\<lambda>k. (\<lambda>_. True, Ready k)) [1, 1])
      = ([Acquire, Ordered (Some (rq_block small_rq Start 7 []))]
           @ map (\<lambda>d. Ordered (Some (rq_block small_rq Data 7 d))) chunks
           @ [Release, Ordered (Some (rq_block small_rq Abort 7 []))], Ok (Continue (Waiting, 7 + 1)))"
    by (auto simp: small_rq_def sample_send_config_def simp del: run.simps list.map)
  have "pieces 23 [1] = (chunks, lost)" using cut_unique [OF d(2)] d(1) by simp
  then have "chunks = []" by (simp add: pieces_short)
  then have own: "filter (concerns 7) (drop 0 (pair_blocks small_rq 7 Abort [])) =
      ordered_blocks (fst (run (server_step True sample_send_config sample_hasher small_rq) (Waiting, 7)
        ((\<lambda>_. True, Accept (Msg (Some ?client))) # map (\<lambda>k. (\<lambda>_. True, Ready k)) [1, 1])))"
    unfolding run fst_conv by (simp add: ordered_blocks_def pair_blocks_def concerns_def)
  have k: "reliable open_sink" "sunk open_sink = []" by (simp_all add: reliable_def open_sink_def)
  from diode_aborts_broken_transfer [OF sample_sound world(1) sample_min world(2,3) brk own world(4,5) devs world(7) k(1)]
  obtain ch got lost where g: "got @ lost = pending ?client"
    "run (clients_step True sample_receive_config sample_hasher small_rq) RWaiting
        (Announced (Msg (7, Ok open_sink)) # map (\<lambda>b. Block_in (Msg b)) (delivered ch devs))
      = ([R_Acquire, ClientEnd 7 (open_sink\<lparr>sunk := sunk open_sink @ got\<rparr>) False, R_Release], Ok (Continue RWaiting))"
    by blast
  have "got @ lost = [1]" using g(1) by simp
  moreover have "fst (run (clients_step True sample_receive_config sample_hasher small_rq) RWaiting
        (Announced (Msg (7, Ok open_sink)) # map (\<lambda>b. Block_in (Msg b)) (delivered ch devs)))
      = [R_Acquire, ClientEnd 7 (open_sink\<lparr>sunk := got\<rparr>) False, R_Release]"
    unfolding g(2) k(2) by simp
  ultimately show ?thesis using devs by blast
qed

section \<open>A file through the whole diode\<close>

text \<open>Property C3. A file arrives. \<open>diode-send-file\<close> writes a file to the diode's sender; what it writes is cut into blocks, numbered
  by the ordering worker, encoded by the encoding threads under any schedule, and put on the wire by the UDP worker; over a link within the bounds
  it comes to the UDP worker of the receiver, is grouped, decoded under any schedule of the threads, put back in order and dispatched;
  \<open>diode-receive-file\<close> reads the connection that the receiver opens. With the same buffer size and the same choice of hashing at both
  ends it stores the contents of the file under its name and with its mode, and reports success, however all the reads are cut into pieces.\<close>

theorem file_through_diode:
  fixes lib :: "('plan, 'cfg, 'pkt) raptorq_lib" and hl :: "'h hasher_lib"
  assumes src: "sf_is_file src" "sf_open src = Ok content" "\<not> broken content" "sf_metadata src = Ok (mode, len)"
      "unat len = length (pending content)" "file_name_of path = Some name" "utf8_valid name" "length name < 2 ^ 63"
    and dir: "\<not> td_exists dir name" "td_open dir name = Ok k" "reliable k" "td_set_mode dir name mode = Ok ()"
    and net: "reliable sock" "length (pending content) < length readies" "length (pending content) < length readies'"
    and tools: "0 < f_buffer_size fscfg" "unat (f_buffer_size fscfg) < 2 ^ 63"
      "f_buffer_size frcfg = f_buffer_size fscfg" "f_hash frcfg = f_hash fscfg"
    and code: "sound_code lib rq"
    and geometry: "10 \<le> unat (transfer_length rq)" "min_nb_packets chk rq = (Ok m :: (receive_error, u16) res)" "0 < m"
    and blocks: "\<forall>b \<in> set bs. length (serialized b) = unat (transfer_length rq)"
    and sender: "sender_run chk scfg lib rq complete bs sent"
    and client: "pending client = concat (fst (send_file_aux fscfg hl sock path src readies))"
      "\<not> broken client" "length (pending client) < length ks"
      "filter (concerns cid) (drop b bs) = ordered_blocks (fst (client_start chk scfg hl rq cid client
         (\<lambda>_. True) (map (Pair (\<lambda>_. True)) ks)))"
    and link: "link lib rq (r_from rcfg) (r_from_mtu rcfg) (r_batch_receive rcfg) (unat m) bs sent b ns"
    and receiver: "receiver_run chk rcfg lib rq (on_wire sent ns) devs" "0 < r_nb_decode_threads rcfg"
  shows "\<exists>ch k' stored. opened cid devs = [ch]
    \<and> ClientEnd cid k' True \<in> set (fst (run (clients_step chk rcfg hl rq) RWaiting
          (Announced (Msg (cid, Ok open_sink)) # map (\<lambda>b. Block_in (Msg b)) (delivered ch devs))))
    \<and> receive_file frcfg hl \<lparr>pending = sunk k', broken = False\<rparr> dir readies'
        = (Created name # Mode_set mode # map Stored stored, Ok (Return (length (pending content))))
    \<and> concat stored = pending content"
proof -
  from file_transferred [OF src dir net tools, of hl "[]" False] obtain out stored where
    out: "send_file_aux fscfg hl sock path src readies = (out, Ok (Return (length (pending content))))"
    and file_ok: "receive_file frcfg hl \<lparr>pending = concat out @ [], broken = False\<rparr> dir readies'
        = (Created name # Mode_set mode # map Stored stored, Ok (Return (length (pending content))))"
      "concat stored = pending content" by blast
  have k: "reliable open_sink" "sunk open_sink = []" by (simp_all add: reliable_def open_sink_def)
  from diode_transfer [OF code geometry blocks sender client(2-4) link receiver k(1)] obtain ch hash where
    ch: "opened cid devs = [ch]"
      "run (clients_step chk rcfg hl rq) RWaiting
          (Announced (Msg (cid, Ok open_sink)) # map (\<lambda>b. Block_in (Msg b)) (delivered ch devs))
        = ([R_Acquire, R_Logged cid (length (pending client)) hash,
            ClientEnd cid (open_sink\<lparr>sunk := sunk open_sink @ pending client\<rparr>) True, R_Release], Ok (Continue RWaiting))"
    by blast
  let ?k' = "open_sink\<lparr>sunk := sunk open_sink @ pending client\<rparr>"
  have "sunk ?k' = concat out @ []" using k(2) client(1) out by simp
  with file_ok have "receive_file frcfg hl \<lparr>pending = sunk ?k', broken = False\<rparr> dir readies'
        = (Created name # Mode_set mode # map Stored stored, Ok (Return (length (pending content))))" by metis
  moreover have "ClientEnd cid ?k' True \<in> set (fst (run (clients_step chk rcfg hl rq) RWaiting
          (Announced (Msg (cid, Ok open_sink)) # map (\<lambda>b. Block_in (Msg b)) (delivered ch devs))))"
    unfolding ch(2) by simp
  ultimately show ?thesis using ch(1) file_ok(2) by blast
qed

text \<open>For the witnesses: a link with blocks of 64 bytes, so that the file fits one block.\<close>

definition medium_rq :: "(unit, u64 \<times> u16) raptorq" where
  "medium_rq = \<lparr>max_packet_size = 32, symbol_count = 2, transfer_length = 64,
     plan = (), config = (64, 32), nb_repair_packets = 0, min_nb_repair_packets = 0\<rparr>"

definition medium_config :: receive_config where
  "medium_config = sample_receive_config\<lparr>r_from_mtu := 96\<rparr>"

lemma medium_pair: "pair_rq medium_rq"
  by (simp add: pair_rq_def medium_rq_def)

lemma medium_world:
  assumes "length d + 9 \<le> 64"
  shows "10 \<le> unat (transfer_length medium_rq)" "0 < (2 :: u16)"
    and "\<forall>b \<in> set (pair_blocks medium_rq 7 t d). length (serialized b) = unat (transfer_length medium_rq)"
    and "sender_run True sample_send_config sample_lib medium_rq True (pair_blocks medium_rq 7 t d) (sample_sent medium_rq t d)"
    and "link sample_lib medium_rq (r_from medium_config) (r_from_mtu medium_config)
      (r_batch_receive medium_config) (unat (2 :: u16)) (pair_blocks medium_rq 7 t d) (sample_sent medium_rq t d) 0 pair_positions"
    and "\<exists>devs. receiver_run True medium_config sample_lib medium_rq (on_wire (sample_sent medium_rq t d) pair_positions) devs"
    and "0 < r_nb_decode_threads medium_config"
proof -
  have "unat (transfer_length medium_rq) = 64" by (simp add: medium_rq_def)
  then have fits: "10 \<le> unat (transfer_length medium_rq)" "length d + 9 \<le> unat (transfer_length medium_rq)"
      "unat (transfer_length medium_rq) + 5 \<le> unat (r_from_mtu medium_config)"
    using assms by (simp_all add: medium_config_def)
  have cfg: "r_from medium_config = s_to sample_send_config" "r_batch_receive medium_config = None"
      "0 < r_nb_decode_threads medium_config" "0 < s_nb_encode_threads sample_send_config"
      "s_batch_send sample_send_config \<noteq> Some 0"
    by (simp_all add: medium_config_def sample_receive_config_def sample_send_config_def)
  from pair_world [OF medium_pair fits cfg] fits(1) cfg(3) pair_lengths [OF fits(2)]
  show "10 \<le> unat (transfer_length medium_rq)" "0 < (2 :: u16)"
    "\<forall>b \<in> set (pair_blocks medium_rq 7 t d). length (serialized b) = unat (transfer_length medium_rq)"
    "sender_run True sample_send_config sample_lib medium_rq True (pair_blocks medium_rq 7 t d) (sample_sent medium_rq t d)"
    "link sample_lib medium_rq (r_from medium_config) (r_from_mtu medium_config)
      (r_batch_receive medium_config) (unat (2 :: u16)) (pair_blocks medium_rq 7 t d) (sample_sent medium_rq t d) 0 pair_positions"
    "\<exists>devs. receiver_run True medium_config sample_lib medium_rq (on_wire (sample_sent medium_rq t d) pair_positions) devs"
    "0 < r_nb_decode_threads medium_config" by simp_all
qed

lemma medium_served:
  assumes "length d + 9 < 64" and "length d < length ks"
  shows "filter (concerns 7) (drop 0 (pair_blocks medium_rq 7 End d)) =
      ordered_blocks (fst (run (server_step True sample_send_config sample_hasher medium_rq) (Waiting, 7)
        ((\<lambda>_. True, Accept (Msg (Some \<lparr>pending = d, broken = False\<rparr>))) # map (\<lambda>k. (\<lambda>_. True, Ready k)) ks)))"
  using assms by (subst short_served) (simp_all add: sample_send_config_def medium_rq_def pair_blocks_def concerns_def)

theorem file_through_diode_witness:
  "\<exists>d devs ch k' stored. receiver_run True medium_config sample_lib medium_rq
      (on_wire (sample_sent medium_rq End d) pair_positions) devs
    \<and> d = concat (fst (send_file_aux (sample_sender 2) sample_hasher open_sink [0x61, SLASH, 0x62] sample_source [1, 1, 1, 1]))
    \<and> ClientEnd 7 k' True \<in> set (fst (run (clients_step True medium_config sample_hasher medium_rq) RWaiting
          (Announced (Msg (7, Ok open_sink)) # map (\<lambda>b. Block_in (Msg b)) (delivered ch devs))))
    \<and> receive_file (sample_receiver 2) sample_hasher \<lparr>pending = sunk k', broken = False\<rparr> sample_dir [2, 2, 2, 2]
        = (Created [0x62] # Mode_set 420 # map Stored stored, Ok (Return 3))
    \<and> concat stored = [1, 2, 3]"
proof -
  let ?c = "\<lparr>pending = [1, 2, 3], broken = False\<rparr>"
  define d where "d = concat (fst (send_file_aux (sample_sender 2) sample_hasher open_sink [0x61, SLASH, 0x62]
      sample_source [1, 1, 1, 1]))"
  define client where "client = \<lparr>pending = d, broken = False\<rparr>"
  have open_ok: "reliable open_sink" by (simp add: reliable_def open_sink_def)
  have src: "sf_is_file sample_source" "sf_open sample_source = Ok ?c" "\<not> broken ?c" "sf_metadata sample_source = Ok (420, 3)"
      "unat (3 :: u64) = length (pending ?c)" "file_name_of [0x61, SLASH, 0x62] = Some [0x62]" "utf8_valid [0x62]"
      "length [0x62 :: u8] < 2 ^ 63"
    and dir: "\<not> td_exists sample_dir [0x62]" "td_open sample_dir [0x62] = Ok open_sink" "reliable open_sink"
      "td_set_mode sample_dir [0x62] 420 = Ok ()"
    and net: "reliable open_sink" "length (pending ?c) < length [1, 1, 1, 1 :: nat]" "length (pending ?c) < length [2, 2, 2, 2 :: nat]"
    and tools: "0 < f_buffer_size (sample_sender 2)" "unat (f_buffer_size (sample_sender 2)) < 2 ^ 63"
      "f_buffer_size (sample_receiver 2) = f_buffer_size (sample_sender 2)" "f_hash (sample_receiver 2) = f_hash (sample_sender 2)"
    using sample_path open_ok by simp_all
  from send_file_stream [OF src(1-4,6,7) net(1) tools(1,2) net(2), of sample_hasher]
  have d: "length d = 40" unfolding d_def
    by (auto simp: file_header_bytes_def file_footer_bytes_def)
  then have fits: "length d + 9 \<le> 64" by simp
  note world = medium_world [OF fits(1)]
  from world(6) [of End] obtain devs where devs: "receiver_run True medium_config sample_lib medium_rq
      (on_wire (sample_sent medium_rq End d) pair_positions) devs" ..
  have client: "pending client = concat (fst (send_file_aux (sample_sender 2) sample_hasher open_sink [0x61, SLASH, 0x62]
      sample_source [1, 1, 1, 1]))" "\<not> broken client" "length (pending client) < length (replicate 41 (1 :: nat))"
    using d by (simp_all add: client_def d_def)
  have own: "filter (concerns 7) (drop 0 (pair_blocks medium_rq 7 End d)) = ordered_blocks (fst (client_start True
      sample_send_config sample_hasher medium_rq 7 client (\<lambda>_. True) (map (Pair (\<lambda>_. True)) (replicate 41 1))))"
    using d by (subst short_transfer)
      (simp_all add: sample_send_config_def client_def medium_rq_def pair_blocks_def concerns_def)
  have l3: "pending ?c = [1, 2, 3]" "length [1 :: u8, 2, 3] = 3" by simp_all
  from file_through_diode [OF src dir net tools pair_sound [OF medium_pair] world(1) pair_min [OF medium_pair]
      world(2,3,4) client own world(5) devs world(7), unfolded l3] devs d_def show ?thesis by blast
qed

section \<open>A file that is cut off\<close>

text \<open>Property C5. Nothing but the whole file is accepted. \<open>diode-send-file\<close> may be stopped after any part of its output
  (\<open>unsent\<close> is missing), and then its connection may end or break; what has reached the sender goes through the workers of both
  machines, under any schedule and over any link within the bounds, and the connection to \<open>diode-receive-file\<close> may end or break after it.
  Whatever the buffer size and the choice of hashing of the receiver, and whatever its file system answers, it then fails;
  or nothing was missing, and it has stored exactly the contents of the file, under its name and mode, and reports its
  length. It never goes on waiting.\<close>

theorem cut_file_rejected:
  fixes lib :: "('plan, 'cfg, 'pkt) raptorq_lib" and hl :: "'h hasher_lib"
  assumes src: "sf_is_file src" "sf_open src = Ok content" "\<not> broken content" "sf_metadata src = Ok (mode, len)"
      "unat len = length (pending content)" "file_name_of path = Some name" "utf8_valid name" "length name < 2 ^ 63"
    and net: "reliable sock" "length (pending content) < length readies" "length (pending client) < length readies'"
    and tools: "0 < f_buffer_size fscfg" "unat (f_buffer_size fscfg) < 2 ^ 63" "0 < f_buffer_size frcfg"
    and code: "sound_code lib rq"
    and geometry: "10 \<le> unat (transfer_length rq)" "min_nb_packets chk rq = (Ok m :: (receive_error, u16) res)" "0 < m"
    and blocks: "\<forall>b \<in> set bs. length (serialized b) = unat (transfer_length rq)"
    and client: "pending client @ unsent = concat (fst (send_file_aux fscfg hl sock path src readies))"
      "length (pending client) < length ks"
      "filter (concerns cid) (drop b bs) = ordered_blocks (fst (run (server_step chk scfg hl rq) (Waiting, cid)
        ((\<lambda>_. True, Accept (Msg (Some client))) # map (\<lambda>k. (\<lambda>_. True, Ready k)) ks)))"
    and sender: "sender_run chk scfg lib rq complete bs sent"
    and link: "link lib rq (r_from rcfg) (r_from_mtu rcfg) (r_batch_receive rcfg) (unat m) bs sent b ns"
    and receiver: "receiver_run chk rcfg lib rq (on_wire sent ns) devs" "0 < r_nb_decode_threads rcfg"
  shows "\<exists>ch k'. opened cid devs = [ch]
    \<and> ClientEnd cid k' (\<not> broken client) \<in> set (fst (run (clients_step chk rcfg hl rq) RWaiting
          (Announced (Msg (cid, Ok open_sink)) # map (\<lambda>b. Block_in (Msg b)) (delivered ch devs))))
    \<and> (case receive_file frcfg hl \<lparr>pending = sunk k', broken = hangup\<rparr> dir readies' of
        (evs, Ok fl) \<Rightarrow> fl = Return (length (pending content)) \<and> unsent = [] \<and> sunk k' = pending client
          \<and> (\<exists>written. evs = Created name # Mode_set mode # written \<and> stored_bytes written = pending content)
      | (_, failure) \<Rightarrow> True)"
proof -
  let ?h = "\<lparr>fh_file_name = name, fh_mode = mode, fh_file_length = len\<rparr>"
  from send_file_stream [OF src(1-4,6,7) net(1) tools(1,2) net(2), of hl] obtain f where
    out: "pending client @ unsent = file_header_bytes ?h @ pending content @ file_footer_bytes f"
    using client(1) by auto
  have k: "reliable open_sink" "sunk open_sink = []" by (simp_all add: reliable_def open_sink_def)
  from diode_serves [OF code geometry blocks client(2,3) sender link receiver k(1)] obtain ch got lost hash where
    d: "got @ lost = pending client" "opened cid devs = [ch]"
      "run (clients_step chk rcfg hl rq) RWaiting
          (Announced (Msg (cid, Ok open_sink)) # map (\<lambda>b. Block_in (Msg b)) (delivered ch devs))
        = (R_Acquire # (if broken client then [] else [R_Logged cid (length got) hash])
             @ [ClientEnd cid (open_sink\<lparr>sunk := sunk open_sink @ got\<rparr>) (\<not> broken client), R_Release],
           Ok (Continue RWaiting))" by blast
  let ?k' = "open_sink\<lparr>sunk := sunk open_sink @ got\<rparr>" and ?s = "\<lparr>pending = got, broken = hangup\<rparr>"
  have cut: "pending ?s @ (lost @ unsent) = file_header_bytes ?h @ pending content @ file_footer_bytes f"
    using out d(1) by (metis append.assoc stream.select_convs(1))
  have valid: "file_header_valid ?h" "unat (fh_file_length ?h) = length (pending content)"
    using src(5,7,8) by (simp_all add: file_header_valid_def)
  have name: "file_name_of name = Some name"
    using file_name_of_plain [OF src(6)] by (intro file_name_of_name) auto
  have reads: "length (pending ?s) < length readies'" using net(3) d(1) [symmetric] by simp
  obtain evs r where rf: "receive_file frcfg hl ?s dir readies' = (evs, r)" by (cases "receive_file frcfg hl ?s dir readies'")
  have verdict: "fl = Return (length (pending content)) \<and> unsent = [] \<and> got = pending client
          \<and> (\<exists>written. evs = Created name # Mode_set mode # written \<and> stored_bytes written = pending content)"
    if Ok: "r = Ok fl" for fl
  proof -
    from Ok obtain t where fl: "fl = Return t" using receive_file_ends [OF reads, of frcfg hl dir evs] rf by (cases fl) auto
    from receive_file_cut [OF cut valid rf [unfolded Ok fl] tools(3)] show ?thesis
      using name d(1) Ok fl by auto
  qed
  moreover have "ClientEnd cid ?k' (\<not> broken client) \<in> set (fst (run (clients_step chk rcfg hl rq) RWaiting
          (Announced (Msg (cid, Ok open_sink)) # map (\<lambda>b. Block_in (Msg b)) (delivered ch devs))))"
    unfolding d(3) by simp
  ultimately show ?thesis using d(2) rf k(2) by (intro exI [of _ ch] exI [of _ ?k']) (simp split: res.split)
qed

text \<open>For the witness: the sending program is stopped in the footer, ten bytes before its end.\<close>

theorem cut_file_rejected_witness:
  "\<exists>d devs ch k'. d = take 30 (concat (fst (send_file_aux (sample_sender 2) sample_hasher open_sink [0x61, SLASH, 0x62]
        sample_source [1, 1, 1, 1])))
    \<and> receiver_run True medium_config sample_lib medium_rq (on_wire (sample_sent medium_rq End d) pair_positions) devs
    \<and> ClientEnd 7 k' True \<in> set (fst (run (clients_step True medium_config sample_hasher medium_rq) RWaiting
          (Announced (Msg (7, Ok open_sink)) # map (\<lambda>b. Block_in (Msg b)) (delivered ch devs))))
    \<and> (case snd (receive_file (sample_receiver 2) sample_hasher \<lparr>pending = sunk k', broken = False\<rparr> sample_dir (replicate 31 1)) of
          Ok _ \<Rightarrow> False | _ \<Rightarrow> True)"
proof -
  let ?c = "\<lparr>pending = [1, 2, 3], broken = False\<rparr>"
  define out where "out = concat (fst (send_file_aux (sample_sender 2) sample_hasher open_sink [0x61, SLASH, 0x62]
      sample_source [1, 1, 1, 1]))"
  define d where "d = take 30 out"
  define client where "client = \<lparr>pending = d, broken = False\<rparr>"
  have open_ok: "reliable open_sink" by (simp add: reliable_def open_sink_def)
  have src: "sf_is_file sample_source" "sf_open sample_source = Ok ?c" "\<not> broken ?c" "sf_metadata sample_source = Ok (420, 3)"
      "unat (3 :: u64) = length (pending ?c)" "file_name_of [0x61, SLASH, 0x62] = Some [0x62]" "utf8_valid [0x62]"
      "length [0x62 :: u8] < 2 ^ 63"
    and tools: "0 < f_buffer_size (sample_sender 2)" "unat (f_buffer_size (sample_sender 2)) < 2 ^ 63"
      "0 < f_buffer_size (sample_receiver 2)"
    and readies: "length (pending ?c) < length [1, 1, 1, 1 :: nat]"
    using sample_path by simp_all
  from send_file_stream [OF src(1-4,6,7) open_ok tools(1,2) readies, of sample_hasher]
  have "length out = 40" unfolding out_def by (auto simp: file_header_bytes_def file_footer_bytes_def)
  then have fits: "length d + 9 \<le> 64" "length d + 9 < 64" "length d < length (replicate 31 (1 :: nat))"
    and cut: "drop 30 out \<noteq> []"
    by (simp_all add: d_def)
  have client: "pending client @ drop 30 out = concat (fst (send_file_aux (sample_sender 2) sample_hasher open_sink
      [0x61, SLASH, 0x62] sample_source [1, 1, 1, 1]))" "length (pending client) < length (replicate 31 (1 :: nat))"
      "\<not> broken client"
    using fits(3) by (simp_all only: client_def d_def out_def append_take_drop_id stream.simps) simp_all
  note world = medium_world [OF fits(1)]
  from world(6) [of End] obtain devs where devs: "receiver_run True medium_config sample_lib medium_rq
      (on_wire (sample_sent medium_rq End d) pair_positions) devs" ..
  from cut_file_rejected [OF src open_ok readies client(2) tools pair_sound [OF medium_pair] world(1)
      pair_min [OF medium_pair] world(2,3) client(1,2) medium_served [OF fits(2,3), folded client_def] world(4,5) devs world(7), of False sample_dir]
  obtain ch k' where
    closed: "ClientEnd 7 k' (\<not> broken client) \<in> set (fst (run (clients_step True medium_config sample_hasher medium_rq) RWaiting
          (Announced (Msg (7, Ok open_sink)) # map (\<lambda>b. Block_in (Msg b)) (delivered ch devs))))"
    and verdict: "case receive_file (sample_receiver 2) sample_hasher \<lparr>pending = sunk k', broken = False\<rparr> sample_dir (replicate 31 1) of
        (evs, Ok fl) \<Rightarrow> fl = Return (length (pending ?c)) \<and> drop 30 out = [] \<and> sunk k' = pending client
          \<and> (\<exists>written. evs = Created [0x62] # Mode_set 420 # written \<and> stored_bytes written = pending ?c)
      | (_, failure) \<Rightarrow> True" by (elim exE conjE)
  from verdict cut have "case snd (receive_file (sample_receiver 2) sample_hasher \<lparr>pending = sunk k', broken = False\<rparr> sample_dir
      (replicate 31 1)) of Ok _ \<Rightarrow> False | _ \<Rightarrow> True"
    by (simp only: split_beta) (simp split: res.splits)
  then show ?thesis using devs closed client(3) unfolding d_def out_def by auto
qed

section \<open>Datagrams through the whole diode\<close>

text \<open>Property C4. Datagrams keep their order and their bounds. \<open>diode-send-udp\<close> writes the datagrams it receives to the diode's sender;
  they go through the workers of both machines, under any schedule and over any link within the bounds, and
  \<open>diode-receive-udp\<close> reads the connection that the diode's receiver opens. It forwards the datagrams in order, one for one, each
  cut to the buffer of the sending program, so whole if it fits this buffer. If the connection to the sender breaks, which also cuts
  a datagram in two, it forwards a beginning of them and never a part of one; the datagrams lost after the first lost
  one fit into less than a block.\<close>

theorem datagrams_through_diode:
  fixes lib :: "('plan, 'cfg, 'pkt) raptorq_lib" and hl :: "'h hasher_lib"
  assumes socket: "connect (u_diode uscfg) = Ok sock" "reliable sock"
    and buffers: "unat (u_buffer_size uscfg) \<le> unat (u_buffer_size urcfg)" "unat (u_buffer_size urcfg) < 2 ^ 63"
    and code: "sound_code lib rq"
    and geometry: "10 \<le> unat (transfer_length rq)" "min_nb_packets chk rq = (Ok m :: (receive_error, u16) res)" "0 < m"
    and blocks: "\<forall>b \<in> set bs. length (serialized b) = unat (transfer_length rq)"
    and client: "pending client = concat (fst (send_udp uscfg connect (Ok ()) (map Ok dgrams)))"
      "length (pending client) < length ks"
      "filter (concerns cid) (drop b bs) = ordered_blocks (fst (run (server_step chk scfg hl rq) (Waiting, cid)
        ((\<lambda>_. True, Accept (Msg (Some client))) # map (\<lambda>k. (\<lambda>_. True, Ready k)) ks)))"
    and sender: "sender_run chk scfg lib rq complete bs sent"
    and link: "link lib rq (r_from rcfg) (r_from_mtu rcfg) (r_batch_receive rcfg) (unat m) bs sent b ns"
    and receiver: "receiver_run chk rcfg lib rq (on_wire sent ns) devs" "0 < r_nb_decode_threads rcfg"
  shows "\<exists>ch k' j e. opened cid devs = [ch]
    \<and> ClientEnd cid k' (\<not> broken client) \<in> set (fst (run (clients_step chk rcfg hl rq) RWaiting
          (Announced (Msg (cid, Ok open_sink)) # map (\<lambda>b. Block_in (Msg b)) (delivered ch devs))))
    \<and> receive_udp urcfg \<lparr>pending = sunk k', broken = hangup\<rparr> (Ok ()) (replicate (Suc (length dgrams)) (Ok ()))
        = (take j (map (take (unat (u_buffer_size uscfg))) dgrams), Err e)
    \<and> (if broken client
        then length (concat (map frame (drop (Suc j) (map (take (unat (u_buffer_size uscfg))) dgrams))))
               < unat (transfer_length rq) - 9
        else j = length dgrams)"
proof -
  let ?ds = "map (take (unat (u_buffer_size uscfg))) dgrams"
  have k: "reliable open_sink" "sunk open_sink = []" by (simp_all add: reliable_def open_sink_def)
  have sent: "pending client = concat (map frame ?ds)"
    unfolding client(1) using socket buffers by (intro send_udp_frames) simp_all
  from diode_serves [OF code geometry blocks client(2,3) sender link receiver k(1)] obtain ch got lost hash where
    d: "got @ lost = pending client" "if broken client then length lost < unat (transfer_length rq) - 9 else lost = []"
      "opened cid devs = [ch]"
      "run (clients_step chk rcfg hl rq) RWaiting
          (Announced (Msg (cid, Ok open_sink)) # map (\<lambda>b. Block_in (Msg b)) (delivered ch devs))
        = (R_Acquire # (if broken client then [] else [R_Logged cid (length got) hash])
             @ [ClientEnd cid (open_sink\<lparr>sunk := sunk open_sink @ got\<rparr>) (\<not> broken client), R_Release],
           Ok (Continue RWaiting))" by blast
  let ?k' = "open_sink\<lparr>sunk := sunk open_sink @ got\<rparr>"
  have split: "got @ lost = concat (map frame ?ds)" using d(1) sent by simp
  have fit: "\<forall>d \<in> set ?ds. length d \<le> unat (u_buffer_size urcfg)" using buffers(1) by auto
  from receive_udp_cut [OF buffers(2) fit split, of hangup] obtain j e where
    j: "complete_frames (length got) ?ds j" "receive_udp urcfg \<lparr>pending = sunk ?k', broken = hangup\<rparr> (Ok ())
        (replicate (Suc (length dgrams)) (Ok ())) = (take j ?ds, Err e)"
    using k(2) by (auto simp del: replicate_Suc)
  have "ClientEnd cid ?k' (\<not> broken client) \<in> set (fst (run (clients_step chk rcfg hl rq) RWaiting
          (Announced (Msg (cid, Ok open_sink)) # map (\<lambda>b. Block_in (Msg b)) (delivered ch devs))))"
    unfolding d(4) by simp
  moreover have "if broken client then length (concat (map frame (drop (Suc j) ?ds))) < unat (transfer_length rq) - 9
      else j = length dgrams"
    using complete_frames_lost [OF j(1) split] d(2) by (cases "broken client") auto
  ultimately show ?thesis using d(3) j(2) by blast
qed

theorem datagrams_through_diode_witness:
  "\<exists>d devs ch k' e. receiver_run True medium_config sample_lib medium_rq
      (on_wire (sample_sent medium_rq End d) pair_positions) devs
    \<and> d = concat (fst (send_udp \<lparr>u_diode = Unix [0x73], u_buffer_size = 2\<rparr> (\<lambda>_. Ok open_sink) (Ok ()) (map Ok [[1], [2, 3, 4]])))
    \<and> ClientEnd 7 k' True \<in> set (fst (run (clients_step True medium_config sample_hasher medium_rq) RWaiting
          (Announced (Msg (7, Ok open_sink)) # map (\<lambda>b. Block_in (Msg b)) (delivered ch devs))))
    \<and> receive_udp \<lparr>u_diode = \<lparr>from_tcp = None, from_unix = Some [0x75]\<rparr>, u_buffer_size = 0xFFFF\<rparr>
        \<lparr>pending = sunk k', broken = False\<rparr> (Ok ()) (replicate (Suc (length [[1], [2, 3, 4 :: u8]])) (Ok ()))
        = ([[1], [2, 3]], Err e)"
proof -
  let ?s = "\<lparr>u_diode = Unix [0x73], u_buffer_size = 2\<rparr>"
  let ?r = "\<lparr>u_diode = \<lparr>from_tcp = None, from_unix = Some [0x75]\<rparr>, u_buffer_size = 0xFFFF\<rparr>"
  let ?connect = "\<lambda>_. Ok open_sink"
  define d where "d = concat (fst (send_udp ?s ?connect (Ok ()) (map Ok [[1], [2, 3, 4]])))"
  define client where "client = \<lparr>pending = d, broken = False\<rparr>"
  have k: "reliable open_sink" by (simp add: reliable_def open_sink_def)
  have sock: "?connect (u_diode ?s) = Ok open_sink" "reliable open_sink"
    and buf: "unat (u_buffer_size ?s) \<le> unat (u_buffer_size ?r)" "unat (u_buffer_size ?r) < 2 ^ 63"
    using k by simp_all
  have "d = concat (map frame (map (take (unat (u_buffer_size ?s))) [[1], [2, 3, 4]]))"
    unfolding d_def by (rule send_udp_frames [OF sock]) simp
  then have len: "length d = 19" by (simp add: length_frame)
  then have fits: "length d + 9 \<le> 64" "length d + 9 < 64" "length d < length (replicate 20 (1 :: nat))" by simp_all
  note world = medium_world [OF fits(1)]
  from world(6) [of End] obtain devs where devs: "receiver_run True medium_config sample_lib medium_rq
      (on_wire (sample_sent medium_rq End d) pair_positions) devs" ..
  have client: "pending client = concat (fst (send_udp ?s ?connect (Ok ()) (map Ok [[1], [2, 3, 4]])))"
      "length (pending client) < length (replicate 20 (1 :: nat))" "\<not> broken client"
    using len by (simp_all add: client_def d_def)
  note own = medium_served [OF fits(2,3), folded client_def]
  have both: "map (take 2) [[1], [2, 3, 4 :: u8]] = [[1], [2, 3]]" by simp
  from datagrams_through_diode [OF sock buf pair_sound [OF medium_pair] world(1) pair_min [OF medium_pair]
      world(2,3) client(1,2) own world(4,5) devs world(7), of False] client(3)
  obtain ch k' e where
    "ClientEnd 7 k' True \<in> set (fst (run (clients_step True medium_config sample_hasher medium_rq) RWaiting
          (Announced (Msg (7, Ok open_sink)) # map (\<lambda>b. Block_in (Msg b)) (delivered ch devs))))"
    "receive_udp ?r \<lparr>pending = sunk k', broken = False\<rparr> (Ok ()) (replicate (Suc (length [[1], [2, 3, 4 :: u8]])) (Ok ()))
        = ([[1], [2, 3]], Err e)"
    by (auto simp: both simp del: run.simps replicate_Suc list.map)
  then show ?thesis using devs d_def by blast
qed

end
